(* ===== verification/Vortek_Prelude.thy ===== *)
theory Vortek_Prelude
  imports Main "HOL-Library.Word"
begin

text \<open>
  The vocabulary shared by every component of the Vortek development.

  \<^item> Byte strings (\<^verbatim>\<open>std::string\<close>, \<^verbatim>\<open>std::string_view\<close>) are \<^typ>\<open>string\<close>: a list of 8-bit
    characters.
  \<^item> A \<^verbatim>\<open>int64_t\<close> is an \<^typ>\<open>int\<close> in the range \<open>fits64\<close>; arithmetic that may leave the range is
    written with \<open>wrap64\<close>, the two's complement reading of the low 64 bits. ISO C++ leaves a
    signed overflow undefined; \<open>wrap64\<close> is what the supported compilers' generated code does,
    and the theorems that meet such an operation either prove that it stays in range or assume it.
  \<^item> C++ exceptions are values of \<open>cpp_exn\<close>; a call that may throw returns \<^typ>\<open>'e + 'a\<close>, \<open>Inl\<close>
    being the exception.

  The collections declared here gather the rules the component proofs share.
\<close>

named_theorems sound_simps \<open>what a store call returns and leaves, for the contract of the handlers\<close>
named_theorems timeless_simps \<open>store calls on a store without deadlines\<close>
named_theorems line_simps \<open>texts without line breaks\<close>

section \<open>Machine integers\<close>

definition int64_max :: int where
  "int64_max = 9223372036854775807"

definition int64_min :: int where
  "int64_min = - 9223372036854775808"

definition fits64 :: "int \<Rightarrow> bool" where
  "fits64 n \<longleftrightarrow> int64_min \<le> n \<and> n \<le> int64_max"

definition wrap64 :: "int \<Rightarrow> int" where
  "wrap64 n = sint (word_of_int n :: 64 word)"

lemmas int64_defs = int64_max_def int64_min_def fits64_def

lemma wrap64_fits [simp]: "fits64 n \<Longrightarrow> wrap64 n = n"
  by (auto simp: wrap64_def int64_defs sint_sbintrunc' intro!: signed_take_bit_int_eq_self)

lemma fits64_wrap64 [simp, intro]: "fits64 (wrap64 n)"
proof -
  have "- (2 ^ 63) \<le> wrap64 n" and "wrap64 n < 2 ^ 63"
    using sint_greater_eq [of "word_of_int n :: 64 word"] sint_less [of "word_of_int n :: 64 word"]
    by (simp_all add: wrap64_def)
  then show ?thesis
    by (simp add: int64_defs)
qed

lemma fits64_0 [simp]: "fits64 0" and fits64_1 [simp]: "fits64 1"
  and fits64_m1 [simp]: "fits64 (- 1)" and fits64_m2 [simp]: "fits64 (- 2)"
  by (simp_all add: int64_defs)

section \<open>Counting positions\<close>

lemma card_less_Suc_split:
  "card {j. j < Suc n \<and> P j} = (if P 0 then 1 else 0) + card {j. j < n \<and> P (Suc j)}"
proof -
  have "{j. j < Suc n \<and> P j} = (if P 0 then {0} else {}) \<union> Suc ` {j. j < n \<and> P (Suc j)}"
    by (auto simp: less_Suc_eq_0_disj)
  then show ?thesis
    by (simp add: card_image)
qed

section \<open>Exceptions\<close>

text \<open>
  The exceptions the program meets: the \<^verbatim>\<open>std::runtime_error\<close>s the parser and the command
  line throw with their message, \<^verbatim>\<open>std::bad_variant_access\<close> from \<^verbatim>\<open>std::get\<close> on the wrong
  alternative, \<^verbatim>\<open>std::length_error\<close> from \<^verbatim>\<open>std::vector::reserve\<close>, and
  \<^verbatim>\<open>std::invalid_argument\<close> and \<^verbatim>\<open>std::out_of_range\<close> from \<^verbatim>\<open>std::stoi\<close> and
  \<^verbatim>\<open>std::stoull\<close>. The text of the standard library's own exceptions is chosen by the library, so
  it is a parameter of \<open>what_of\<close>.
\<close>

datatype std_exn = BadVariantAccess | LengthError | InvalidArgument | OutOfRange

datatype cpp_exn = RuntimeError string | StdExn std_exn

fun what_of :: "(std_exn \<Rightarrow> string) \<Rightarrow> cpp_exn \<Rightarrow> string" where
  "what_of lib (RuntimeError m) = m"
| "what_of lib (StdExn e) = lib e"

section \<open>Lists\<close>

lemma takeWhile_append_all: "(\<forall>x\<in>set xs. P x) \<Longrightarrow> takeWhile P (xs @ ys) = xs @ takeWhile P ys"
  by (induction xs) auto

lemma dropWhile_append_all: "(\<forall>x\<in>set xs. P x) \<Longrightarrow> dropWhile P (xs @ ys) = dropWhile P ys"
  by (induction xs) auto

lemma drop_append_le: "n \<le> length xs \<Longrightarrow> drop n (xs @ ys) = drop n xs @ ys"
  by simp

section \<open>Invariants of step relations\<close>

text \<open>
  What every step of a machine keeps holds in every later state, of a finite run and of an infinite
  one.
\<close>

locale preserved =
  fixes step :: "'s \<Rightarrow> 's \<Rightarrow> bool" and inv :: "'s \<Rightarrow> bool"
  assumes step_keeps: "step s s' \<Longrightarrow> inv s \<Longrightarrow> inv s'"
begin

lemma run_keeps:
  assumes "step\<^sup>*\<^sup>* s s'" and "inv s"
  shows "inv s'"
  using assms by (induction rule: rtranclp_induct) (auto intro: step_keeps)

lemma trace_keeps:
  assumes "i \<le> j" and "\<And>k. step (f k) (f (Suc k))" and "inv (f i)"
  shows "inv (f j)"
  using assms(1) by (induction rule: dec_induct) (use assms(2,3) in \<open>auto intro: step_keeps\<close>)

end

section \<open>Progress in infinite runs\<close>

text \<open>
  Weak fairness: as long as the goal is not reached it stays pending, and the helpful step reaches it.
  If the helpful step is taken unless the goal stops being pending, then the goal is reached.
\<close>

locale fair_progress =
  fixes step :: "'s \<Rightarrow> 's \<Rightarrow> bool" and pending goal :: "'s \<Rightarrow> bool" and helpful :: "'s \<Rightarrow> 's \<Rightarrow> bool"
  assumes stays_pending: "step s s' \<Longrightarrow> pending s \<Longrightarrow> pending s' \<or> goal s'"
    and helps: "step s s' \<Longrightarrow> pending s \<Longrightarrow> helpful s s' \<Longrightarrow> goal s'"
begin

lemma leads_to:
  assumes steps: "\<And>k. step (f k) (f (Suc k))" and "pending (f i)"
    and fair: "\<exists>j\<ge>i. \<not> pending (f j) \<or> helpful (f j) (f (Suc j))"
  shows "\<exists>j\<ge>i. goal (f j)"
proof (rule ccontr)
  assume "\<not> ?thesis"
  then have never: "\<not> goal (f j)" if "i \<le> j" for j
    using that by blast
  have "pending (f j)" if "i \<le> j" for j
    using that
  proof (induction rule: dec_induct)
    case (step j)
    then show ?case
      using stays_pending [OF steps] never [of "Suc j"] by auto
  qed (rule assms(2))
  with fair obtain j where "i \<le> j" "helpful (f j) (f (Suc j))" "pending (f j)"
    by blast
  with helps [OF steps] never [of "Suc j"] show False
    by simp
qed

end

end
