(* ===== verification/Std_Strings.thy ===== *)
theory Std_Strings
  imports Vortek_Prelude
begin

text \<open>
  The parts of the C++ standard library the sources use on strings: \<^verbatim>\<open>std::from_chars\<close> and
  \<^verbatim>\<open>std::to_string\<close> for \<^verbatim>\<open>int64_t\<close>, \<^verbatim>\<open>std::toupper\<close> and \<^verbatim>\<open>std::tolower\<close> in the C locale
  (the program never calls \<^verbatim>\<open>setlocale\<close>), and \<^verbatim>\<open>std::string::find\<close> of CR LF. The lemmas show
  that reading a number back after printing it gives the number, and that case folding is
  idempotent.
\<close>

section \<open>Definitions\<close>

definition is_digit :: "char \<Rightarrow> bool" where
  "is_digit c \<longleftrightarrow> 48 \<le> (of_char c :: nat) \<and> (of_char c :: nat) \<le> 57"

definition digit_val :: "char \<Rightarrow> nat" where
  "digit_val c = of_char c - 48"

definition digit_char :: "nat \<Rightarrow> char" where
  "digit_char d = char_of (48 + d)"

definition digits_val :: "string \<Rightarrow> nat" where
  "digits_val ds = foldl (\<lambda>a c. 10 * a + digit_val c) 0 ds"

datatype errc = errc_ok | invalid_argument | result_out_of_range

text \<open>
  \<^verbatim>\<open>std::from_chars(first, last, value)\<close> in base 10: an optional minus sign, then the longest run
  of digits. The result is the error code, the value (the caller's initial 0 when nothing is
  stored) and the part of the input that starts at the returned pointer.
\<close>

definition from_chars :: "string \<Rightarrow> errc \<times> int \<times> string" where
  "from_chars s =
     (let neg = (s \<noteq> [] \<and> hd s = CHR ''-'');
          body = (if neg then tl s else s);
          ds = takeWhile is_digit body;
          v = (if neg then - int (digits_val ds) else int (digits_val ds))
      in if ds = [] then (invalid_argument, 0, s)
         else if fits64 v then (errc_ok, v, dropWhile is_digit body)
         else (result_out_of_range, 0, dropWhile is_digit body))"

text \<open>
  The idiom every caller uses: the conversion has to succeed and to consume the whole string,
  \<^verbatim>\<open>ec == std::errc{} && ptr == s.data() + s.size()\<close>.
\<close>

definition parse_i64 :: "string \<Rightarrow> int option" where
  "parse_i64 s =
     (case from_chars s of (ec, v, rest) \<Rightarrow> if ec \<noteq> errc_ok \<or> rest \<noteq> [] then None else Some v)"

fun nat_to_string :: "nat \<Rightarrow> string" where
  "nat_to_string n =
     (if n < 10 then [digit_char n] else nat_to_string (n div 10) @ [digit_char (n mod 10)])"

declare nat_to_string.simps [simp del]

definition to_string :: "int \<Rightarrow> string" where
  "to_string i = (if i < 0 then CHR ''-'' # nat_to_string (nat (- i)) else nat_to_string (nat i))"

definition toupper :: "char \<Rightarrow> char" where
  "toupper c =
     (if 97 \<le> (of_char c :: nat) \<and> (of_char c :: nat) \<le> 122 then char_of (of_char c - 32 :: nat) else c)"

definition tolower :: "char \<Rightarrow> char" where
  "tolower c =
     (if 65 \<le> (of_char c :: nat) \<and> (of_char c :: nat) \<le> 90 then char_of (of_char c + 32 :: nat) else c)"

abbreviation upper :: "string \<Rightarrow> string" where
  "upper s \<equiv> map toupper s"

abbreviation lower :: "string \<Rightarrow> string" where
  "lower s \<equiv> map tolower s"

abbreviation CR :: char where "CR \<equiv> CHR 0x0D"
abbreviation LF :: char where "LF \<equiv> CHR 0x0A"

definition crlf :: string where
  "crlf = [CR, LF]"

text \<open>The index of the first CR LF, \<^verbatim>\<open>None\<close> standing for \<^verbatim>\<open>std::string::npos\<close>.\<close>

fun find_crlf_idx :: "string \<Rightarrow> nat option" where
  "find_crlf_idx (c # d # s) =
     (if c = CR \<and> d = LF then Some 0 else map_option Suc (find_crlf_idx (d # s)))"
| "find_crlf_idx s = None"

section \<open>Printing and reading integers\<close>

lemma of_char_digit_char: "d < 10 \<Longrightarrow> (of_char (digit_char d) :: nat) = 48 + d"
  by (simp add: digit_char_def)

lemma is_digit_digit_char [simp]: "d < 10 \<Longrightarrow> is_digit (digit_char d)"
  by (simp add: is_digit_def of_char_digit_char)

lemma digit_val_digit_char [simp]: "d < 10 \<Longrightarrow> digit_val (digit_char d) = d"
  by (simp add: digit_val_def of_char_digit_char)

lemma digits_val_snoc [simp]: "digits_val (ds @ [c]) = 10 * digits_val ds + digit_val c"
  by (simp add: digits_val_def)

lemma nat_to_string_digits: "c \<in> set (nat_to_string n) \<Longrightarrow> is_digit c"
proof (induction n rule: nat_to_string.induct)
  case (1 n)
  then show ?case
    by (cases "n < 10") (auto simp: nat_to_string.simps [of n])
qed

lemma nat_to_string_nonempty [simp]: "nat_to_string n \<noteq> []"
  by (subst nat_to_string.simps) simp

lemma digits_val_nat_to_string [simp]: "digits_val (nat_to_string n) = n"
proof (induction n rule: nat_to_string.induct)
  case (1 n)
  show ?case
  proof (cases "n < 10")
    case True
    then show ?thesis by (simp add: nat_to_string.simps [of n] digits_val_def)
  next
    case False
    with "1.IH" have "digits_val (nat_to_string n) = 10 * (n div 10) + n mod 10"
      by (simp add: nat_to_string.simps [of n])
    then show ?thesis by simp
  qed
qed

lemma minus_not_digit [simp]: "\<not> is_digit (CHR ''-'')"
  by (simp add: is_digit_def)

lemma hd_nat_to_string [simp]: "hd (nat_to_string n) \<noteq> CHR ''-''"
  using nat_to_string_digits [of "hd (nat_to_string n)" n] by (metis hd_in_set minus_not_digit nat_to_string_nonempty)

lemma takeWhile_nat_to_string [simp]: "takeWhile is_digit (nat_to_string n) = nat_to_string n"
  by (simp add: nat_to_string_digits)

lemma dropWhile_nat_to_string [simp]: "dropWhile is_digit (nat_to_string n) = []"
  by (simp add: nat_to_string_digits)

lemma parse_i64_to_string [simp]: "fits64 n \<Longrightarrow> parse_i64 (to_string n) = Some n"
  by (cases "n < 0") (simp_all add: parse_i64_def from_chars_def to_string_def Let_def)

lemma parse_i64_fits: "parse_i64 s = Some n \<Longrightarrow> fits64 n"
  by (auto simp: parse_i64_def from_chars_def Let_def split: if_splits)

lemma to_string_chars: "c \<in> set (to_string n) \<Longrightarrow> is_digit c \<or> c = CHR ''-''"
  by (auto simp: to_string_def dest: nat_to_string_digits split: if_splits)

lemma to_string_inject: "fits64 m \<Longrightarrow> fits64 n \<Longrightarrow> to_string m = to_string n \<longleftrightarrow> m = n"
  by (metis option.inject parse_i64_to_string)

section \<open>Case folding\<close>

lemma toupper_idem [simp]: "toupper (toupper c) = toupper c"
proof (cases "97 \<le> (of_char c :: nat) \<and> (of_char c :: nat) \<le> 122")
  case True
  then have "(of_char (toupper c) :: nat) = of_char c - 32"
    by (auto simp: toupper_def intro!: mod_less)
  with True have "\<not> 97 \<le> (of_char (toupper c) :: nat)"
    by arith
  then show ?thesis by (simp only: toupper_def [of "toupper c"] simp_thms if_False)
next
  case False
  then have "toupper c = c" by (simp only: toupper_def if_False)
  then show ?thesis by simp
qed

lemma upper_idem [simp]: "upper (upper s) = upper s"
  by (simp add: comp_def)

section \<open>Searching for CR LF\<close>

lemma find_crlf_idx_Some:
  "find_crlf_idx s = Some i \<Longrightarrow> \<exists>r. s = take i s @ crlf @ r \<and> i + 2 \<le> length s"
proof (induction s arbitrary: i rule: find_crlf_idx.induct)
  case (1 c d s)
  then show ?case by (fastforce simp: crlf_def split: if_splits)
qed simp_all

lemma find_crlf_idx_bound: "find_crlf_idx s = Some i \<Longrightarrow> i + 2 \<le> length s"
  using find_crlf_idx_Some by blast

lemma find_crlf_idx_append: "find_crlf_idx s = Some i \<Longrightarrow> find_crlf_idx (s @ t) = Some i"
  by (induction s arbitrary: i rule: find_crlf_idx.induct) (auto split: if_splits)

lemma find_crlf_idx_take: "find_crlf_idx s = Some i \<Longrightarrow> find_crlf_idx (take i s) = None"
proof (induction s arbitrary: i rule: find_crlf_idx.induct)
  case (1 c d s)
  show ?case
  proof (cases "c = CR \<and> d = LF")
    case False
    with 1 obtain k where k: "find_crlf_idx (d # s) = Some k" "i = Suc k"
      by (auto split: if_splits)
    with 1 False have "find_crlf_idx (take k (d # s)) = None" by simp
    with False k show ?thesis by (cases k) auto
  qed (use 1 in auto)
qed simp_all

lemma find_crlf_idx_line:
  "find_crlf_idx s = None \<Longrightarrow> find_crlf_idx (s @ crlf @ t) = Some (length s)"
  by (induction s rule: find_crlf_idx.induct) (auto simp: crlf_def split: if_splits)

lemma find_crlf_idx_no_CR: "CR \<notin> set s \<Longrightarrow> find_crlf_idx s = None"
  by (induction s rule: find_crlf_idx.induct) auto

lemma find_crlf_idx_to_string [simp]: "find_crlf_idx (to_string n) = None"
  by (rule find_crlf_idx_no_CR) (auto dest!: to_string_chars simp: is_digit_def)

end
