(* ===== verification/Resp_Types.thy ===== *)
theory Resp_Types
  imports Std_Strings
begin

text \<open>
  The protocol values of \<^verbatim>\<open>protocol/resp_types.hpp\<close> and the serializer of
  \<^verbatim>\<open>protocol/resp_serializer.hpp\<close>. The \<^verbatim>\<open>std::variant\<close> is a datatype with one constructor
  per alternative, \<^verbatim>\<open>RespValue::is<T>()\<close> the discriminator, \<^verbatim>\<open>std::visit\<close> the case analysis.
\<close>

section \<open>Values\<close>

datatype resp_value =
    RespNull
  | RespSimpleString string
  | RespError string
  | RespInteger int
  | RespBulkString string
  | RespArray "resp_value list"

section \<open>Serializer\<close>

fun serialize :: "resp_value \<Rightarrow> string" where
  "serialize RespNull = ''$-1'' @ crlf"
| "serialize (RespSimpleString s) = CHR ''+'' # s @ crlf"
| "serialize (RespError m) = CHR ''-'' # m @ crlf"
| "serialize (RespInteger i) = CHR '':'' # to_string i @ crlf"
| "serialize (RespBulkString b) = CHR ''$'' # to_string (int (length b)) @ crlf @ b @ crlf"
| "serialize (RespArray es) = CHR ''*'' # to_string (int (length es)) @ crlf @ concat (map serialize es)"

section \<open>Representable values\<close>

text \<open>
  \<open>resp_ok\<close> holds of the values the wire format can carry: a simple string or an error has no
  CR LF inside, an integer is an \<^verbatim>\<open>int64_t\<close>, lengths are sizes a container can have. The bound
  on arrays is \<^verbatim>\<open>std::vector<RespValue>::max_size()\<close>, the largest count that
  \<^verbatim>\<open>reserve\<close> accepts: \<^verbatim>\<open>PTRDIFF_MAX / sizeof(RespValue)\<close> with 40-byte values.
\<close>

definition vector_max_size :: int where
  "vector_max_size = int64_max div 40"

fun resp_ok :: "resp_value \<Rightarrow> bool" where
  "resp_ok RespNull = True"
| "resp_ok (RespSimpleString s) = (find_crlf_idx s = None)"
| "resp_ok (RespError m) = (find_crlf_idx m = None)"
| "resp_ok (RespInteger i) = fits64 i"
| "resp_ok (RespBulkString b) = (int (length b) \<le> int64_max)"
| "resp_ok (RespArray es) = (int (length es) \<le> vector_max_size \<and> (\<forall>e\<in>set es. resp_ok e))"

lemma vector_max_size_fits: "int n \<le> vector_max_size \<Longrightarrow> fits64 (int n)"
  by (simp add: vector_max_size_def int64_defs)

lemma int_length_fits: "int n \<le> int64_max \<Longrightarrow> fits64 (int n)"
  by (simp add: int64_defs)

lemma serialize_nonempty [simp]: "serialize v \<noteq> []"
  by (cases v) simp_all

end
