(* ===== verification/Resp_Parser.thy ===== *)
theory Resp_Parser
  imports Resp_Types
begin

text \<open>
  The incremental parser of \<^verbatim>\<open>protocol/resp_parser.cpp\<close>. Every \<^verbatim>\<open>parse_*\<close> function of the
  class reads the buffer at an absolute offset and returns the value, if it is complete, with the
  offset after it; \<^verbatim>\<open>{nullopt, 0}\<close> asks for more data and a protocol violation throws. The
  recursion between \<^verbatim>\<open>parse\<close> and \<^verbatim>\<open>parse_array\<close> is a total function: every complete value
  moves the offset forward.
\<close>

section \<open>Definitions\<close>

type_synonym parse_result = "cpp_exn + resp_value option \<times> nat"

definition find_crlf :: "string \<Rightarrow> nat \<Rightarrow> nat option" where
  "find_crlf buf off = map_option ((+) off) (find_crlf_idx (drop off buf))"

definition read_line :: "string \<Rightarrow> nat \<Rightarrow> string option \<times> nat" where
  "read_line buf off =
     (case find_crlf buf off of
        None \<Rightarrow> (None, 0)
      | Some pos \<Rightarrow> (Some (take (pos - off) (drop off buf)), pos + 2))"

definition parse_simple_string :: "string \<Rightarrow> nat \<Rightarrow> parse_result" where
  "parse_simple_string buf off =
     (case read_line buf off of
        (None, _) \<Rightarrow> Inr (None, 0)
      | (Some line, e) \<Rightarrow> Inr (Some (RespSimpleString line), e))"

definition parse_error :: "string \<Rightarrow> nat \<Rightarrow> parse_result" where
  "parse_error buf off =
     (case read_line buf off of
        (None, _) \<Rightarrow> Inr (None, 0)
      | (Some line, e) \<Rightarrow> Inr (Some (RespError line), e))"

definition parse_integer :: "string \<Rightarrow> nat \<Rightarrow> parse_result" where
  "parse_integer buf off =
     (case read_line buf off of
        (None, _) \<Rightarrow> Inr (None, 0)
      | (Some line, e) \<Rightarrow>
          (case parse_i64 line of
             None \<Rightarrow> Inl (RuntimeError (''RESP: invalid integer '' @ [CHR 0x27] @ line @ [CHR 0x27]))
           | Some v \<Rightarrow> Inr (Some (RespInteger v), e)))"

definition parse_bulk_string :: "string \<Rightarrow> nat \<Rightarrow> parse_result" where
  "parse_bulk_string buf off =
     (case read_line buf off of
        (None, _) \<Rightarrow> Inr (None, 0)
      | (Some line, after_len) \<Rightarrow>
          (case parse_i64 line of
             None \<Rightarrow>
               Inl (RuntimeError (''RESP: invalid bulk string length '' @ [CHR 0x27] @ line @ [CHR 0x27]))
           | Some len \<Rightarrow>
               if len = - 1 then Inr (Some RespNull, after_len)
               else if len < 0 then Inl (RuntimeError ''RESP: negative bulk string length'')
               else let data_len = nat len in
                 if after_len + data_len + 2 > length buf then Inr (None, 0)
                 else Inr (Some (RespBulkString (take data_len (drop after_len buf))),
                           after_len + data_len + 2)))"

text \<open>
  \<open>parse_elems\<close> is the loop of \<^verbatim>\<open>parse_array\<close>: \<open>n\<close> is the number of iterations left, \<open>arr\<close> the
  elements pushed so far, \<open>cur\<close> the running offset.
\<close>

function parse :: "string \<Rightarrow> nat \<Rightarrow> parse_result"
  and parse_array :: "string \<Rightarrow> nat \<Rightarrow> parse_result"
  and parse_elems :: "string \<Rightarrow> nat \<Rightarrow> resp_value list \<Rightarrow> nat \<Rightarrow> parse_result" where
  "parse buf off =
     (if off \<ge> length buf then Inr (None, 0)
      else if buf ! off = CHR ''+'' then parse_simple_string buf (off + 1)
      else if buf ! off = CHR ''-'' then parse_error buf (off + 1)
      else if buf ! off = CHR '':'' then parse_integer buf (off + 1)
      else if buf ! off = CHR ''$'' then parse_bulk_string buf (off + 1)
      else if buf ! off = CHR ''*'' then parse_array buf (off + 1)
      else Inl (RuntimeError (''RESP: unknown type byte '' @ [CHR 0x27, buf ! off, CHR 0x27])))"
| "parse_array buf off =
     (case read_line buf off of
        (None, _) \<Rightarrow> Inr (None, 0)
      | (Some line, after_count) \<Rightarrow>
          (case parse_i64 line of
             None \<Rightarrow>
               Inl (RuntimeError (''RESP: invalid array count '' @ [CHR 0x27] @ line @ [CHR 0x27]))
           | Some count \<Rightarrow>
               if count = - 1 then Inr (Some RespNull, after_count)
               else if count < 0 then Inl (RuntimeError ''RESP: negative array count'')
               else if count > vector_max_size then Inl (StdExn LengthError)
               else parse_elems buf (nat count) [] after_count))"
| "parse_elems buf 0 arr cur = Inr (Some (RespArray arr), cur)"
| "parse_elems buf (Suc n) arr cur =
     (case parse buf cur of
        Inl ex \<Rightarrow> Inl ex
      | Inr (None, _) \<Rightarrow> Inr (None, 0)
      | Inr (Some elem, e) \<Rightarrow> parse_elems buf n (arr @ [elem]) e)"
  by pat_completeness auto

lemma read_line_bounds:
  "read_line buf off = (Some line, e) \<Longrightarrow> off + 2 \<le> e \<and> e \<le> length buf"
  by (auto simp: read_line_def find_crlf_def dest!: find_crlf_idx_bound split: option.splits)

lemma scalar_parse_bounds:
  "parse_simple_string buf off = Inr (Some v, e) \<Longrightarrow> off < e \<and> e \<le> length buf"
  "parse_error buf off = Inr (Some v, e) \<Longrightarrow> off < e \<and> e \<le> length buf"
  "parse_integer buf off = Inr (Some v, e) \<Longrightarrow> off < e \<and> e \<le> length buf"
  "parse_bulk_string buf off = Inr (Some v, e) \<Longrightarrow> off < e \<and> e \<le> length buf"
  by (fastforce simp: parse_simple_string_def parse_error_def parse_integer_def
        parse_bulk_string_def Let_def dest: read_line_bounds
        split: prod.splits option.splits if_splits)+

lemma parse_dom_bounds:
  "parse_parse_array_parse_elems_dom (Inl (buf, off)) \<Longrightarrow>
     parse buf off = Inr (Some v, e) \<Longrightarrow> off < e \<and> e \<le> length buf"
  "parse_parse_array_parse_elems_dom (Inr (Inl (buf, off))) \<Longrightarrow>
     parse_array buf off = Inr (Some v, e) \<Longrightarrow> off < e \<and> e \<le> length buf"
  "parse_parse_array_parse_elems_dom (Inr (Inr (buf, n, arr, cur))) \<Longrightarrow>
     parse_elems buf n arr cur = Inr (Some v, e) \<Longrightarrow> cur \<le> length buf \<Longrightarrow> cur \<le> e \<and> e \<le> length buf"
proof (induction arbitrary: v e and v e and v e rule: parse_parse_array_parse_elems.pinduct)
  case (1 buf off)
  then show ?case
    by (force simp: parse.psimps dest: scalar_parse_bounds split: if_splits)
next
  case (2 buf off)
  then show ?case
    by (fastforce simp: parse_array.psimps dest: read_line_bounds
          split: prod.splits option.splits if_splits)
next
  case (3 buf arr cur)
  then show ?case by (simp add: parse_elems.psimps)
next
  case (4 buf n arr cur)
  then show ?case
    by (fastforce simp: parse_elems.psimps split: sum.splits prod.splits option.splits)
qed

lemma parse_all_dom: "All parse_parse_array_parse_elems_dom"
  by (relation "measure (case_sum (\<lambda>(buf, off). 2 * (length buf - off))
        (case_sum (\<lambda>(buf, off). 2 * (length buf - off))
           (\<lambda>(buf, n, arr, cur). 2 * (length buf - cur) + 1)))")
     (auto dest!: parse_dom_bounds(1) dest: read_line_bounds [OF sym])

termination parse
  by (rule parse_all_dom)

declare parse.simps [simp del] parse_array.simps [simp del]

text \<open>The public interface: the parser's state is its buffer \<^verbatim>\<open>buf_\<close>.\<close>

definition feed :: "string \<Rightarrow> string \<Rightarrow> (cpp_exn + resp_value option) \<times> string" where
  "feed buf chunk =
     (let buf' = buf @ chunk in
      case parse buf' 0 of
        Inl ex \<Rightarrow> (Inl ex, buf')
      | Inr (Some val, end_pos) \<Rightarrow> (Inr (Some val), drop end_pos buf')
      | Inr (None, _) \<Rightarrow> (Inr None, buf'))"

definition reset :: "string \<Rightarrow> string" where
  "reset buf = []"

definition buffered_size :: "string \<Rightarrow> nat" where
  "buffered_size buf = length buf"

section \<open>Offsets\<close>

lemma parse_bounds:
  "parse buf off = Inr (Some v, e) \<Longrightarrow> off < e \<and> e \<le> length buf"
  "parse_array buf off = Inr (Some v, e) \<Longrightarrow> off < e \<and> e \<le> length buf"
  "parse_elems buf n arr cur = Inr (Some v, e) \<Longrightarrow> cur \<le> length buf \<Longrightarrow> cur \<le> e \<and> e \<le> length buf"
  by (fact parse_dom_bounds [OF parse_all_dom [THEN spec]])+

section \<open>Every value the parser delivers is representable\<close>

lemma read_line_no_crlf: "read_line buf off = (Some line, e) \<Longrightarrow> find_crlf_idx line = None"
  by (auto simp: read_line_def find_crlf_def find_crlf_idx_take split: option.splits)

lemma scalar_parse_ok:
  "parse_simple_string buf off = Inr (Some v, e) \<Longrightarrow> resp_ok v"
  "parse_error buf off = Inr (Some v, e) \<Longrightarrow> resp_ok v"
  "parse_integer buf off = Inr (Some v, e) \<Longrightarrow> resp_ok v"
  "parse_bulk_string buf off = Inr (Some v, e) \<Longrightarrow> resp_ok v"
  by (auto simp: parse_simple_string_def parse_error_def parse_integer_def parse_bulk_string_def Let_def
      dest: read_line_no_crlf parse_i64_fits split: prod.splits option.splits if_splits)
    (auto dest!: parse_i64_fits simp: fits64_def)

lemma parse_ok:
  "parse buf off = Inr (Some v, e) \<Longrightarrow> resp_ok v"
  "parse_array buf off = Inr (Some v, e) \<Longrightarrow> resp_ok v"
  "parse_elems buf n arr cur = Inr (Some v, e) \<Longrightarrow> int (length arr + n) \<le> vector_max_size \<Longrightarrow>
     \<forall>x\<in>set arr. resp_ok x \<Longrightarrow> resp_ok v"
proof (induction buf off and buf off and buf n arr cur arbitrary: v e and v e and v e rule: parse_parse_array_parse_elems.induct)
  case (1 buf off)
  then show ?case
    by (auto simp: parse.simps [of buf] dest: scalar_parse_ok split: if_splits)
next
  case (2 buf off)
  from 2(2) obtain line after count where line: "read_line buf off = (Some line, after)" "parse_i64 line = Some count"
    by (cases "read_line buf off"; cases "fst (read_line buf off)")
      (auto simp: parse_array.simps [of buf] split: option.splits)
  with 2(2) consider "v = RespNull"
    | "0 \<le> count" "count \<le> vector_max_size" "count \<noteq> - 1" "parse_elems buf (nat count) [] after = Inr (Some v, e)"
    by (auto simp: parse_array.simps [of buf] not_less split: if_splits)
  then show ?case
  proof cases
    case 2
    with line show ?thesis
      by (intro "2.IH" [OF line(1) [symmetric] refl line(2)]) auto
  qed simp
next
  case (3 buf arr cur)
  then show ?case by auto
next
  case (4 buf n arr cur)
  then show ?case
    by (auto split: sum.splits prod.splits option.splits)
qed

lemma feed_ok: "feed buf chunk = (Inr (Some v), buf') \<Longrightarrow> resp_ok v"
  by (auto simp: feed_def Let_def dest: parse_ok(1) split: sum.splits prod.splits option.splits)

section \<open>A complete result does not depend on later input\<close>

definition complete :: "parse_result \<Rightarrow> bool" where
  "complete r \<longleftrightarrow> (\<forall>k. r \<noteq> Inr (None, k))"

lemma complete_simps [simp]:
  "complete (Inl ex)" "complete (Inr (Some v, e))" "\<not> complete (Inr (None, e))"
  by (simp_all add: complete_def)

lemma read_line_append:
  "read_line buf off = (Some line, e) \<Longrightarrow> read_line (buf @ x) off = (Some line, e)"
proof -
  assume rl: "read_line buf off = (Some line, e)"
  then have off: "off + 2 \<le> length buf"
    using read_line_bounds by fastforce
  from rl obtain i where i: "find_crlf_idx (drop off buf) = Some i"
    and line: "line = take i (drop off buf)" and e: "e = off + i + 2"
    by (auto simp: read_line_def find_crlf_def split: option.splits)
  from i have "i \<le> length (drop off buf)"
    using find_crlf_idx_bound by fastforce
  with off find_crlf_idx_append [OF i, of x] line e show ?thesis
    by (simp add: read_line_def find_crlf_def)
qed

lemma scalar_parse_append:
  "complete (parse_simple_string buf off) \<Longrightarrow> parse_simple_string (buf @ x) off = parse_simple_string buf off"
  "complete (parse_error buf off) \<Longrightarrow> parse_error (buf @ x) off = parse_error buf off"
  "complete (parse_integer buf off) \<Longrightarrow> parse_integer (buf @ x) off = parse_integer buf off"
  "complete (parse_bulk_string buf off) \<Longrightarrow> parse_bulk_string (buf @ x) off = parse_bulk_string buf off"
  by (cases "read_line buf off"; cases "fst (read_line buf off)";
      auto simp: parse_simple_string_def parse_error_def parse_integer_def
        parse_bulk_string_def Let_def read_line_append
        split: option.splits if_splits)+

lemma parse_append:
  "complete (parse buf off) \<Longrightarrow> parse (buf @ x) off = parse buf off"
  "complete (parse_array buf off) \<Longrightarrow> parse_array (buf @ x) off = parse_array buf off"
  "complete (parse_elems buf n arr cur) \<Longrightarrow> parse_elems (buf @ x) n arr cur = parse_elems buf n arr cur"
proof (induction rule: parse_parse_array_parse_elems.induct)
  case (1 buf off)
  then show ?case
    by (auto simp: parse.simps [of buf] parse.simps [of "buf @ x"] nth_append scalar_parse_append)
next
  case (2 buf off)
  then show ?case
    by (cases "read_line buf off"; cases "fst (read_line buf off)";
        auto simp: parse_array.simps [of buf] parse_array.simps [of "buf @ x"] read_line_append
          split: option.splits if_splits)
next
  case (3 buf arr cur)
  then show ?case by simp
next
  case (4 buf n arr cur)
  then show ?case
    by (auto split: sum.splits prod.splits option.splits)
qed

section \<open>Parsing what the serializer prints\<close>

lemma read_line_at:
  "find_crlf_idx l = None \<Longrightarrow>
     read_line (pre @ l @ crlf @ rest) (length pre) = (Some l, length pre + length l + 2)"
  by (simp add: read_line_def find_crlf_def find_crlf_idx_line)

lemma parse_tag:
  "parse (pre @ c # s) (length pre) =
     (let buf = (pre @ [c]) @ s; off = length (pre @ [c]) in
      if c = CHR ''+'' then parse_simple_string buf off
      else if c = CHR ''-'' then parse_error buf off
      else if c = CHR '':'' then parse_integer buf off
      else if c = CHR ''$'' then parse_bulk_string buf off
      else if c = CHR ''*'' then parse_array buf off
      else Inl (RuntimeError (''RESP: unknown type byte '' @ [CHR 0x27, c, CHR 0x27])))"
  by (simp add: parse.simps Let_def)

lemma parse_elems_serialized:
  assumes "\<And>e pre rest. e \<in> set es \<Longrightarrow>
    parse (pre @ serialize e @ rest) (length pre) = Inr (Some e, length pre + length (serialize e))"
  shows "parse_elems (pre @ concat (map serialize es) @ rest) (length es) arr (length pre) =
    Inr (Some (RespArray (arr @ es)), length pre + length (concat (map serialize es)))"
  using assms
proof (induction es arbitrary: pre arr)
  case Nil
  then show ?case by simp
next
  case (Cons e es)
  from Cons.prems [of e pre "concat (map serialize es) @ rest"]
  have "parse (pre @ concat (map serialize (e # es)) @ rest) (length pre) =
      Inr (Some e, length pre + length (serialize e))"
    by simp
  with Cons.IH [of "pre @ serialize e" "arr @ [e]"] Cons.prems show ?case
    by simp
qed

lemma parse_serialize_at:
  "resp_ok v \<Longrightarrow>
     parse (pre @ serialize v @ rest) (length pre) = Inr (Some v, length pre + length (serialize v))"
proof (induction v arbitrary: pre rest)
  case RespNull
  have "find_crlf_idx ''-1'' = None" and "parse_i64 ''-1'' = Some (- 1)"
    by (simp, code_simp)
  with read_line_at [of "''-1''" "pre @ ''$''" rest] show ?case
    by (simp add: parse_tag Let_def parse_bulk_string_def crlf_def)
next
  case (RespSimpleString s)
  with read_line_at [of s "pre @ ''+''" rest] show ?case
    by (simp add: parse_tag Let_def parse_simple_string_def crlf_def)
next
  case (RespError m)
  with read_line_at [of m "pre @ ''-''" rest] show ?case
    by (simp add: parse_tag Let_def parse_error_def crlf_def)
next
  case (RespInteger i)
  with read_line_at [of "to_string i" "pre @ '':''" rest] show ?case
    by (simp add: parse_tag Let_def parse_integer_def crlf_def)
next
  case (RespBulkString b)
  with read_line_at [of "to_string (int (length b))" "pre @ ''$''" "b @ crlf @ rest"] show ?case
    by (simp add: parse_tag Let_def parse_bulk_string_def crlf_def int_length_fits numeral_3_eq_3)
next
  case (RespArray es)
  then have "find_crlf_idx (to_string (int (length es))) = None"
    and "parse_i64 (to_string (int (length es))) = Some (int (length es))"
    and size: "\<not> vector_max_size < int (length es)"
    by (simp_all add: vector_max_size_fits)
  with read_line_at [of "to_string (int (length es))" "pre @ ''*''" "concat (map serialize es) @ rest"]
    parse_elems_serialized [of es "pre @ ''*'' @ to_string (int (length es)) @ crlf" rest "[]"] RespArray
  show ?case
    by (simp add: parse_tag Let_def parse_array.simps crlf_def)
qed

section \<open>Draining the buffer\<close>

text \<open>
  Connections and the replay of the append-only file use the parser the same way: feed the new
  bytes, then feed empty chunks until no value comes out. \<open>drain\<close> is that loop: the values in
  order, the exception that stopped it if any, and the bytes left in the buffer.
\<close>

function drain :: "string \<Rightarrow> resp_value list \<times> cpp_exn option \<times> string" where
  "drain buf =
     (case feed buf [] of
        (Inl ex, buf') \<Rightarrow> ([], Some ex, buf')
      | (Inr None, buf') \<Rightarrow> ([], None, buf')
      | (Inr (Some v), buf') \<Rightarrow> (case drain buf' of (vs, ex, r) \<Rightarrow> (v # vs, ex, r)))"
  by pat_completeness auto

lemma feed_shrinks: "feed buf chunk = (Inr (Some v), buf') \<Longrightarrow> length buf' < length buf + length chunk"
  by (fastforce simp: feed_def Let_def dest: parse_bounds split: sum.splits prod.splits option.splits)

termination drain
  by (relation "measure length") (auto dest!: feed_shrinks [OF sym])

declare drain.simps [simp del]

text \<open>
  What a client of an incremental parser relies on: a complete result is inside the buffer, uses
  at least one byte, and more input does not change it. The laws alone give that the values and
  the failure a stream of bytes produces do not depend on how it is cut into chunks.
\<close>

locale incremental_parser =
  fixes prs :: "'b list \<Rightarrow> 'x + 'v option \<times> nat"
    and drn :: "'b list \<Rightarrow> 'v list \<times> 'x option \<times> 'b list"
  assumes value_bound: "prs b = Inr (Some v, e) \<Longrightarrow> 0 < e \<and> e \<le> length b"
    and value_stable: "prs b = Inr (Some v, e) \<Longrightarrow> prs (b @ x) = Inr (Some v, e)"
    and failure_stable: "prs b = Inl ex \<Longrightarrow> prs (b @ x) = Inl ex"
    and drn_value: "prs b = Inr (Some v, e) \<Longrightarrow>
      drn b = (case drn (drop e b) of (vs, ex, r) \<Rightarrow> (v # vs, ex, r))"
    and drn_failure: "prs b = Inl ex \<Longrightarrow> drn b = ([], Some ex, b)"
    and drn_more: "prs b = Inr (None, e) \<Longrightarrow> drn b = ([], None, b)"
begin

lemma value_shorter: "prs b = Inr (Some v, e) \<Longrightarrow> length (drop e b) < length b"
  by (drule value_bound) auto

lemma prs_cases:
  obtains (fail) ex where "prs b = Inl ex" | (more) e where "prs b = Inr (None, e)"
    | (val) v e where "prs b = Inr (Some v, e)"
  by (cases "prs b") (auto, metis not_None_eq)

lemma drn_chunks:
  "drn (a @ b) =
     (case drn a of
        (vs, Some ex, r) \<Rightarrow> (vs, Some ex, r @ b)
      | (vs, None, r) \<Rightarrow> (case drn (r @ b) of (ws, ex, r') \<Rightarrow> (vs @ ws, ex, r')))"
proof (induction a rule: length_induct)
  case (1 a)
  show ?case
  proof (cases a rule: prs_cases)
    case fail
    then show ?thesis by (simp add: drn_failure failure_stable)
  next
    case more
    then show ?thesis by (simp add: drn_more split: prod.split)
  next
    case (val v e)
    from "1.IH" [rule_format, OF value_shorter [OF val]]
    have IH: "drn (drop e a @ b) =
        (case drn (drop e a) of
           (vs, Some ex, r) \<Rightarrow> (vs, Some ex, r @ b)
         | (vs, None, r) \<Rightarrow> (case drn (r @ b) of (ws, ex, r') \<Rightarrow> (vs @ ws, ex, r')))" .
    have "drn (a @ b) = (case drn (drop e a @ b) of (vs, ex, r) \<Rightarrow> (v # vs, ex, r))"
      using drn_value [OF value_stable [OF val], of b] value_bound [OF val] by simp
    then show ?thesis
      unfolding drn_value [OF val] IH by (auto split: prod.splits option.splits)
  qed
qed

lemma drn_rest: "drn a = (vs, None, r) \<Longrightarrow> drn r = ([], None, r)"
proof (induction a arbitrary: vs rule: length_induct)
  case (1 a)
  show ?case
  proof (cases a rule: prs_cases)
    case fail
    with "1.prems" show ?thesis by (simp add: drn_failure)
  next
    case more
    with "1.prems" show ?thesis by (simp add: drn_more)
  next
    case (val v e)
    with "1.prems" have "drn (drop e a) = (tl vs, None, r)"
      by (auto simp: drn_value split: prod.splits)
    with value_shorter [OF val] "1.IH" show ?thesis by blast
  qed
qed

end

interpretation resp: incremental_parser "\<lambda>b. parse b 0" drain
proof (unfold_locales, goal_cases)
  case (1 b v e)
  then show ?case using parse_bounds(1) by blast
next
  case (2 b v e x)
  then show ?case using parse_append(1) [of b 0 x] by simp
next
  case (3 b ex x)
  then show ?case using parse_append(1) [of b 0 x] by simp
next
  case (4 b v e)
  then show ?case by (simp add: drain.simps [of b] feed_def)
qed (simp_all add: drain.simps feed_def)

lemma drain_serialized:
  "\<forall>v\<in>set vs. resp_ok v \<Longrightarrow>
     drain (concat (map serialize vs) @ rest) = (case drain rest of (ws, ex, r) \<Rightarrow> (vs @ ws, ex, r))"
proof (induction vs)
  case Nil
  then show ?case by (auto split: prod.splits)
next
  case (Cons v vs)
  then have "parse (serialize v @ concat (map serialize vs) @ rest) 0 = Inr (Some v, length (serialize v))"
    using parse_serialize_at [of v "[]"] by simp
  then show ?case
    using Cons by (simp add: resp.drn_value split: prod.splits)
qed

section \<open>Properties\<close>

text \<open>
  C6: Every value the wire format can carry is read back unchanged: feeding the serialization of
  a value, followed by any other bytes, delivers the value and leaves exactly those bytes.
\<close>

theorem feed_serialize:
  "resp_ok v \<Longrightarrow> feed [] (serialize v @ rest) = (Inr (Some v), rest)"
  using parse_serialize_at [of v "[]" rest] by (simp add: feed_def)

theorem feed_serialize_witness:
  "feed [] (serialize (RespArray [RespBulkString ''GET'', RespNull, RespInteger (- 5)]) @ ''*1'') =
     (Inr (Some (RespArray [RespBulkString ''GET'', RespNull, RespInteger (- 5)])), ''*1'')"
  by (rule feed_serialize) (simp add: int64_defs vector_max_size_def)

text \<open>
  What a connection does with one chunk: feed it, then feed empty chunks until nothing comes out. A
  stream is read chunk by chunk; the first exception ends the reading.
\<close>

definition feed_drain :: "string \<Rightarrow> string \<Rightarrow> resp_value list \<times> cpp_exn option \<times> string" where
  "feed_drain buf chunk =
     (case feed buf chunk of
        (Inl ex, buf') \<Rightarrow> ([], Some ex, buf')
      | (Inr None, buf') \<Rightarrow> ([], None, buf')
      | (Inr (Some v), buf') \<Rightarrow> (case drain buf' of (vs, ex, rest) \<Rightarrow> (v # vs, ex, rest)))"

fun feed_chunks :: "string \<Rightarrow> string list \<Rightarrow> resp_value list \<times> cpp_exn option \<times> string" where
  "feed_chunks buf [] = ([], None, buf)"
| "feed_chunks buf (chunk # chunks) =
     (case feed_drain buf chunk of
        (vs, Some ex, rest) \<Rightarrow> (vs, Some ex, rest @ concat chunks)
      | (vs, None, rest) \<Rightarrow>
          (case feed_chunks rest chunks of (ws, ex, rest') \<Rightarrow> (vs @ ws, ex, rest')))"

lemma feed_drain_eq: "feed_drain buf chunk = drain (buf @ chunk)"
  by (subst drain.simps) (simp add: feed_drain_def feed_def)

lemma feed_chunks_from:
  "drain buf = ([], None, buf) \<Longrightarrow> feed_chunks buf chunks = drain (buf @ concat chunks)"
proof (induction chunks arbitrary: buf)
  case Nil
  then show ?case by simp
next
  case (Cons chunk chunks)
  show ?case
    using Cons.IH resp.drn_rest [of "buf @ chunk"] resp.drn_chunks [of "buf @ chunk" "concat chunks"]
    by (auto simp: feed_drain_eq split: prod.split option.split)
qed

text \<open>
  C17: How the network cuts a stream of bytes into chunks does not matter: the values delivered, the
  exception raised and the bytes left over are those of the whole stream read at once.
\<close>

theorem feed_chunks_concat: "feed_chunks [] chunks = drain (concat chunks)"
  using feed_chunks_from [of "[]"] resp.drn_more [of "[]" 0] by (simp add: parse.simps)

text \<open>
  An error line survives the wire exactly when its text has no CR LF; otherwise the client
  reads a shorter error followed by text that the server's caller chose.
\<close>

lemma error_line_exact:
  "feed [] (serialize (RespError m)) = (Inr (Some (RespError m)), []) \<longleftrightarrow> find_crlf_idx m = None"
proof (cases "find_crlf_idx m")
  case None
  then show ?thesis
    using parse_serialize_at [of "RespError m" "[]" "[]"] by (simp add: feed_def)
next
  case (Some i)
  then have "i + 2 \<le> length m" and "find_crlf_idx (m @ crlf) = Some i"
    using find_crlf_idx_bound find_crlf_idx_append by fastforce+
  then have "read_line (CHR ''-'' # m @ crlf) 1 = (Some (take i m), i + 3)"
    by (simp add: read_line_def find_crlf_def)
  moreover from \<open>i + 2 \<le> length m\<close> have "take i m \<noteq> m"
    by (auto dest: arg_cong [of _ _ length])
  ultimately show ?thesis
    using Some parse_tag [of "[]" "CHR ''-''" "m @ crlf"]
    by (simp add: feed_def Let_def parse_error_def)
qed

end
