(* ===== verification/Std_Containers.thy ===== *)
theory Std_Containers
  imports Main "HOL-Library.AList"
begin

text \<open>
  The unordered containers of the C++ standard library as the sources use them. A
  \<^verbatim>\<open>std::unordered_map\<close> is an association list with distinct keys and a
  \<^verbatim>\<open>std::unordered_set\<close> a list with distinct elements; the order of the list stands for the
  iteration order, which the standard leaves unspecified, and no theorem of the development
  depends on which order it is.

  The two locales are the contracts the store, the hash and set commands, the broker and the
  dispatcher rely on; they are interpreted on the list representations right here.
\<close>

section \<open>Definitions\<close>

type_synonym ('k, 'v) unordered_map = "('k \<times> 'v) list"
type_synonym 'a unordered_set = "'a list"

definition um_ok :: "('k, 'v) unordered_map \<Rightarrow> bool" where
  "um_ok m \<longleftrightarrow> distinct (map fst m)"

abbreviation um_find :: "('k, 'v) unordered_map \<Rightarrow> 'k \<Rightarrow> 'v option" where
  "um_find \<equiv> map_of"

text \<open>\<^verbatim>\<open>insert_or_assign\<close>: the new map, and whether the key was inserted rather than assigned.\<close>

definition um_insert_or_assign :: "'k \<Rightarrow> 'v \<Rightarrow> ('k, 'v) unordered_map \<Rightarrow> ('k, 'v) unordered_map \<times> bool" where
  "um_insert_or_assign k v m = (AList.update k v m, um_find m k = None)"

text \<open>\<^verbatim>\<open>emplace\<close> leaves the map alone when the key is present.\<close>

definition um_emplace :: "'k \<Rightarrow> 'v \<Rightarrow> ('k, 'v) unordered_map \<Rightarrow> ('k, 'v) unordered_map" where
  "um_emplace k v m = (if um_find m k = None then m @ [(k, v)] else m)"

text \<open>\<^verbatim>\<open>erase(key)\<close>: the new map, and the number of elements removed.\<close>

definition um_erase :: "'k \<Rightarrow> ('k, 'v) unordered_map \<Rightarrow> ('k, 'v) unordered_map \<times> nat" where
  "um_erase k m = (AList.delete k m, if um_find m k = None then 0 else 1)"

definition us_ok :: "'a unordered_set \<Rightarrow> bool" where
  "us_ok s \<longleftrightarrow> distinct s"

definition us_insert :: "'a \<Rightarrow> 'a unordered_set \<Rightarrow> 'a unordered_set \<times> bool" where
  "us_insert x s = (if x \<in> set s then (s, False) else (s @ [x], True))"

definition us_erase :: "'a \<Rightarrow> 'a unordered_set \<Rightarrow> 'a unordered_set \<times> nat" where
  "us_erase x s = (if x \<in> set s then (remove1 x s, 1) else (s, 0))"

definition us_count :: "'a \<Rightarrow> 'a unordered_set \<Rightarrow> nat" where
  "us_count x s = (if x \<in> set s then 1 else 0)"

section \<open>The contract of a hash map\<close>

locale hash_map =
  fixes invar :: "'m \<Rightarrow> bool"
    and empty :: 'm
    and lookup :: "'m \<Rightarrow> 'k \<Rightarrow> 'v option"
    and assign :: "'k \<Rightarrow> 'v \<Rightarrow> 'm \<Rightarrow> 'm"
    and erase :: "'k \<Rightarrow> 'm \<Rightarrow> 'm"
    and size_of :: "'m \<Rightarrow> nat"
  assumes invar_empty: "invar empty"
    and invar_assign: "invar m \<Longrightarrow> invar (assign k v m)"
    and invar_erase: "invar m \<Longrightarrow> invar (erase k m)"
    and lookup_empty: "lookup empty = Map.empty"
    and lookup_assign: "invar m \<Longrightarrow> lookup (assign k v m) = (lookup m)(k \<mapsto> v)"
    and lookup_erase: "invar m \<Longrightarrow> lookup (erase k m) = (lookup m)(k := None)"
    and finite_dom: "invar m \<Longrightarrow> finite (dom (lookup m))"
    and size_card: "invar m \<Longrightarrow> size_of m = card (dom (lookup m))"
begin

lemma size_assign:
  "invar m \<Longrightarrow> size_of (assign k v m) = (if lookup m k = None then Suc (size_of m) else size_of m)"
  by (auto simp: size_card invar_assign lookup_assign finite_dom domIff intro!: arg_cong [of _ _ card])

lemma size_erase:
  "invar m \<Longrightarrow> size_of (erase k m) = (if lookup m k = None then size_of m else size_of m - 1)"
  by (auto simp: size_card invar_erase lookup_erase finite_dom domIff intro!: arg_cong [of _ _ card])

lemma size_zero: "invar m \<Longrightarrow> size_of m = 0 \<longleftrightarrow> lookup m = Map.empty"
  by (simp add: size_card finite_dom)

end

lemma map_of_delete [simp]: "map_of (AList.delete k m) = (map_of m)(k := None)"
  by (rule delete_conv')

lemma map_of_update [simp]: "map_of (AList.update k v m) = (map_of m)(k \<mapsto> v)"
  by (rule update_conv')

lemma set_update_subset: "set (AList.update k v m) \<subseteq> insert (k, v) (set m)"
  by (induction m) auto

lemma set_delete_subset: "set (AList.delete k m) \<subseteq> set m"
  by (auto simp: AList.delete_eq)

interpretation um: hash_map um_ok "[]" map_of AList.update AList.delete length
proof (unfold_locales, goal_cases)
  case (8 m)
  then have "card (dom (map_of m)) = length (map fst m)"
    unfolding dom_map_of_conv_image_fst um_ok_def using distinct_card [of "map fst m"] by simp
  then show ?case by simp
qed (simp_all add: um_ok_def distinct_update distinct_delete finite_dom_map_of)

section \<open>The contract of a hash set\<close>

locale hash_set =
  fixes invar :: "'s \<Rightarrow> bool"
    and elems :: "'s \<Rightarrow> 'a set"
    and add :: "'a \<Rightarrow> 's \<Rightarrow> 's \<times> bool"
    and del :: "'a \<Rightarrow> 's \<Rightarrow> 's \<times> nat"
    and size_of :: "'s \<Rightarrow> nat"
  assumes invar_add: "invar s \<Longrightarrow> invar (fst (add x s))"
    and invar_del: "invar s \<Longrightarrow> invar (fst (del x s))"
    and elems_add: "invar s \<Longrightarrow> elems (fst (add x s)) = insert x (elems s)"
    and added: "invar s \<Longrightarrow> snd (add x s) \<longleftrightarrow> x \<notin> elems s"
    and elems_del: "invar s \<Longrightarrow> elems (fst (del x s)) = elems s - {x}"
    and deleted: "invar s \<Longrightarrow> snd (del x s) = (if x \<in> elems s then 1 else 0)"
    and size_card: "invar s \<Longrightarrow> size_of s = card (elems s)"
    and finite_elems: "invar s \<Longrightarrow> finite (elems s)"
begin

lemma size_add: "invar s \<Longrightarrow> size_of (fst (add x s)) = size_of s + (if snd (add x s) then 1 else 0)"
  by (auto simp: size_card invar_add elems_add added finite_elems insert_absorb)

lemma size_del: "invar s \<Longrightarrow> size_of s = size_of (fst (del x s)) + snd (del x s)"
  using card_Suc_Diff1 [of "elems s" x]
  by (auto simp: size_card invar_del elems_del deleted finite_elems simp del: card_Diff_insert)

end

interpretation us: hash_set us_ok set us_insert us_erase length
  by unfold_locales (auto simp: us_ok_def us_insert_def us_erase_def distinct_card)

end
