(* ===== verification/Kv_Store.thy ===== *)
theory Kv_Store
  imports Vortek_Prelude Std_Containers "HOL-Library.Signed_Division"
begin

text \<open>
  The key-value store of \<^verbatim>\<open>core/value.hpp\<close> and \<^verbatim>\<open>core/kv_store.cpp\<close>.

  Time points and durations of \<^verbatim>\<open>std::chrono::steady_clock\<close> are 64-bit counts of nanoseconds.
  Every call of \<^verbatim>\<open>Clock::now()\<close> is a \<open>now\<close> argument of the operation that makes it, so an
  operation that reads the clock twice has two. The mutex makes each operation atomic; the
  background thread is one more source of atomic steps, \<open>sweep\<close>.
\<close>

section \<open>Definitions\<close>

datatype Value =
    StringValue string
  | ListValue "string list"
  | SetValue "string unordered_set"
  | HashValue "(string, string) unordered_map"

fun is_string :: "Value \<Rightarrow> bool" where
  "is_string (StringValue _) = True"
| "is_string _ = False"

fun is_list :: "Value \<Rightarrow> bool" where
  "is_list (ListValue _) = True"
| "is_list _ = False"

fun is_set :: "Value \<Rightarrow> bool" where
  "is_set (SetValue _) = True"
| "is_set _ = False"

fun is_hash :: "Value \<Rightarrow> bool" where
  "is_hash (HashValue _) = True"
| "is_hash _ = False"

text \<open>\<^verbatim>\<open>std::get\<close> on another alternative throws.\<close>

fun as_string :: "Value \<Rightarrow> cpp_exn + string" where
  "as_string (StringValue s) = Inr s"
| "as_string _ = Inl (StdExn BadVariantAccess)"

fun as_list :: "Value \<Rightarrow> cpp_exn + string list" where
  "as_list (ListValue l) = Inr l"
| "as_list _ = Inl (StdExn BadVariantAccess)"

fun as_set :: "Value \<Rightarrow> cpp_exn + string unordered_set" where
  "as_set (SetValue s) = Inr s"
| "as_set _ = Inl (StdExn BadVariantAccess)"

fun as_hash :: "Value \<Rightarrow> cpp_exn + (string, string) unordered_map" where
  "as_hash (HashValue h) = Inr h"
| "as_hash _ = Inl (StdExn BadVariantAccess)"

type_synonym time_point = int

record entry =
  entry_value :: Value
  expires_at :: "time_point option"

record kv_store =
  kv_data :: "(string, entry) unordered_map"

definition is_expired :: "time_point \<Rightarrow> entry \<Rightarrow> bool" where
  "is_expired now e \<longleftrightarrow> (case expires_at e of None \<Rightarrow> False | Some t \<Rightarrow> now \<ge> t)"

text \<open>\<^verbatim>\<open>now + ttl\<close>: the milliseconds are converted to the clock's nanoseconds first.\<close>

definition deadline :: "time_point \<Rightarrow> int \<Rightarrow> time_point" where
  "deadline now ttl = wrap64 (now + wrap64 (ttl * 1000000))"

text \<open>\<^verbatim>\<open>std::chrono::seconds\<close> becomes \<^verbatim>\<open>milliseconds\<close> by a 64-bit multiplication.\<close>

definition seconds :: "int \<Rightarrow> int" where
  "seconds secs = wrap64 (secs * 1000)"

definition kv_empty :: kv_store where
  "kv_empty = \<lparr>kv_data = []\<rparr>"

definition kv_set :: "time_point \<Rightarrow> string \<Rightarrow> Value \<Rightarrow> int \<Rightarrow> kv_store \<Rightarrow> kv_store" where
  "kv_set now key v ttl s =
     (let exp = (if ttl > 0 then Some (deadline now ttl) else None)
      in s\<lparr>kv_data := fst (um_insert_or_assign key \<lparr>entry_value = v, expires_at = exp\<rparr> (kv_data s))\<rparr>)"

definition kv_get :: "time_point \<Rightarrow> string \<Rightarrow> kv_store \<Rightarrow> Value option" where
  "kv_get now key s =
     (case um_find (kv_data s) key of
        None \<Rightarrow> None
      | Some e \<Rightarrow> if is_expired now e then None else Some (entry_value e))"

definition kv_del :: "time_point \<Rightarrow> string \<Rightarrow> kv_store \<Rightarrow> int \<times> kv_store" where
  "kv_del now key s =
     (case um_find (kv_data s) key of
        None \<Rightarrow> (0, s)
      | Some e \<Rightarrow>
          let alive = \<not> is_expired now e
          in (if alive then 1 else 0, s\<lparr>kv_data := AList.delete key (kv_data s)\<rparr>))"

definition kv_exists :: "time_point \<Rightarrow> string \<Rightarrow> kv_store \<Rightarrow> bool" where
  "kv_exists now key s =
     (case um_find (kv_data s) key of None \<Rightarrow> False | Some e \<Rightarrow> \<not> is_expired now e)"

definition kv_expire :: "time_point \<Rightarrow> time_point \<Rightarrow> string \<Rightarrow> int \<Rightarrow> kv_store \<Rightarrow> bool \<times> kv_store" where
  "kv_expire now now' key ttl s =
     (case um_find (kv_data s) key of
        None \<Rightarrow> (False, s)
      | Some e \<Rightarrow>
          if is_expired now e then (False, s)
          else (True, s\<lparr>kv_data := AList.update key (e\<lparr>expires_at := Some (deadline now' ttl)\<rparr>) (kv_data s)\<rparr>))"

text \<open>\<^verbatim>\<open>duration_cast\<close> to milliseconds truncates towards zero.\<close>

definition kv_ttl :: "time_point \<Rightarrow> time_point \<Rightarrow> string \<Rightarrow> kv_store \<Rightarrow> int" where
  "kv_ttl now now' key s =
     (case um_find (kv_data s) key of
        None \<Rightarrow> - 2
      | Some e \<Rightarrow>
          if is_expired now e then - 2
          else (case expires_at e of
                  None \<Rightarrow> - 1
                | Some t \<Rightarrow> max 0 (wrap64 (t - now') sdiv 1000000)))"

definition kv_persist :: "time_point \<Rightarrow> string \<Rightarrow> kv_store \<Rightarrow> bool \<times> kv_store" where
  "kv_persist now key s =
     (case um_find (kv_data s) key of
        None \<Rightarrow> (False, s)
      | Some e \<Rightarrow>
          if is_expired now e then (False, s)
          else (True, s\<lparr>kv_data := AList.update key (e\<lparr>expires_at := None\<rparr>) (kv_data s)\<rparr>))"

definition kv_size :: "kv_store \<Rightarrow> nat" where
  "kv_size s = length (kv_data s)"

fun value_bytes :: "Value \<Rightarrow> nat" where
  "value_bytes (StringValue d) = length d"
| "value_bytes (ListValue es) = sum_list (map length es)"
| "value_bytes (SetValue ms) = sum_list (map length ms)"
| "value_bytes (HashValue fs) = sum_list (map (\<lambda>(f, v). length f + length v) fs)"

definition approx_memory_bytes :: "kv_store \<Rightarrow> nat" where
  "approx_memory_bytes s =
     foldl (\<lambda>total (key, e). total + length key + value_bytes (entry_value e)) 0 (kv_data s)"

text \<open>
  One round of the background thread: erase every entry whose deadline is reached. The loop over
  the buckets is a recursion over the entries that are left to visit.
\<close>

fun sweep_loop :: "time_point \<Rightarrow> (string, entry) unordered_map \<Rightarrow> (string, entry) unordered_map" where
  "sweep_loop now [] = []"
| "sweep_loop now ((k, e) # m) =
     (if (case expires_at e of None \<Rightarrow> False | Some t \<Rightarrow> t \<le> now) then sweep_loop now m
      else (k, e) # sweep_loop now m)"

definition sweep :: "time_point \<Rightarrow> kv_store \<Rightarrow> kv_store" where
  "sweep now s = s\<lparr>kv_data := sweep_loop now (kv_data s)\<rparr>"

text \<open>
  The thread's loop over what it observes: whether a stop is requested at the head of the loop and
  the clock after the sleep of 100 ms.
\<close>

fun run_expiry :: "(bool \<times> time_point) list \<Rightarrow> kv_store \<Rightarrow> kv_store" where
  "run_expiry [] s = s"
| "run_expiry ((stop_requested, now) # obs) s =
     (if stop_requested then s else run_expiry obs (sweep now s))"

section \<open>Invariant and abstraction\<close>

text \<open>The containers inside a value keep their own invariants.\<close>

fun value_ok :: "Value \<Rightarrow> bool" where
  "value_ok (SetValue s) = us_ok s"
| "value_ok (HashValue h) = um_ok h"
| "value_ok _ = True"

definition kv_ok :: "kv_store \<Rightarrow> bool" where
  "kv_ok s \<longleftrightarrow> um_ok (kv_data s) \<and> (\<forall>(k, e)\<in>set (kv_data s). value_ok (entry_value e))"

text \<open>
  The abstraction: at time \<open>now\<close> a client sees the entries that are not expired. Time only takes
  entries away: \<open>age\<close> is what a later clock does to a view.
\<close>

type_synonym view = "string \<rightharpoonup> entry"

definition age :: "time_point \<Rightarrow> view \<Rightarrow> view" where
  "age now m = (\<lambda>k. case m k of None \<Rightarrow> None | Some e \<Rightarrow> if is_expired now e then None else Some e)"

definition live :: "time_point \<Rightarrow> kv_store \<Rightarrow> view" where
  "live now s = age now (um_find (kv_data s))"

section \<open>Views\<close>

lemma is_expired_mono: "is_expired now e \<Longrightarrow> now \<le> T \<Longrightarrow> is_expired T e"
  by (auto simp: is_expired_def split: option.splits)

lemma age_age: "now \<le> T \<Longrightarrow> age T (age now m) = age T m"
  by (auto simp: age_def fun_eq_iff dest: is_expired_mono split: option.splits)

lemma age_idem [simp]: "age now (age now m) = age now m"
  by (simp add: age_age)

lemma age_upd [simp]: "age T (m(k := None)) = (age T m)(k := None)"
  by (auto simp: age_def fun_eq_iff)

lemma age_upd_Some:
  "age T (m(k \<mapsto> e)) = (age T m)(k := (if is_expired T e then None else Some e))"
  by (auto simp: age_def fun_eq_iff)

lemma age_upd_age: "age T ((age T m)(k \<mapsto> e)) = age T (m(k \<mapsto> e))"
  by (simp add: age_upd_Some)

lemma age_Some: "age now m k = Some e \<longleftrightarrow> m k = Some e \<and> \<not> is_expired now e"
  by (auto simp: age_def split: option.splits)

lemma live_mono: "now \<le> T \<Longrightarrow> live T s = age T (live now s)"
  by (simp add: live_def age_age)

lemma map_of_sweep_loop: "um_ok m \<Longrightarrow> map_of (sweep_loop now m) = age now (map_of m)"
proof (induction now m rule: sweep_loop.induct)
  case (1 now)
  then show ?case by (simp add: age_def)
next
  case (2 now k e m)
  then have "um_ok m" and "map_of m k = None"
    by (simp_all add: um_ok_def map_of_eq_None_iff)
  with 2 show ?case
    by (auto simp: age_def is_expired_def fun_eq_iff split: option.splits)
qed

lemma set_sweep_loop: "set (sweep_loop now m) = {(k, e) \<in> set m. \<not> is_expired now e}"
  by (induction now m rule: sweep_loop.induct) (auto simp: is_expired_def split: option.splits)

lemma um_ok_sweep_loop: "um_ok m \<Longrightarrow> um_ok (sweep_loop now m)"
  by (induction now m rule: sweep_loop.induct) (force simp: um_ok_def set_sweep_loop)+

section \<open>Invariant\<close>

lemma kv_ok_update:
  "kv_ok s \<Longrightarrow> value_ok (entry_value e) \<Longrightarrow> kv_ok (s\<lparr>kv_data := AList.update k e (kv_data s)\<rparr>)"
  using set_update_subset [of k e "kv_data s"] by (auto simp: kv_ok_def um.invar_assign)

lemma kv_ok_delete: "kv_ok s \<Longrightarrow> kv_ok (s\<lparr>kv_data := AList.delete k (kv_data s)\<rparr>)"
  using set_delete_subset [of k "kv_data s"] by (auto simp: kv_ok_def um.invar_erase)

lemma kv_ok_find: "kv_ok s \<Longrightarrow> um_find (kv_data s) k = Some e \<Longrightarrow> value_ok (entry_value e)"
  by (auto simp: kv_ok_def dest!: map_of_SomeD)

lemma kv_ok_live: "kv_ok s \<Longrightarrow> live now s k = Some e \<Longrightarrow> value_ok (entry_value e)"
  by (auto simp: live_def age_Some dest: kv_ok_find)

lemma kv_ok_empty [simp]: "kv_ok kv_empty"
  by (simp add: kv_ok_def kv_empty_def um_ok_def)

section \<open>The contract of the store\<close>

text \<open>
  What the store promises its clients, stated over the view alone: reads see the view at the time
  they are made, writes update it, a sweep does not change what is visible from its time on. The
  consequences the command handlers need are proved from these laws.
\<close>

locale expiring_store =
  fixes inv :: "'s \<Rightarrow> bool"
    and view :: "time_point \<Rightarrow> 's \<Rightarrow> view"
    and set_op :: "time_point \<Rightarrow> string \<Rightarrow> Value \<Rightarrow> int \<Rightarrow> 's \<Rightarrow> 's"
    and get_op :: "time_point \<Rightarrow> string \<Rightarrow> 's \<Rightarrow> Value option"
    and del_op :: "time_point \<Rightarrow> string \<Rightarrow> 's \<Rightarrow> int \<times> 's"
    and exists_op :: "time_point \<Rightarrow> string \<Rightarrow> 's \<Rightarrow> bool"
    and expire_op :: "time_point \<Rightarrow> time_point \<Rightarrow> string \<Rightarrow> int \<Rightarrow> 's \<Rightarrow> bool \<times> 's"
    and ttl_op :: "time_point \<Rightarrow> time_point \<Rightarrow> string \<Rightarrow> 's \<Rightarrow> int"
    and persist_op :: "time_point \<Rightarrow> string \<Rightarrow> 's \<Rightarrow> bool \<times> 's"
    and sweep_op :: "time_point \<Rightarrow> 's \<Rightarrow> 's"
  assumes view_mono: "now \<le> T \<Longrightarrow> view T s = age T (view now s)"
    and inv_value: "inv s \<Longrightarrow> view now s k = Some e \<Longrightarrow> value_ok (entry_value e)"
    and get_law: "get_op now k s = map_option entry_value (view now s k)"
    and exists_law: "exists_op now k s \<longleftrightarrow> view now s k \<noteq> None"
    and ttl_law: "ttl_op now now' k s =
      (case view now s k of
         None \<Rightarrow> - 2
       | Some e \<Rightarrow> (case expires_at e of
                     None \<Rightarrow> - 1
                   | Some t \<Rightarrow> max 0 (wrap64 (t - now') sdiv 1000000)))"
    and set_law: "view T (set_op now k v ttl s) =
      age T ((view T s)(k \<mapsto> \<lparr>entry_value = v,
        expires_at = if ttl > 0 then Some (deadline now ttl) else None\<rparr>))"
    and del_count: "fst (del_op now k s) = (if view now s k = None then 0 else 1)"
    and del_law: "view T (snd (del_op now k s)) = (view T s)(k := None)"
    and expire_law: "fst (expire_op now now' k ttl s) \<longleftrightarrow> view now s k \<noteq> None"
    and expire_view: "view T (snd (expire_op now now' k ttl s)) =
      (case view now s k of
         None \<Rightarrow> view T s
       | Some e \<Rightarrow> age T ((view T s)(k \<mapsto> e\<lparr>expires_at := Some (deadline now' ttl)\<rparr>)))"
    and persist_law: "fst (persist_op now k s) \<longleftrightarrow> view now s k \<noteq> None"
    and persist_view: "view T (snd (persist_op now k s)) =
      (case view now s k of
         None \<Rightarrow> view T s
       | Some e \<Rightarrow> (view T s)(k \<mapsto> e\<lparr>expires_at := None\<rparr>))"
    and sweep_view: "inv s \<Longrightarrow> now \<le> T \<Longrightarrow> view T (sweep_op now s) = view T s"
    and inv_set: "inv s \<Longrightarrow> value_ok v \<Longrightarrow> inv (set_op now k v ttl s)"
    and inv_del: "inv s \<Longrightarrow> inv (snd (del_op now k s))"
    and inv_expire: "inv s \<Longrightarrow> inv (snd (expire_op now now' k ttl s))"
    and inv_persist: "inv s \<Longrightarrow> inv (snd (persist_op now k s))"
    and inv_sweep: "inv s \<Longrightarrow> inv (sweep_op now s)"
begin

lemma get_set_other: "k \<noteq> k' \<Longrightarrow> get_op now k (set_op now' k' v ttl s) = get_op now k s"
  by (simp add: get_law set_law age_upd_Some view_mono [symmetric])

lemma get_set_forever: "ttl \<le> 0 \<Longrightarrow> get_op now k (set_op now' k v ttl s) = Some v"
  by (simp add: get_law set_law age_upd_Some is_expired_def)

lemma get_set_until:
  "0 < ttl \<Longrightarrow> get_op now k (set_op now' k v ttl s) = (if now < deadline now' ttl then Some v else None)"
  by (simp add: get_law set_law age_upd_Some is_expired_def)

lemma get_del: "get_op now k (snd (del_op now' k' s)) = (if k = k' then None else get_op now k s)"
  by (simp add: get_law del_law)

text \<open>
  Two states that look the same now look the same later, and every operation keeps them alike: an
  operation depends on the view only.
\<close>

lemma alike_later: "view now s = view now s' \<Longrightarrow> now \<le> T \<Longrightarrow> view T s = view T s'"
  by (simp add: view_mono [of now T])

lemma alike_results:
  assumes "view now s = view now s'"
  shows "get_op now k s = get_op now k s'" "exists_op now k s = exists_op now k s'"
    "ttl_op now now' k s = ttl_op now now' k s'" "fst (del_op now k s) = fst (del_op now k s')"
    "fst (expire_op now now' k ttl s) = fst (expire_op now now' k ttl s')"
    "fst (persist_op now k s) = fst (persist_op now k s')"
  using assms by (simp_all add: get_law exists_law ttl_law del_count expire_law persist_law)

lemma alike_states:
  assumes "view now s = view now s'" and "now \<le> T"
  shows "view T (set_op now k v ttl s) = view T (set_op now k v ttl s')"
    "view T (snd (del_op now k s)) = view T (snd (del_op now k s'))"
    "view T (snd (expire_op now now' k ttl s)) = view T (snd (expire_op now now' k ttl s'))"
    "view T (snd (persist_op now k s)) = view T (snd (persist_op now k s'))"
  using assms(1) alike_later [OF assms]
  by (simp_all add: set_law del_law expire_view persist_view split: option.split)

end

interpretation kv: expiring_store kv_ok live kv_set kv_get kv_del kv_exists kv_expire kv_ttl
  kv_persist sweep
proof (unfold_locales, goal_cases)
  case (1 now T s)
  then show ?case by (rule live_mono)
next
  case (2 s now k e)
  then show ?case by (rule kv_ok_live)
next
  case (6 T now k v ttl s)
  show ?case
    by (simp add: kv_set_def um_insert_or_assign_def Let_def live_def age_upd_age)
next
  case (10 T now now' k ttl s)
  show ?case
    by (auto simp: kv_expire_def live_def age_def fun_eq_iff split: option.splits)
next
  case (12 T now k s)
  show ?case
    by (auto simp: kv_persist_def live_def age_def is_expired_def [of _ "_\<lparr>expires_at := _\<rparr>"]
          fun_eq_iff split: option.splits)
next
  case (13 s now T)
  then show ?case
    by (simp add: sweep_def live_def kv_ok_def map_of_sweep_loop age_age)
next
  case (14 s v now k ttl)
  then show ?case
    by (simp add: kv_set_def um_insert_or_assign_def Let_def kv_ok_update)
next
  case (18 s now)
  then show ?case
    by (auto simp: sweep_def kv_ok_def um_ok_sweep_loop set_sweep_loop)
qed (auto simp: kv_get_def kv_del_def kv_exists_def kv_expire_def kv_ttl_def kv_persist_def
      live_def age_def kv_ok_delete intro!: kv_ok_update dest: kv_ok_find split: option.splits)

section \<open>Properties\<close>

text \<open>
  The abstract store is a map from keys to entries that nothing ever sweeps: an entry is visible
  until its deadline. \<open>kv_call\<close> names the calls of the class, each with the clock readings it makes,
  \<open>kv_step\<close> runs one on the store and \<open>spec_step\<close> on the abstract store.
\<close>

datatype kv_call =
    Set string Value int
  | Get string
  | Del string
  | Exists string
  | Expire string int
  | Ttl string
  | Persist string
  | Sweep

datatype kv_result = Done | Found "Value option" | Count int | Flag bool

fun kv_step :: "kv_call \<Rightarrow> time_point \<Rightarrow> time_point \<Rightarrow> kv_store \<Rightarrow> kv_result \<times> kv_store" where
  "kv_step (Set k v ttl) now now' s = (Done, kv_set now k v ttl s)"
| "kv_step (Get k) now now' s = (Found (kv_get now k s), s)"
| "kv_step (Del k) now now' s = apfst Count (kv_del now k s)"
| "kv_step (Exists k) now now' s = (Flag (kv_exists now k s), s)"
| "kv_step (Expire k ttl) now now' s = apfst Flag (kv_expire now now' k ttl s)"
| "kv_step (Ttl k) now now' s = (Count (kv_ttl now now' k s), s)"
| "kv_step (Persist k) now now' s = apfst Flag (kv_persist now k s)"
| "kv_step Sweep now now' s = (Done, sweep now s)"

fun spec_step :: "kv_call \<Rightarrow> time_point \<Rightarrow> time_point \<Rightarrow> view \<Rightarrow> kv_result \<times> view" where
  "spec_step (Set k v ttl) now now' m =
     (Done, m(k \<mapsto> \<lparr>entry_value = v, expires_at = if ttl > 0 then Some (deadline now ttl) else None\<rparr>))"
| "spec_step (Get k) now now' m = (Found (map_option entry_value (age now m k)), m)"
| "spec_step (Del k) now now' m = (Count (if age now m k = None then 0 else 1), m(k := None))"
| "spec_step (Exists k) now now' m = (Flag (age now m k \<noteq> None), m)"
| "spec_step (Expire k ttl) now now' m =
     (case age now m k of
        None \<Rightarrow> (Flag False, m)
      | Some e \<Rightarrow> (Flag True, m(k \<mapsto> e\<lparr>expires_at := Some (deadline now' ttl)\<rparr>)))"
| "spec_step (Ttl k) now now' m =
     (Count (case age now m k of
        None \<Rightarrow> - 2
      | Some e \<Rightarrow> (case expires_at e of
                    None \<Rightarrow> - 1
                  | Some t \<Rightarrow> max 0 (wrap64 (t - now') sdiv 1000000))), m)"
| "spec_step (Persist k) now now' m =
     (case age now m k of
        None \<Rightarrow> (Flag False, m)
      | Some e \<Rightarrow> (Flag True, m(k \<mapsto> e\<lparr>expires_at := None\<rparr>)))"
| "spec_step Sweep now now' m = (Done, m)"

fun kv_run :: "(kv_call \<times> time_point \<times> time_point) list \<Rightarrow> kv_store \<Rightarrow> kv_result list" where
  "kv_run [] s = []"
| "kv_run ((c, now, now') # cs) s = (case kv_step c now now' s of (r, s') \<Rightarrow> r # kv_run cs s')"

fun spec_run :: "(kv_call \<times> time_point \<times> time_point) list \<Rightarrow> view \<Rightarrow> kv_result list" where
  "spec_run [] m = []"
| "spec_run ((c, now, now') # cs) m = (case spec_step c now now' m of (r, m') \<Rightarrow> r # spec_run cs m')"

fun call_ok :: "kv_call \<Rightarrow> bool" where
  "call_ok (Set k v ttl) = value_ok v"
| "call_ok _ = True"

lemma kv_step_simulates:
  assumes "kv_ok s" and "live now s = age now m" and "call_ok c"
  shows "fst (kv_step c now now' s) = fst (spec_step c now now' m)"
    and "kv_ok (snd (kv_step c now now' s))"
    and "now \<le> T \<Longrightarrow> live T (snd (kv_step c now now' s)) = age T (snd (spec_step c now now' m))"
proof -
  show "fst (kv_step c now now' s) = fst (spec_step c now now' m)"
    using assms(2)
    by (cases c) (simp_all add: kv.get_law kv.exists_law kv.ttl_law kv.del_count kv.expire_law
        kv.persist_law split: option.split)
  show "kv_ok (snd (kv_step c now now' s))"
    using assms(1,3)
    by (cases c) (simp_all add: kv.inv_set kv.inv_del kv.inv_expire kv.inv_persist kv.inv_sweep)
  assume T: "now \<le> T"
  with assms(2) have later: "live T s = age T m"
    by (simp add: live_mono [OF T] age_age)
  show "live T (snd (kv_step c now now' s)) = age T (snd (spec_step c now now' m))"
    using assms(1,2) T later
    by (cases c) (simp_all add: kv.set_law kv.del_law kv.expire_view kv.persist_view kv.sweep_view
        age_upd_age age_upd_Some is_expired_def [of _ "_\<lparr>expires_at := None\<rparr>"] split: option.split)
qed

lemma kv_run_simulates:
  assumes "kv_ok s" and "\<And>now. now \<in> (\<lambda>(c, now, now'). now) ` set cs \<Longrightarrow> live now s = age now m"
    and "sorted (map (\<lambda>(c, now, now'). now) cs)" and "\<forall>(c, t)\<in>set cs. call_ok c"
  shows "kv_run cs s = spec_run cs m"
  using assms
proof (induction cs arbitrary: s m)
  case Nil
  then show ?case by simp
next
  case (Cons call cs)
  obtain c now now' where call: "call = (c, now, now')" by (cases call)
  with Cons.prems have "live now s = age now m" and "call_ok c"
    and later: "T \<in> (\<lambda>(c, now, now'). now) ` set cs \<Longrightarrow> now \<le> T" for T
    by auto
  note step = kv_step_simulates [OF Cons.prems(1) this(1,2)]
  have "kv_run cs (snd (kv_step c now now' s)) = spec_run cs (snd (spec_step c now now' m))"
  proof (rule Cons.IH [OF step(2)])
    show "T \<in> (\<lambda>(c, now, now'). now) ` set cs \<Longrightarrow>
        live T (snd (kv_step c now now' s)) = age T (snd (spec_step c now now' m))" for T
      by (rule step(3) [OF later])
  qed (use Cons.prems(3,4) in auto)
  with step(1) show ?case
    by (simp add: call split_def)
qed

text \<open>
  C7: The store implements its specification. Whatever sequence of calls is made at times that do not
  go back, with sweeps of the expiry thread anywhere in between, every call returns what it
  returns on the abstract store, where no entry is ever erased by a sweep.
\<close>

theorem kv_run_refines:
  assumes "kv_ok s" and "sorted (map (\<lambda>(c, now, now'). now) cs)" and "\<forall>(c, t)\<in>set cs. call_ok c"
  shows "kv_run cs s = spec_run cs (um_find (kv_data s))"
  using kv_run_simulates [OF assms(1) _ assms(2,3)] by (simp add: live_def)

theorem kv_run_refines_witness:
  "kv_run [(Set ''k'' (StringValue ''v'') 5, 10, 10), (Get ''k'', 20, 20), (Sweep, 5000010, 5000010),
           (Ttl ''k'', 5000010, 5000010)] kv_empty =
     [Done, Found (Some (StringValue ''v'')), Done, Count (- 2)]"
proof -
  have "kv_run [(Set ''k'' (StringValue ''v'') 5, 10, 10), (Get ''k'', 20, 20), (Sweep, 5000010, 5000010),
      (Ttl ''k'', 5000010, 5000010)] kv_empty =
    spec_run [(Set ''k'' (StringValue ''v'') 5, 10, 10), (Get ''k'', 20, 20), (Sweep, 5000010, 5000010),
      (Ttl ''k'', 5000010, 5000010)] (um_find (kv_data kv_empty))"
    by (rule kv_run_refines) simp_all
  also have "\<dots> = [Done, Found (Some (StringValue ''v'')), Done, Count (- 2)]"
    by (simp add: age_def is_expired_def deadline_def int64_defs)
  finally show ?thesis .
qed

text \<open>
  A round of the expiry thread erases the expired entries and nothing else: afterwards the map
  holds exactly what is visible at that time, and its size is the number of visible keys.
\<close>

lemma sweep_exact:
  "kv_ok s \<Longrightarrow> um_find (kv_data (sweep now s)) = live now s \<and> kv_size (sweep now s) = card (dom (live now s))"
  using um.size_card [of "kv_data (sweep now s)"]
  by (simp add: sweep_def kv_size_def live_def kv_ok_def map_of_sweep_loop um_ok_sweep_loop)

text \<open>
  The expiry thread is invisible. Whatever it observes while it runs, as long as no reading of
  its clock is later than \<open>T\<close>, what clients can see from \<open>T\<close> on is unchanged and the store stays well formed.
\<close>

lemma run_expiry_invisible:
  "kv_ok s \<Longrightarrow> \<forall>(stop, now)\<in>set obs. now \<le> T \<Longrightarrow>
     live T (run_expiry obs s) = live T s \<and> kv_ok (run_expiry obs s)"
  by (induction obs s rule: run_expiry.induct) (auto simp: kv.sweep_view kv.inv_sweep)

end
