(* ===== verification/Commands.thy ===== *)
theory Commands
  imports Resp_Types Kv_Store
begin

text \<open>
  \<^verbatim>\<open>commands/command.hpp\<close>: the command a client sends, and the contract every command handler
  on the store meets. A handler is a function of the command, the readings of the clock its store
  calls make and the store; \<open>clk i\<close> is what \<^verbatim>\<open>Clock::now()\<close> returns at the handler's
  \<open>i\<close>-th place that may read it. It returns a reply or throws.
\<close>

section \<open>Definitions\<close>

record command =
  cmd_name :: string
  cmd_args :: "string list"

text \<open>The argument loop of \<^verbatim>\<open>parse_command\<close>: every element has to be a bulk string.\<close>

fun collect_args :: "resp_value list \<Rightarrow> string list option" where
  "collect_args [] = Some []"
| "collect_args (RespBulkString b # es) = map_option ((#) b) (collect_args es)"
| "collect_args (_ # es) = None"

definition parse_command :: "resp_value \<Rightarrow> command option" where
  "parse_command val =
     (case val of
        RespArray elems \<Rightarrow>
          (case elems of
             [] \<Rightarrow> None
           | RespBulkString n # es \<Rightarrow>
               (case collect_args es of
                  None \<Rightarrow> None
                | Some as \<Rightarrow> Some \<lparr>cmd_name = upper n, cmd_args = as\<rparr>)
           | _ # es \<Rightarrow> None)
      | _ \<Rightarrow> None)"

type_synonym clock = "nat \<Rightarrow> time_point"
type_synonym reply = "cpp_exn + resp_value"
type_synonym store_handler = "command \<Rightarrow> clock \<Rightarrow> kv_store \<Rightarrow> reply \<times> kv_store"

text \<open>The helpers every handler file defines for itself.\<close>

definition err :: "string \<Rightarrow> resp_value" where
  "err msg = RespError msg"

definition wrong_args :: "string \<Rightarrow> resp_value" where
  "wrong_args n =
     RespError (''ERR wrong number of arguments for '' @ [CHR 0x27] @ n @ [CHR 0x27] @ '' command'')"

definition kWrongType :: resp_value where
  "kWrongType = RespError ''WRONGTYPE Operation against a key holding the wrong kind of value''"

text \<open>
  No handler leaves an empty list, set or hash behind a key: \<open>value_tidy\<close> and \<open>kv_tidy\<close>.
\<close>

fun value_tidy :: "Value \<Rightarrow> bool" where
  "value_tidy (StringValue _) = True"
| "value_tidy (ListValue l) = (l \<noteq> [])"
| "value_tidy (SetValue s) = (s \<noteq> [])"
| "value_tidy (HashValue h) = (h \<noteq> [])"

definition kv_tidy :: "kv_store \<Rightarrow> bool" where
  "kv_tidy s \<longleftrightarrow> (\<forall>(k, e)\<in>set (kv_data s). value_tidy (entry_value e))"

section \<open>Parsing commands\<close>

lemma collect_args_bulk [simp]: "collect_args (map RespBulkString as) = Some as"
  by (induction as) simp_all

lemma collect_args_Some: "collect_args es = Some as \<Longrightarrow> es = map RespBulkString as"
  by (induction es arbitrary: as rule: collect_args.induct) auto

lemma parse_command_Some:
  "parse_command v = Some c \<longleftrightarrow>
     (\<exists>n as. v = RespArray (RespBulkString n # map RespBulkString as)
             \<and> c = \<lparr>cmd_name = upper n, cmd_args = as\<rparr>)"
  by (auto simp: parse_command_def dest: collect_args_Some
        split: resp_value.splits list.splits option.splits)

section \<open>The contract of a handler\<close>

lemma kv_tidy_empty [simp]: "kv_tidy kv_empty"
  by (simp add: kv_tidy_def kv_empty_def)

lemma kv_tidy_set: "kv_tidy s \<Longrightarrow> value_tidy v \<Longrightarrow> kv_tidy (kv_set now k v ttl s)"
  using set_update_subset [of k _ "kv_data s"]
  by (fastforce simp: kv_tidy_def kv_set_def um_insert_or_assign_def Let_def)

lemma kv_tidy_del: "kv_tidy s \<Longrightarrow> kv_tidy (snd (kv_del now k s))"
  using set_delete_subset [of k "kv_data s"]
  by (auto simp: kv_tidy_def kv_del_def Let_def split: option.split)

lemma kv_tidy_retime:
  "kv_tidy s \<Longrightarrow> kv_tidy (snd (kv_expire now now' k ttl s))"
  "kv_tidy s \<Longrightarrow> kv_tidy (snd (kv_persist now k s))"
  using set_update_subset [of k _ "kv_data s"]
  by (fastforce simp: kv_tidy_def kv_expire_def kv_persist_def dest: map_of_SomeD split: option.split)+

lemma kv_tidy_sweep: "kv_tidy s \<Longrightarrow> kv_tidy (sweep now s)"
  by (auto simp: kv_tidy_def sweep_def set_sweep_loop)

lemma kv_get_ok: "kv_ok s \<Longrightarrow> kv_get now k s = Some v \<Longrightarrow> value_ok v"
  by (auto simp: kv.get_law dest: kv.inv_value)

lemma kv_get_tidy: "kv_tidy s \<Longrightarrow> kv_get now k s = Some v \<Longrightarrow> value_tidy v"
  by (auto simp: kv_get_def kv_tidy_def dest!: map_of_SomeD split: option.splits if_splits)

text \<open>
  What the dispatcher relies on: a handler keeps the store well formed and tidy, and its reply and
  what can be seen afterwards depend only on what can be seen when it starts. So it cannot matter
  whether the expiry thread has already erased an expired entry or not.
\<close>

locale sound_handler =
  fixes h :: store_handler
  assumes keeps_ok: "kv_ok s \<Longrightarrow> kv_ok (snd (h c clk s))"
    and keeps_tidy: "kv_ok s \<Longrightarrow> kv_tidy s \<Longrightarrow> kv_tidy (snd (h c clk s))"
    and reply_alike: "mono clk \<Longrightarrow> live (clk 0) s = live (clk 0) s' \<Longrightarrow>
      fst (h c clk s) = fst (h c clk s')"
    and view_alike: "mono clk \<Longrightarrow> live (clk 0) s = live (clk 0) s' \<Longrightarrow> (\<And>i. clk i \<le> T) \<Longrightarrow>
      live T (snd (h c clk s)) = live T (snd (h c clk s'))"
begin

lemma sweep_before:
  assumes "kv_ok s" and "mono clk" and "t \<le> clk 0"
  shows "fst (h c clk (sweep t s)) = fst (h c clk s)"
    and "(\<And>i. clk i \<le> T) \<Longrightarrow> live T (snd (h c clk (sweep t s))) = live T (snd (h c clk s))"
  using assms by (auto intro!: reply_alike view_alike simp: kv.sweep_view)

end

text \<open>A handler that never changes the store.\<close>

locale reading_handler = sound_handler +
  assumes pure: "snd (h c clk s) = s"

text \<open>
  A monotone clock turns the initial agreement into agreement at every reading, which is the form
  the individual handlers are proved in.
\<close>

lemma live_at:
  fixes clk :: clock
  assumes "mono clk" and "live (clk 0) s = live (clk 0) s'"
  shows "live (clk i) s = live (clk i) s'"
  using assms(2) monoD [OF assms(1), of 0 i] by (rule kv.alike_later) simp

lemma sound_handlerI:
  fixes h :: store_handler
  assumes "\<And>c clk s. kv_ok s \<Longrightarrow> kv_ok (snd (h c clk s))"
    and "\<And>c clk s. kv_ok s \<Longrightarrow> kv_tidy s \<Longrightarrow> kv_tidy (snd (h c clk s))"
    and "\<And>c clk s s'. (\<And>i. live (clk i) s = live (clk i) s') \<Longrightarrow> fst (h c clk s) = fst (h c clk s')"
    and "\<And>c clk s s' T. (\<And>i. live (clk i) s = live (clk i) s') \<Longrightarrow> live T s = live T s' \<Longrightarrow>
      live T (snd (h c clk s)) = live T (snd (h c clk s'))"
  shows "sound_handler h"
proof (unfold_locales, goal_cases)
  case (3 clk s s' c)
  show ?case by (rule assms(3)) (rule live_at [OF 3])
next
  case (4 clk s s' T c)
  show ?case
    by (rule assms(4)) (rule live_at [OF 4(1,2)], rule kv.alike_later [OF 4(2) 4(3)])
qed (rule assms(1), assumption, rule assms(2))

lemma reading_handlerI:
  fixes h :: store_handler
  assumes "\<And>c clk s. snd (h c clk s) = s"
    and "\<And>c clk s s'. (\<And>i. live (clk i) s = live (clk i) s') \<Longrightarrow> fst (h c clk s) = fst (h c clk s')"
  shows "reading_handler h"
proof -
  have "sound_handler h"
    by (rule sound_handlerI) (simp_all only: assms(1), rule assms(2))
  then show ?thesis
    by (intro reading_handler.intro reading_handler_axioms.intro assms(1))
qed

text \<open>The rules that discharge the contract of a handler built from single store calls.\<close>

declare kv.get_law [sound_simps] kv.exists_law [sound_simps] kv.set_law [sound_simps] kv.del_law [sound_simps]
  kv.inv_set [sound_simps] kv.inv_del [sound_simps] kv_tidy_set [sound_simps] kv_tidy_del [sound_simps]

end
