(* ===== verification/Server_Stats.thy ===== *)
theory Server_Stats
  imports Vortek_Prelude "HOL-Library.Signed_Division"
begin

text \<open>
  \<^verbatim>\<open>server/server_stats.hpp\<close>: the counters shared by the server, its connections and the
  \<^verbatim>\<open>INFO\<close>, \<^verbatim>\<open>READY\<close> and \<^verbatim>\<open>METRICS\<close> handlers. The atomics are plain fields: every access is
  made from the single thread that runs the event loop.
\<close>

record server_stats =
  start_time :: int
  connected_clients :: int
  total_commands :: int
  ready :: bool
  stats_port :: "16 word"
  stats_aof_enabled :: bool

definition initial_stats :: "int \<Rightarrow> server_stats" where
  "initial_stats now =
     \<lparr>start_time = now, connected_clients = 0, total_commands = 0, ready = False,
      stats_port = 6379, stats_aof_enabled = False\<rparr>"

text \<open>\<^verbatim>\<open>duration_cast<seconds>\<close> of the nanoseconds since the start.\<close>

definition uptime_seconds :: "int \<Rightarrow> server_stats \<Rightarrow> int" where
  "uptime_seconds now st = wrap64 (now - start_time st) sdiv 1000000000"

end
