(* ===== verification/Generic_Cmds.thy ===== *)
theory Generic_Cmds
  imports Commands Server_Stats
begin

text \<open>
  \<^verbatim>\<open>commands/handlers/generic_cmds.cpp\<close>: \<^verbatim>\<open>PING\<close>, \<^verbatim>\<open>DEL\<close>, \<^verbatim>\<open>EXISTS\<close>, \<^verbatim>\<open>EXPIRE\<close>, \<^verbatim>\<open>TTL\<close>,
  \<^verbatim>\<open>PERSIST\<close> and the observability commands \<^verbatim>\<open>HEALTH\<close>, \<^verbatim>\<open>READY\<close>, \<^verbatim>\<open>METRICS\<close> and
  \<^verbatim>\<open>INFO\<close>. \<^verbatim>\<open>METRICS\<close> prints a quotient of two \<^verbatim>\<open>double\<close>s with \<^verbatim>\<open>std::to_string\<close>; that
  text is the parameter \<open>double_div\<close>.
\<close>

section \<open>Definitions\<close>

definition cmd_ping :: store_handler where
  "cmd_ping c clk s =
     (if cmd_args c = [] then (Inr (RespSimpleString ''PONG''), s)
      else if length (cmd_args c) = 1 then (Inr (RespBulkString (cmd_args c ! 0)), s)
      else (Inr (wrong_args (cmd_name c)), s))"

fun del_loop :: "clock \<Rightarrow> nat \<Rightarrow> string list \<Rightarrow> int \<Rightarrow> kv_store \<Rightarrow> int \<times> kv_store" where
  "del_loop clk i [] count s = (count, s)"
| "del_loop clk i (key # keys) count s =
     (case kv_del (clk i) key s of (n, s') \<Rightarrow> del_loop clk (Suc i) keys (count + n) s')"

definition cmd_del :: store_handler where
  "cmd_del c clk s =
     (if cmd_args c = [] then (Inr (wrong_args (cmd_name c)), s)
      else case del_loop clk 0 (cmd_args c) 0 s of (count, s') \<Rightarrow> (Inr (RespInteger count), s'))"

fun exists_loop :: "clock \<Rightarrow> nat \<Rightarrow> string list \<Rightarrow> int \<Rightarrow> kv_store \<Rightarrow> int" where
  "exists_loop clk i [] count s = count"
| "exists_loop clk i (key # keys) count s =
     exists_loop clk (Suc i) keys (if kv_exists (clk i) key s then count + 1 else count) s"

definition cmd_exists :: store_handler where
  "cmd_exists c clk s =
     (if cmd_args c = [] then (Inr (wrong_args (cmd_name c)), s)
      else (Inr (RespInteger (exists_loop clk 0 (cmd_args c) 0 s)), s))"

definition cmd_expire :: store_handler where
  "cmd_expire c clk s =
     (if length (cmd_args c) \<noteq> 2 then (Inr (wrong_args (cmd_name c)), s)
      else case parse_i64 (cmd_args c ! 1) of
        None \<Rightarrow> (Inr (err ''ERR value is not an integer or out of range''), s)
      | Some secs \<Rightarrow>
          if secs < 0 then (Inr (err ''ERR value is not an integer or out of range''), s)
          else (case kv_expire (clk 0) (clk 1) (cmd_args c ! 0) (seconds secs) s of
                  (b, s') \<Rightarrow> (Inr (RespInteger (if b then 1 else 0)), s')))"

definition cmd_ttl :: store_handler where
  "cmd_ttl c clk s =
     (if length (cmd_args c) \<noteq> 1 then (Inr (wrong_args (cmd_name c)), s)
      else let ms = kv_ttl (clk 0) (clk 1) (cmd_args c ! 0) s in
        if ms < 0 then (Inr (RespInteger ms), s)
        else (Inr (RespInteger (wrap64 (ms + 999) sdiv 1000)), s))"

definition cmd_persist :: store_handler where
  "cmd_persist c clk s =
     (if length (cmd_args c) \<noteq> 1 then (Inr (wrong_args (cmd_name c)), s)
      else case kv_persist (clk 0) (cmd_args c ! 0) s of
        (b, s') \<Rightarrow> (Inr (RespInteger (if b then 1 else 0)), s'))"

definition cmd_health :: store_handler where
  "cmd_health c clk s =
     (if cmd_args c \<noteq> [] then (Inr (wrong_args (cmd_name c)), s)
      else (Inr (RespSimpleString ''OK''), s))"

definition cmd_ready :: "server_stats \<Rightarrow> store_handler" where
  "cmd_ready stats c clk s =
     (if cmd_args c \<noteq> [] then (Inr (wrong_args (cmd_name c)), s)
      else if \<not> ready stats then (Inr (RespError ''ERR server not ready''), s)
      else (Inr (RespSimpleString ''READY''), s))"

text \<open>
  \<^verbatim>\<open>METRICS\<close> asks the store twice, \<^verbatim>\<open>size()\<close> and then \<^verbatim>\<open>approx_memory_bytes()\<close>; the text is a function of
  the two answers, which \<open>Interleaving\<close> also lets come from two different states.
\<close>

definition metrics_body :: "(int \<Rightarrow> int \<Rightarrow> string) \<Rightarrow> server_stats \<Rightarrow> clock \<Rightarrow> nat \<Rightarrow> nat \<Rightarrow> string" where
  "metrics_body double_div stats clk keys bytes =
     (let uptime = max 1 (uptime_seconds (clk 0) stats);
          qps = double_div (total_commands stats) uptime
      in ''vortek_uptime_seconds '' @ to_string (uptime_seconds (clk 1) stats) @ [LF]
         @ ''vortek_connected_clients '' @ to_string (connected_clients stats) @ [LF]
         @ ''vortek_total_commands_processed '' @ to_string (total_commands stats) @ [LF]
         @ ''vortek_commands_per_second '' @ qps @ [LF]
         @ ''vortek_key_count '' @ to_string (int keys) @ [LF]
         @ ''vortek_memory_bytes_approx '' @ to_string (int bytes) @ [LF]
         @ ''vortek_ready '' @ to_string (if ready stats then 1 else 0) @ [LF])"

definition cmd_metrics :: "(int \<Rightarrow> int \<Rightarrow> string) \<Rightarrow> server_stats \<Rightarrow> store_handler" where
  "cmd_metrics double_div stats c clk s =
     (if cmd_args c \<noteq> [] then (Inr (wrong_args (cmd_name c)), s)
      else (Inr (RespBulkString (metrics_body double_div stats clk (kv_size s) (approx_memory_bytes s))), s))"

definition section_server :: "time_point \<Rightarrow> server_stats \<Rightarrow> string" where
  "section_server now stats =
     (let uptime_sec = uptime_seconds now stats;
          uptime_days = uptime_sec sdiv 86400
      in ''# Server'' @ crlf
         @ ''vortek_version:0.1.0'' @ crlf
         @ ''tcp_port:'' @ to_string (uint (stats_port stats)) @ crlf
         @ ''uptime_in_seconds:'' @ to_string uptime_sec @ crlf
         @ ''uptime_in_days:'' @ to_string uptime_days @ crlf
         @ ''aof_enabled:'' @ (if stats_aof_enabled stats then ''1'' else ''0'') @ crlf)"

definition section_clients :: "server_stats \<Rightarrow> string" where
  "section_clients stats =
     ''# Clients'' @ crlf @ ''connected_clients:'' @ to_string (connected_clients stats) @ crlf"

definition section_stats :: "server_stats \<Rightarrow> string" where
  "section_stats stats =
     ''# Stats'' @ crlf @ ''total_commands_processed:'' @ to_string (total_commands stats) @ crlf"

definition section_keyspace :: "kv_store \<Rightarrow> string" where
  "section_keyspace s =
     (let keys = kv_size s in
      if keys = 0 then ''# Keyspace'' @ crlf
      else ''# Keyspace'' @ crlf @ ''db0:keys='' @ to_string (int keys) @ crlf)"

text \<open>
  \<^verbatim>\<open>INFO\<close> appends the requested sections, an empty line between two of them. \<open>add_section\<close> is
  the block each section repeats.
\<close>

definition add_section :: "string \<Rightarrow> string \<Rightarrow> string \<Rightarrow> string \<Rightarrow> string" where
  "add_section wanted this_section text body =
     (if wanted = this_section \<or> wanted = ''all'' \<or> wanted = ''everything''
      then (if body \<noteq> [] then body @ crlf else body) @ text
      else body)"

definition cmd_info :: "server_stats \<Rightarrow> store_handler" where
  "cmd_info stats c clk s =
     (if length (cmd_args c) > 1 then (Inr (RespError ''ERR syntax error''), s)
      else
        let wanted = lower (if cmd_args c = [] then ''all'' else cmd_args c ! 0);
            body1 = add_section wanted ''server'' (section_server (clk 0) stats) [];
            body2 = add_section wanted ''clients'' (section_clients stats) body1;
            body3 = add_section wanted ''stats'' (section_stats stats) body2;
            body = add_section wanted ''keyspace'' (section_keyspace s) body3
        in if body = []
           then (Inr (RespError (''ERR unknown INFO section '' @ [CHR 0x27] @ (cmd_args c ! 0) @ [CHR 0x27])), s)
           else (Inr (RespBulkString body), s))"

section \<open>The handlers meet their contract\<close>

interpretation ping: reading_handler cmd_ping
  by (rule reading_handlerI) (simp_all add: cmd_ping_def)

interpretation health: reading_handler cmd_health
  by (rule reading_handlerI) (simp_all add: cmd_health_def)

interpretation ready: reading_handler "cmd_ready stats" for stats
  by (rule reading_handlerI) (simp_all add: cmd_ready_def)

interpretation ttl: reading_handler cmd_ttl
  by (rule reading_handlerI) (simp_all add: cmd_ttl_def Let_def kv.ttl_law)

lemma exists_loop_alike:
  assumes "\<And>i. live (clk i) s = live (clk i) s'"
  shows "exists_loop clk i keys count s = exists_loop clk i keys count s'"
  by (induction keys arbitrary: i count) (simp_all add: kv.exists_law assms)

interpretation exists: reading_handler cmd_exists
proof (rule reading_handlerI)
  fix c s s' and clk :: clock
  assume "\<And>i. live (clk i) s = live (clk i) s'"
  from exists_loop_alike [OF this] show "fst (cmd_exists c clk s) = fst (cmd_exists c clk s')"
    by (simp add: cmd_exists_def)
qed (simp add: cmd_exists_def)

lemma del_loop_Cons:
  "del_loop clk i (key # keys) count s =
     del_loop clk (Suc i) keys (count + fst (kv_del (clk i) key s)) (snd (kv_del (clk i) key s))"
  by (simp split: prod.split)

lemma del_loop_keeps:
  "kv_ok s \<Longrightarrow> kv_ok (snd (del_loop clk i keys count s))"
  "kv_tidy s \<Longrightarrow> kv_tidy (snd (del_loop clk i keys count s))"
  by (induction keys arbitrary: i count s)
    (simp_all add: del_loop_Cons kv.inv_del kv_tidy_del del: del_loop.simps(2))

lemma del_loop_alike:
  assumes "\<And>i. live (clk i) s = live (clk i) s'"
  shows "fst (del_loop clk i keys count s) = fst (del_loop clk i keys count s')"
    and "live T s = live T s' \<Longrightarrow>
      live T (snd (del_loop clk i keys count s)) = live T (snd (del_loop clk i keys count s'))"
  using assms
  by (induction keys arbitrary: i count s s')
    (simp_all add: del_loop_Cons kv.del_count kv.del_law del: del_loop.simps(2))

interpretation del: sound_handler cmd_del
proof (rule sound_handlerI)
  fix c s s' T and clk :: clock
  assume alike: "\<And>i. live (clk i) s = live (clk i) s'"
  show "fst (cmd_del c clk s) = fst (cmd_del c clk s')"
    using del_loop_alike(1) [OF alike, where i = 0]
    by (simp add: cmd_del_def split_def)
  show "live T s = live T s' \<Longrightarrow> live T (snd (cmd_del c clk s)) = live T (snd (cmd_del c clk s'))"
    using del_loop_alike(2) [OF alike, where i = 0]
    by (simp add: cmd_del_def split_def)
qed (simp_all add: cmd_del_def split_def del_loop_keeps)

interpretation expire: sound_handler cmd_expire
  by (rule sound_handlerI)
    (auto simp: cmd_expire_def split_def kv.inv_expire kv_tidy_retime kv.expire_law kv.expire_view
      split: option.split)

interpretation persist: sound_handler cmd_persist
  by (rule sound_handlerI)
    (auto simp: cmd_persist_def split_def kv.inv_persist kv_tidy_retime kv.persist_law kv.persist_view
      split: option.split)

lemma metrics_pure: "snd (cmd_metrics double_div stats c clk s) = s"
  by (simp add: cmd_metrics_def)

lemma info_pure: "snd (cmd_info stats c clk s) = s"
  by (simp add: cmd_info_def Let_def)

section \<open>The loops\<close>

text \<open>
  What \<^verbatim>\<open>EXISTS\<close> and \<^verbatim>\<open>DEL\<close> count. The \<open>j\<close>-th key is looked up at the \<open>j\<close>-th reading of the
  clock; \<^verbatim>\<open>DEL\<close> counts a key that is named twice at its first occurrence only.
\<close>

lemma exists_loop_count:
  "exists_loop clk i ks n s = n + int (card {j. j < length ks \<and> live (clk (i + j)) s (ks ! j) \<noteq> None})"
  by (induction ks arbitrary: i n) (simp_all add: card_less_Suc_split kv.exists_law)

lemma del_loop_count:
  "fst (del_loop clk i ks n s) =
     n + int (card {j. j < length ks \<and> ks ! j \<notin> set (take j ks) \<and> live (clk (i + j)) s (ks ! j) \<noteq> None})"
proof (induction ks arbitrary: i n s)
  case Nil
  then show ?case by simp
next
  case (Cons k ks)
  let ?s' = "snd (kv_del (clk i) k s)"
  have "{j. j < length ks \<and> ks ! j \<notin> set (take j ks) \<and> live (clk (Suc i + j)) ?s' (ks ! j) \<noteq> None} =
      {j. j < length ks \<and> ks ! j \<notin> set (k # take j ks) \<and> live (clk (Suc i + j)) s (ks ! j) \<noteq> None}"
    by (auto simp: kv.del_law)
  then show ?case
    by (simp add: del_loop_Cons Cons.IH kv.del_count card_less_Suc_split del: del_loop.simps(2))
qed

lemma del_loop_view: "live T (snd (del_loop clk i ks n s)) = live T s |` (- set ks)"
  by (induction ks arbitrary: i n s)
    (auto simp: del_loop_Cons kv.del_law restrict_map_def fun_eq_iff simp del: del_loop.simps(2))

end
