(* ===== verification/String_Cmds.thy ===== *)
theory String_Cmds
  imports Commands
begin

text \<open>
  \<^verbatim>\<open>commands/handlers/string_cmds.cpp\<close>: \<^verbatim>\<open>SET\<close> with its options, \<^verbatim>\<open>GET\<close>, and the counters
  \<^verbatim>\<open>INCR\<close>, \<^verbatim>\<open>DECR\<close>, \<^verbatim>\<open>INCRBY\<close> and \<^verbatim>\<open>DECRBY\<close> over \<^verbatim>\<open>apply_delta\<close>. The lemmas give the
  behaviour of every branch and show that the 64-bit arithmetic never wraps.
\<close>

section \<open>Definitions\<close>

text \<open>
  The option loop of \<^verbatim>\<open>SET\<close>: the arguments that are left, and the expiry and the two flags
  collected so far. \<open>Inl\<close> is the error reply the loop returns.
\<close>

fun parse_set_flags :: "string list \<Rightarrow> int \<Rightarrow> bool \<Rightarrow> bool \<Rightarrow> resp_value + int \<times> bool \<times> bool" where
  "parse_set_flags [] ttl nx xx = Inr (ttl, nx, xx)"
| "parse_set_flags (a # rest) ttl nx xx =
     (let flag = upper a in
      if flag = ''NX'' then parse_set_flags rest ttl True xx
      else if flag = ''XX'' then parse_set_flags rest ttl nx True
      else if flag = ''EX'' then
        (case rest of
           [] \<Rightarrow> Inl (err ''ERR syntax error'')
         | s # rest' \<Rightarrow>
             (case parse_i64 s of
                None \<Rightarrow> Inl (err (''ERR invalid expire time in '' @ [CHR 0x27] @ ''set'' @ [CHR 0x27] @ '' command''))
              | Some secs \<Rightarrow>
                  if secs \<le> 0
                  then Inl (err (''ERR invalid expire time in '' @ [CHR 0x27] @ ''set'' @ [CHR 0x27] @ '' command''))
                  else parse_set_flags rest' (seconds secs) nx xx))
      else if flag = ''PX'' then
        (case rest of
           [] \<Rightarrow> Inl (err ''ERR syntax error'')
         | s # rest' \<Rightarrow>
             (case parse_i64 s of
                None \<Rightarrow> Inl (err (''ERR invalid expire time in '' @ [CHR 0x27] @ ''set'' @ [CHR 0x27] @ '' command''))
              | Some ms \<Rightarrow>
                  if ms \<le> 0
                  then Inl (err (''ERR invalid expire time in '' @ [CHR 0x27] @ ''set'' @ [CHR 0x27] @ '' command''))
                  else parse_set_flags rest' ms nx xx))
      else Inl (err ''ERR syntax error''))"

definition cmd_set :: store_handler where
  "cmd_set c clk s =
     (if length (cmd_args c) < 2 then (Inr (wrong_args (cmd_name c)), s)
      else
        let key = cmd_args c ! 0; val = cmd_args c ! 1 in
        case parse_set_flags (drop 2 (cmd_args c)) 0 False False of
          Inl e \<Rightarrow> (Inr e, s)
        | Inr (ttl, nx, xx) \<Rightarrow>
            if nx \<and> xx
            then (Inr (err ''ERR XX and NX options at the same time are not compatible''), s)
            else
              let exists = kv_exists (clk 0) key s in
              if nx \<and> exists then (Inr RespNull, s)
              else if xx \<and> \<not> exists then (Inr RespNull, s)
              else (Inr (RespSimpleString ''OK''), kv_set (clk 1) key (StringValue val) ttl s))"

definition cmd_get :: store_handler where
  "cmd_get c clk s =
     (if length (cmd_args c) \<noteq> 1 then (Inr (wrong_args (cmd_name c)), s)
      else case kv_get (clk 0) (cmd_args c ! 0) s of
        None \<Rightarrow> (Inr RespNull, s)
      | Some v \<Rightarrow> (case as_string v of
                     Inl ex \<Rightarrow> (Inl ex, s)
                   | Inr str \<Rightarrow> (Inr (RespBulkString str), s)))"

text \<open>
  \<open>apply_delta_num\<close> is the second half of \<^verbatim>\<open>apply_delta\<close>, from the overflow check on.
\<close>

definition apply_delta_num :: "string \<Rightarrow> int \<Rightarrow> clock \<Rightarrow> int \<Rightarrow> kv_store \<Rightarrow> reply \<times> kv_store" where
  "apply_delta_num key delta clk num s =
     (if (delta > 0 \<and> num > wrap64 (int64_max - delta)) \<or> (delta < 0 \<and> num < wrap64 (int64_min - delta))
      then (Inr (RespError ''ERR increment or decrement would overflow''), s)
      else
        let num' = wrap64 (num + delta)
        in (Inr (RespInteger num'), kv_set (clk 1) key (StringValue (to_string num')) 0 s))"

definition apply_delta :: "string \<Rightarrow> int \<Rightarrow> clock \<Rightarrow> kv_store \<Rightarrow> reply \<times> kv_store" where
  "apply_delta key delta clk s =
     (case kv_get (clk 0) key s of
        None \<Rightarrow> apply_delta_num key delta clk 0 s
      | Some v \<Rightarrow>
          (case as_string v of
             Inl ex \<Rightarrow> (Inl ex, s)
           | Inr str \<Rightarrow>
               (case parse_i64 str of
                  None \<Rightarrow> (Inr (RespError ''ERR value is not an integer or out of range''), s)
                | Some num \<Rightarrow> apply_delta_num key delta clk num s)))"

definition cmd_incr :: store_handler where
  "cmd_incr c clk s =
     (if length (cmd_args c) \<noteq> 1 then (Inr (wrong_args (cmd_name c)), s)
      else apply_delta (cmd_args c ! 0) 1 clk s)"

definition cmd_decr :: store_handler where
  "cmd_decr c clk s =
     (if length (cmd_args c) \<noteq> 1 then (Inr (wrong_args (cmd_name c)), s)
      else apply_delta (cmd_args c ! 0) (- 1) clk s)"

definition cmd_incrby :: store_handler where
  "cmd_incrby c clk s =
     (if length (cmd_args c) \<noteq> 2 then (Inr (wrong_args (cmd_name c)), s)
      else case parse_i64 (cmd_args c ! 1) of
        None \<Rightarrow> (Inr (err ''ERR value is not an integer or out of range''), s)
      | Some delta \<Rightarrow> apply_delta (cmd_args c ! 0) delta clk s)"

definition cmd_decrby :: store_handler where
  "cmd_decrby c clk s =
     (if length (cmd_args c) \<noteq> 2 then (Inr (wrong_args (cmd_name c)), s)
      else case parse_i64 (cmd_args c ! 1) of
        None \<Rightarrow> (Inr (err ''ERR value is not an integer or out of range''), s)
      | Some delta \<Rightarrow>
          if delta = int64_min
          then (Inr (err ''ERR increment or decrement would overflow''), s)
          else apply_delta (cmd_args c ! 0) (wrap64 (- delta)) clk s)"

section \<open>The handlers meet their contract\<close>

lemmas counter_defs = apply_delta_num_def apply_delta_def cmd_incr_def cmd_decr_def
  cmd_incrby_def cmd_decrby_def Let_def

interpretation set: sound_handler cmd_set
  by (rule sound_handlerI)
    (auto simp: cmd_set_def Let_def sound_simps split: sum.split prod.split)

interpretation get: reading_handler cmd_get
  by (rule reading_handlerI) (auto simp: cmd_get_def kv.get_law split: option.split sum.split)

interpretation incr: sound_handler cmd_incr
  by (rule sound_handlerI) (auto simp: counter_defs sound_simps split: option.split sum.split)

interpretation decr: sound_handler cmd_decr
  by (rule sound_handlerI) (auto simp: counter_defs sound_simps split: option.split sum.split)

interpretation incrby: sound_handler cmd_incrby
  by (rule sound_handlerI) (auto simp: counter_defs sound_simps split: option.split sum.split)

interpretation decrby: sound_handler cmd_decrby
  by (rule sound_handlerI) (auto simp: counter_defs sound_simps split: option.split sum.split)

section \<open>Properties\<close>

text \<open>
  The number a counter command starts from: 0 for a missing key, the number a string spells, and none
  for any other value.
\<close>

definition counter_value :: "time_point \<Rightarrow> string \<Rightarrow> kv_store \<Rightarrow> int option" where
  "counter_value now k s =
     (case kv_get now k s of
        None \<Rightarrow> Some 0
      | Some (StringValue t) \<Rightarrow> parse_i64 t
      | Some _ \<Rightarrow> None)"

lemma counter_value_fits: "counter_value now k s = Some n \<Longrightarrow> fits64 n"
  by (auto simp: counter_value_def dest: parse_i64_fits split: option.splits Value.splits)

lemma apply_delta_num_exact:
  assumes "fits64 n" and "fits64 delta"
  shows "apply_delta_num k delta clk n s =
    (if fits64 (n + delta)
     then (Inr (RespInteger (n + delta)), kv_set (clk 1) k (StringValue (to_string (n + delta))) 0 s)
     else (Inr (RespError ''ERR increment or decrement would overflow''), s))"
proof -
  have "delta > 0 \<Longrightarrow> wrap64 (int64_max - delta) = int64_max - delta"
    and "delta < 0 \<Longrightarrow> wrap64 (int64_min - delta) = int64_min - delta"
    using assms(2) by (auto simp: int64_defs)
  then show ?thesis
    using assms by (auto simp: apply_delta_num_def Let_def fits64_def)
qed

text \<open>
  C30: Counter arithmetic is exact. \<^verbatim>\<open>apply_delta\<close>, the common body of \<^verbatim>\<open>INCR\<close>, \<^verbatim>\<open>DECR\<close>,
  \<^verbatim>\<open>INCRBY\<close> and \<^verbatim>\<open>DECRBY\<close>, answers and stores the mathematical sum when it is a 64-bit
  integer, and otherwise answers the overflow error and leaves the store alone. Its own overflow
  check never overflows.
\<close>

theorem apply_delta_exact:
  assumes "counter_value (clk 0) k s = Some n" and "fits64 delta"
  shows "apply_delta k delta clk s =
    (if fits64 (n + delta)
     then (Inr (RespInteger (n + delta)), kv_set (clk 1) k (StringValue (to_string (n + delta))) 0 s)
     else (Inr (RespError ''ERR increment or decrement would overflow''), s))"
  using assms(1) apply_delta_num_exact [OF counter_value_fits [OF assms(1)] assms(2)]
  by (auto simp: apply_delta_def counter_value_def split: option.splits Value.splits)

theorem apply_delta_exact_witness:
  "apply_delta ''k'' int64_max (\<lambda>i. 0) (kv_set 0 ''k'' (StringValue (to_string 1)) 0 kv_empty) =
     (Inr (RespError ''ERR increment or decrement would overflow''),
      kv_set 0 ''k'' (StringValue (to_string 1)) 0 kv_empty)"
  using apply_delta_exact [of "\<lambda>i. 0" "''k''" "kv_set 0 ''k'' (StringValue (to_string 1)) 0 kv_empty" 1 int64_max]
  by (simp add: counter_value_def kv.get_set_forever int64_defs)

text \<open>
  Successive counter commands add up: if both sums are 64-bit integers, two increments leave the
  same visible value as one increment by their sum.
\<close>

lemma apply_delta_adds:
  fixes clk clk' :: clock
  assumes "counter_value (clk 0) k s = Some n" and "fits64 a" and "fits64 b" and "fits64 (a + b)"
    and "fits64 (n + a)" and "fits64 (n + a + b)"
  shows "fst (apply_delta k b clk' (snd (apply_delta k a clk s))) = fst (apply_delta k (a + b) clk s)
    \<and> live T (snd (apply_delta k b clk' (snd (apply_delta k a clk s)))) =
      live T (snd (apply_delta k (a + b) clk s))"
proof -
  note num = apply_delta_num_exact [OF counter_value_fits [OF assms(1)]]
  have "apply_delta k a clk s = apply_delta_num k a clk n s"
    and "apply_delta k (a + b) clk s = apply_delta_num k (a + b) clk n s"
    using assms(1) by (auto simp: apply_delta_def counter_value_def split: option.splits Value.splits)
  then have "apply_delta k a clk s = (Inr (RespInteger (n + a)), kv_set (clk 1) k (StringValue (to_string (n + a))) 0 s)"
    and "apply_delta k (a + b) clk s =
      (Inr (RespInteger (n + a + b)), kv_set (clk 1) k (StringValue (to_string (n + a + b))) 0 s)"
    using num [OF assms(2)] num [OF assms(4)] assms(5,6) by (simp_all add: add.assoc)
  moreover have "apply_delta k b clk' (kv_set (clk 1) k (StringValue (to_string (n + a))) 0 s) =
      (Inr (RespInteger (n + a + b)),
       kv_set (clk' 1) k (StringValue (to_string (n + a + b))) 0 (kv_set (clk 1) k (StringValue (to_string (n + a))) 0 s))"
    using apply_delta_num_exact [OF assms(5,3)] assms(5,6)
    by (simp add: apply_delta_def kv.get_set_forever)
  ultimately show ?thesis
    by (simp add: kv.set_law age_upd_Some is_expired_def)
qed

text \<open>
  A counter command that succeeds makes the key permanent: whatever time to live the key had,
  \<^verbatim>\<open>TTL\<close> of the store answers \<open>- 1\<close> for it at any later time.
\<close>

lemma apply_delta_clears_ttl:
  fixes clk :: clock
  assumes "counter_value (clk 0) k s = Some n" and "fits64 delta" and "fits64 (n + delta)"
  shows "kv_ttl now now' k (snd (apply_delta k delta clk s)) = - 1"
proof -
  have "apply_delta k delta clk s = apply_delta_num k delta clk n s"
    using assms(1) by (auto simp: apply_delta_def counter_value_def split: option.splits Value.splits)
  with apply_delta_num_exact [OF counter_value_fits [OF assms(1)] assms(2)] assms(3) show ?thesis
    by (simp add: kv.ttl_law kv.set_law age_upd_Some is_expired_def)
qed

text \<open>
  C34: The string commands do not check the type of the value: on a key that holds a list, a set or
  a hash, \<^verbatim>\<open>GET\<close>, \<^verbatim>\<open>INCR\<close>, \<^verbatim>\<open>DECR\<close>, and \<^verbatim>\<open>INCRBY\<close> and \<^verbatim>\<open>DECRBY\<close> with an amount that is a
  64-bit integer throw \<^verbatim>\<open>std::bad_variant_access\<close> instead of answering \<^verbatim>\<open>WRONGTYPE\<close>, and they
  leave the store alone; only \<^verbatim>\<open>DECRBY\<close> by the least integer answers, with its overflow error.
\<close>

theorem string_cmds_throw:
  assumes "kv_get (clk 0) k s = Some v" and "\<not> is_string v" and "parse_i64 amount = Some delta"
  shows "cmd_get \<lparr>cmd_name = n, cmd_args = [k]\<rparr> clk s = (Inl (StdExn BadVariantAccess), s)
    \<and> cmd_incr \<lparr>cmd_name = n, cmd_args = [k]\<rparr> clk s = (Inl (StdExn BadVariantAccess), s)
    \<and> cmd_decr \<lparr>cmd_name = n, cmd_args = [k]\<rparr> clk s = (Inl (StdExn BadVariantAccess), s)
    \<and> cmd_incrby \<lparr>cmd_name = n, cmd_args = [k, amount]\<rparr> clk s = (Inl (StdExn BadVariantAccess), s)
    \<and> cmd_decrby \<lparr>cmd_name = n, cmd_args = [k, amount]\<rparr> clk s =
        (if delta = int64_min then Inr (RespError ''ERR increment or decrement would overflow'')
         else Inl (StdExn BadVariantAccess), s)"
proof -
  have "apply_delta k d clk s = (Inl (StdExn BadVariantAccess), s)" for d
    using assms(1,2) by (cases v) (simp_all add: apply_delta_def)
  moreover have "cmd_get \<lparr>cmd_name = n, cmd_args = [k]\<rparr> clk s = (Inl (StdExn BadVariantAccess), s)"
    using assms(1,2) by (cases v) (simp_all add: cmd_get_def)
  ultimately show ?thesis
    using assms(3) by (simp add: cmd_incr_def cmd_decr_def cmd_incrby_def cmd_decrby_def err_def)
qed

theorem string_cmds_throw_witness:
  "cmd_decrby \<lparr>cmd_name = ''DECRBY'', cmd_args = [''k'', ''7'']\<rparr> (\<lambda>i. 0) (kv_set 0 ''k'' (ListValue [''a'']) 0 kv_empty) =
     (Inl (StdExn BadVariantAccess), kv_set 0 ''k'' (ListValue [''a'']) 0 kv_empty)"
proof -
  have "parse_i64 ''7'' = Some 7"
    by code_simp
  then show ?thesis
    using string_cmds_throw [of "\<lambda>i. 0" "''k''" "kv_set 0 ''k'' (ListValue [''a'']) 0 kv_empty" "ListValue [''a'']"
        "''7''" 7 "''DECRBY''"]
    by (simp add: kv.get_set_forever int64_min_def)
qed

end
