(* ===== verification/List_Cmds.thy ===== *)
theory List_Cmds
  imports Commands
begin

text \<open>
  \<^verbatim>\<open>commands/handlers/list_cmds.cpp\<close>: the list commands on a \<^verbatim>\<open>std::deque\<close>, modelled as a
  list. The loops over the arguments are folds in the order of the source, and an element is read
  by index only where the handler has clamped the index into the list.
\<close>

section \<open>Definitions\<close>

text \<open>\<open>Inl\<close> is the error the C++ function leaves in its \<^verbatim>\<open>out\<close> parameter.\<close>

definition get_or_create_list :: "string \<Rightarrow> time_point \<Rightarrow> kv_store \<Rightarrow> resp_value + string list" where
  "get_or_create_list key now s =
     (case kv_get now key s of
        None \<Rightarrow> Inr []
      | Some v \<Rightarrow> (case v of ListValue l \<Rightarrow> Inr l | _ \<Rightarrow> Inl kWrongType))"

definition cmd_lpush :: store_handler where
  "cmd_lpush c clk s =
     (if length (cmd_args c) < 2 then (Inr (wrong_args (cmd_name c)), s)
      else case get_or_create_list (cmd_args c ! 0) (clk 0) s of
        Inl e \<Rightarrow> (Inr e, s)
      | Inr l \<Rightarrow>
          let l' = foldl (\<lambda>es a. a # es) l (drop 1 (cmd_args c));
              len = int (length l')
          in (Inr (RespInteger len), kv_set (clk 1) (cmd_args c ! 0) (ListValue l') 0 s))"

definition cmd_rpush :: store_handler where
  "cmd_rpush c clk s =
     (if length (cmd_args c) < 2 then (Inr (wrong_args (cmd_name c)), s)
      else case get_or_create_list (cmd_args c ! 0) (clk 0) s of
        Inl e \<Rightarrow> (Inr e, s)
      | Inr l \<Rightarrow>
          let l' = foldl (\<lambda>es a. es @ [a]) l (drop 1 (cmd_args c));
              len = int (length l')
          in (Inr (RespInteger len), kv_set (clk 1) (cmd_args c ! 0) (ListValue l') 0 s))"

definition cmd_lpop :: store_handler where
  "cmd_lpop c clk s =
     (if length (cmd_args c) \<noteq> 1 then (Inr (wrong_args (cmd_name c)), s)
      else case kv_get (clk 0) (cmd_args c ! 0) s of
        None \<Rightarrow> (Inr RespNull, s)
      | Some (ListValue l) \<Rightarrow>
          (case l of
             [] \<Rightarrow> (Inr RespNull, s)
           | elem # l' \<Rightarrow>
               (Inr (RespBulkString elem),
                if l' = [] then snd (kv_del (clk 1) (cmd_args c ! 0) s)
                else kv_set (clk 1) (cmd_args c ! 0) (ListValue l') 0 s))
      | Some _ \<Rightarrow> (Inr kWrongType, s))"

definition cmd_rpop :: store_handler where
  "cmd_rpop c clk s =
     (if length (cmd_args c) \<noteq> 1 then (Inr (wrong_args (cmd_name c)), s)
      else case kv_get (clk 0) (cmd_args c ! 0) s of
        None \<Rightarrow> (Inr RespNull, s)
      | Some (ListValue l) \<Rightarrow>
          if l = [] then (Inr RespNull, s)
          else
            let elem = last l; l' = butlast l
            in (Inr (RespBulkString elem),
                if l' = [] then snd (kv_del (clk 1) (cmd_args c ! 0) s)
                else kv_set (clk 1) (cmd_args c ! 0) (ListValue l') 0 s)
      | Some _ \<Rightarrow> (Inr kWrongType, s))"

definition cmd_llen :: store_handler where
  "cmd_llen c clk s =
     (if length (cmd_args c) \<noteq> 1 then (Inr (wrong_args (cmd_name c)), s)
      else case kv_get (clk 0) (cmd_args c ! 0) s of
        None \<Rightarrow> (Inr (RespInteger 0), s)
      | Some (ListValue l) \<Rightarrow> (Inr (RespInteger (int (length l))), s)
      | Some _ \<Rightarrow> (Inr kWrongType, s))"

text \<open>
  The index arithmetic of \<^verbatim>\<open>LRANGE\<close>. A negative index and a length have opposite signs, so their
  sum cannot overflow.
\<close>

definition lrange_elems :: "string list \<Rightarrow> int \<Rightarrow> int \<Rightarrow> resp_value list" where
  "lrange_elems elems start0 stop0 =
     (let n = int (length elems);
          start1 = (if start0 < 0 then start0 + n else start0);
          stop1 = (if stop0 < 0 then stop0 + n else stop0);
          start = (if start1 < 0 then 0 else start1);
          stop = (if stop1 \<ge> n then n - 1 else stop1)
      in if start \<le> stop then map (\<lambda>i. RespBulkString (elems ! nat i)) [start..stop] else [])"

definition cmd_lrange :: store_handler where
  "cmd_lrange c clk s =
     (if length (cmd_args c) \<noteq> 3 then (Inr (wrong_args (cmd_name c)), s)
      else case kv_get (clk 0) (cmd_args c ! 0) s of
        None \<Rightarrow> (Inr (RespArray []), s)
      | Some (ListValue elems) \<Rightarrow>
          (case (parse_i64 (cmd_args c ! 1), parse_i64 (cmd_args c ! 2)) of
             (Some start, Some stop) \<Rightarrow> (Inr (RespArray (lrange_elems elems start stop)), s)
           | _ \<Rightarrow> (Inr (RespError ''ERR value is not an integer or out of range''), s))
      | Some _ \<Rightarrow> (Inr kWrongType, s))"

definition cmd_lindex :: store_handler where
  "cmd_lindex c clk s =
     (if length (cmd_args c) \<noteq> 2 then (Inr (wrong_args (cmd_name c)), s)
      else case kv_get (clk 0) (cmd_args c ! 0) s of
        None \<Rightarrow> (Inr RespNull, s)
      | Some (ListValue elems) \<Rightarrow>
          (case parse_i64 (cmd_args c ! 1) of
             None \<Rightarrow> (Inr (RespError ''ERR value is not an integer or out of range''), s)
           | Some idx0 \<Rightarrow>
               let n = int (length elems);
                   idx = (if idx0 < 0 then idx0 + n else idx0)
               in if idx < 0 \<or> idx \<ge> n then (Inr RespNull, s)
                  else (Inr (RespBulkString (elems ! nat idx)), s))
      | Some _ \<Rightarrow> (Inr kWrongType, s))"

section \<open>The handlers meet their contract\<close>

lemma foldl_push_front: "foldl (\<lambda>es a. a # es) l as = rev as @ l"
  by (induction as arbitrary: l) simp_all

lemma foldl_push_back: "foldl (\<lambda>es a. es @ [a]) l as = l @ as"
  by (induction as arbitrary: l) simp_all

lemmas push_defs = cmd_lpush_def cmd_rpush_def get_or_create_list_def foldl_push_front
  foldl_push_back Let_def

lemmas pop_defs = cmd_lpop_def cmd_rpop_def Let_def

interpretation lpush: sound_handler cmd_lpush
  by (rule sound_handlerI) (auto simp: push_defs sound_simps split: option.split Value.split)

interpretation rpush: sound_handler cmd_rpush
  by (rule sound_handlerI) (auto simp: push_defs sound_simps split: option.split Value.split)

interpretation lpop: sound_handler cmd_lpop
  by (rule sound_handlerI)
    (auto simp: pop_defs sound_simps split: option.split Value.split list.split)

interpretation rpop: sound_handler cmd_rpop
  by (rule sound_handlerI) (auto simp: pop_defs sound_simps split: option.split Value.split)

interpretation llen: reading_handler cmd_llen
  by (rule reading_handlerI) (auto simp: cmd_llen_def kv.get_law split: option.split Value.split)

interpretation lrange: reading_handler cmd_lrange
  by (rule reading_handlerI) (auto simp: cmd_lrange_def kv.get_law split: option.split Value.split)

interpretation lindex: reading_handler cmd_lindex
  by (rule reading_handlerI)
    (auto simp: cmd_lindex_def Let_def kv.get_law split: option.split Value.split)

section \<open>Properties\<close>

text \<open>A negative index counts from the end.\<close>

definition list_index :: "int \<Rightarrow> int \<Rightarrow> int" where
  "list_index n i = (if i < 0 then i + n else i)"

lemma nths_upto:
  "map (\<lambda>i. f (xs ! nat i)) [max 0 a..min b (int (length xs) - 1)] =
     map f (nths xs {i. a \<le> int i \<and> int i \<le> b})"
proof (induction xs rule: rev_induct)
  case Nil
  then show ?case by simp
next
  case (snoc x xs)
  let ?n = "int (length xs)"
  have idx: "map (\<lambda>i. f ((xs @ [x]) ! nat i)) [max 0 a..min b (?n - 1)] =
      map (\<lambda>i. f (xs ! nat i)) [max 0 a..min b (?n - 1)]"
    by (auto simp: nth_append nat_less_iff)
  show ?case
  proof (cases "a \<le> ?n \<and> ?n \<le> b")
    case True
    then have "[max 0 a..min b ?n] = [max 0 a..min b (?n - 1)] @ [?n]"
      by (simp add: upto_rec2)
    with True snoc idx show ?thesis
      by (simp add: nths_append nth_append)
  next
    case False
    then have "[max 0 a..min b ?n] = [max 0 a..min b (?n - 1)]"
      by (cases "?n \<le> b") auto
    with False snoc idx show ?thesis
      by (auto simp: nths_append)
  qed
qed

text \<open>
  \<^verbatim>\<open>LRANGE\<close> returns exactly the elements whose position lies between the two indices, in
  order, where a negative index counts from the end; indices out of range and empty ranges are
  covered, and no element outside the list is ever read.
\<close>

lemma lrange_reference:
  "lrange_elems elems start stop =
     map RespBulkString (nths elems {i. list_index (int (length elems)) start \<le> int i
                                       \<and> int i \<le> list_index (int (length elems)) stop})"
proof -
  let ?n = "int (length elems)"
  let ?a = "list_index ?n start" and ?b = "list_index ?n stop"
  have "lrange_elems elems start stop =
      map (\<lambda>i. RespBulkString (elems ! nat i)) [max 0 ?a..min ?b (?n - 1)]"
    by (auto simp: lrange_elems_def list_index_def Let_def)
  then show ?thesis by (simp add: nths_upto)
qed

text \<open>
  \<^verbatim>\<open>LINDEX\<close> and \<^verbatim>\<open>LRANGE\<close> agree: the element at an index is the range that starts and ends
  there, and the null reply is given exactly when that range is empty.
\<close>

lemma lindex_lrange:
  assumes "kv_get (clk 0) k s = Some (ListValue l)" and "parse_i64 i = Some n"
  shows "cmd_lindex \<lparr>cmd_name = c, cmd_args = [k, i]\<rparr> clk s =
    (Inr (case lrange_elems l n n of [] \<Rightarrow> RespNull | v # vs \<Rightarrow> v), s)"
  using assms by (auto simp: cmd_lindex_def lrange_elems_def Let_def)

text \<open>Popping the same list several times, the \<open>i\<close>-th time with the \<open>i\<close>-th clock.\<close>

fun pop_times :: "store_handler \<Rightarrow> command \<Rightarrow> clock list \<Rightarrow> kv_store \<Rightarrow> reply list \<times> kv_store" where
  "pop_times h c [] s = ([], s)"
| "pop_times h c (clk # clks) s =
     (case h c clk s of (r, s') \<Rightarrow> (case pop_times h c clks s' of (rs, s'') \<Rightarrow> (r # rs, s'')))"

definition holds_list :: "kv_store \<Rightarrow> string \<Rightarrow> string list \<Rightarrow> bool" where
  "holds_list s k l \<longleftrightarrow> (\<forall>T. live T s k =
     (if l = [] then None else Some \<lparr>entry_value = ListValue l, expires_at = None\<rparr>))"

lemma holds_list_get: "holds_list s k l \<Longrightarrow> kv_get now k s = (if l = [] then None else Some (ListValue l))"
  by (simp add: holds_list_def kv.get_law)

lemma holds_list_gone: "holds_list s k [] \<Longrightarrow> kv_get now k s = None"
  by (simp add: holds_list_get)

lemma holds_list_set: "l \<noteq> [] \<Longrightarrow> holds_list (kv_set now k (ListValue l) 0 s) k l"
  by (simp add: holds_list_def kv.set_law age_upd_Some is_expired_def)

lemma holds_list_del: "holds_list (snd (kv_del now k s)) k []"
  by (simp add: holds_list_def kv.del_law)

lemma lpop_holds:
  "holds_list s k (e # l) \<Longrightarrow>
     fst (cmd_lpop \<lparr>cmd_name = c, cmd_args = [k]\<rparr> clk s) = Inr (RespBulkString e)
     \<and> holds_list (snd (cmd_lpop \<lparr>cmd_name = c, cmd_args = [k]\<rparr> clk s)) k l"
  using holds_list_get [of s k "e # l" "clk 0"]
  by (auto simp: cmd_lpop_def holds_list_set holds_list_del)

lemma lpop_all:
  "holds_list s k l \<Longrightarrow> length clks = length l \<Longrightarrow>
     fst (pop_times cmd_lpop \<lparr>cmd_name = c, cmd_args = [k]\<rparr> clks s) = map (Inr \<circ> RespBulkString) l
     \<and> holds_list (snd (pop_times cmd_lpop \<lparr>cmd_name = c, cmd_args = [k]\<rparr> clks s)) k []"
proof (induction l arbitrary: clks s)
  case Nil
  then show ?case by simp
next
  case (Cons e l)
  then obtain clk clks' where "clks = clk # clks'" and "length clks' = length l"
    by (cases clks) auto
  with Cons.IH lpop_holds [OF Cons.prems(1), of c clk] show ?case
    by (auto simp: split_def)
qed

text \<open>
  A list is a queue: \<^verbatim>\<open>RPUSH\<close> answers the new length, and popping it empty with
  \<^verbatim>\<open>LPOP\<close>, at any times, returns the old elements and then the pushed ones in the order they
  were given; afterwards the key is gone.
\<close>

lemma rpush_lpop_fifo:
  assumes "get_or_create_list k (clk 0) s = Inr l" and "as \<noteq> []"
    and "length clks = length l + length as"
  shows "case cmd_rpush \<lparr>cmd_name = n, cmd_args = k # as\<rparr> clk s of (r, s') \<Rightarrow>
    r = Inr (RespInteger (int (length l + length as)))
    \<and> fst (pop_times cmd_lpop \<lparr>cmd_name = m, cmd_args = [k]\<rparr> clks s') = map (Inr \<circ> RespBulkString) (l @ as)
    \<and> kv_get T k (snd (pop_times cmd_lpop \<lparr>cmd_name = m, cmd_args = [k]\<rparr> clks s')) = None"
proof -
  have "cmd_rpush \<lparr>cmd_name = n, cmd_args = k # as\<rparr> clk s =
      (Inr (RespInteger (int (length l + length as))), kv_set (clk 1) k (ListValue (l @ as)) 0 s)"
    using assms(1,2) by (cases as) (simp_all add: cmd_rpush_def foldl_push_back Let_def)
  moreover have "holds_list (kv_set (clk 1) k (ListValue (l @ as)) 0 s) k (l @ as)"
    using assms(2) by (simp add: holds_list_set)
  ultimately show ?thesis
    using lpop_all [of _ k "l @ as" clks m] assms(3) by (simp add: holds_list_gone)
qed

lemma rpop_holds:
  "holds_list s k (l @ [e]) \<Longrightarrow>
     fst (cmd_rpop \<lparr>cmd_name = c, cmd_args = [k]\<rparr> clk s) = Inr (RespBulkString e)
     \<and> holds_list (snd (cmd_rpop \<lparr>cmd_name = c, cmd_args = [k]\<rparr> clk s)) k l"
  using holds_list_get [of s k "l @ [e]" "clk 0"]
  by (auto simp: cmd_rpop_def Let_def holds_list_set holds_list_del)

lemma lpop_hd:
  "holds_list s k l \<Longrightarrow> l \<noteq> [] \<Longrightarrow>
     fst (cmd_lpop \<lparr>cmd_name = c, cmd_args = [k]\<rparr> clk s) = Inr (RespBulkString (hd l))"
  by (cases l) (simp_all add: lpop_holds)

lemma rpop_last:
  "holds_list s k l \<Longrightarrow> l \<noteq> [] \<Longrightarrow>
     fst (cmd_rpop \<lparr>cmd_name = c, cmd_args = [k]\<rparr> clk s) = Inr (RespBulkString (last l))"
  by (cases l rule: rev_cases) (simp_all add: rpop_holds)

text \<open>
  The two ends of a list are independent: after \<^verbatim>\<open>LPUSH\<close>, \<^verbatim>\<open>LPOP\<close> takes back the last
  argument, which is the new front, and \<^verbatim>\<open>RPOP\<close> takes the last of the old elements, or the
  first argument when there were none.
\<close>

lemma lpush_pops:
  assumes "get_or_create_list k (clk 0) s = Inr l" and "as \<noteq> []"
  shows "case cmd_lpush \<lparr>cmd_name = n, cmd_args = k # as\<rparr> clk s of (r, s') \<Rightarrow>
    r = Inr (RespInteger (int (length l + length as)))
    \<and> fst (cmd_lpop \<lparr>cmd_name = m, cmd_args = [k]\<rparr> clk' s') = Inr (RespBulkString (last as))
    \<and> fst (cmd_rpop \<lparr>cmd_name = m, cmd_args = [k]\<rparr> clk' s') = Inr (RespBulkString (last (hd as # l)))"
proof -
  have "cmd_lpush \<lparr>cmd_name = n, cmd_args = k # as\<rparr> clk s =
      (Inr (RespInteger (int (length l + length as))), kv_set (clk 1) k (ListValue (rev as @ l)) 0 s)"
    using assms by (cases as) (simp_all add: cmd_lpush_def foldl_push_front Let_def)
  moreover have "holds_list (kv_set (clk 1) k (ListValue (rev as @ l)) 0 s) k (rev as @ l)"
    using assms(2) by (simp add: holds_list_set)
  moreover have "hd (rev as @ l) = last as" and "last (rev as @ l) = last (hd as # l)"
    using assms(2) by (simp_all add: hd_rev last_append last_rev)
  ultimately show ?thesis
    using lpop_hd [of _ k "rev as @ l" m clk'] rpop_last [of _ k "rev as @ l" m clk'] assms(2) by simp
qed

end
