(* ===== verification/Set_Cmds.thy ===== *)
theory Set_Cmds
  imports Commands
begin

text \<open>
  \<^verbatim>\<open>commands/handlers/set_cmds.cpp\<close>: the set commands on a \<^verbatim>\<open>std::unordered_set\<close>.
\<close>

section \<open>Definitions\<close>

definition get_or_create_set :: "string \<Rightarrow> time_point \<Rightarrow> kv_store \<Rightarrow> resp_value + string unordered_set" where
  "get_or_create_set key now s =
     (case kv_get now key s of
        None \<Rightarrow> Inr []
      | Some v \<Rightarrow> (case v of SetValue m \<Rightarrow> Inr m | _ \<Rightarrow> Inl kWrongType))"

fun sadd_loop :: "string list \<Rightarrow> string unordered_set \<Rightarrow> int \<Rightarrow> string unordered_set \<times> int" where
  "sadd_loop [] m added = (m, added)"
| "sadd_loop (a # as) m added =
     (case us_insert a m of (m', inserted) \<Rightarrow> sadd_loop as m' (if inserted then added + 1 else added))"

definition cmd_sadd :: store_handler where
  "cmd_sadd c clk s =
     (if length (cmd_args c) < 2 then (Inr (wrong_args (cmd_name c)), s)
      else case get_or_create_set (cmd_args c ! 0) (clk 0) s of
        Inl e \<Rightarrow> (Inr e, s)
      | Inr m \<Rightarrow>
          (case sadd_loop (drop 1 (cmd_args c)) m 0 of
             (m', added) \<Rightarrow>
               (Inr (RespInteger added), kv_set (clk 1) (cmd_args c ! 0) (SetValue m') 0 s)))"

fun srem_loop :: "string list \<Rightarrow> string unordered_set \<Rightarrow> int \<Rightarrow> string unordered_set \<times> int" where
  "srem_loop [] m removed = (m, removed)"
| "srem_loop (a # as) m removed =
     (case us_erase a m of (m', n) \<Rightarrow> srem_loop as m' (removed + int n))"

definition cmd_srem :: store_handler where
  "cmd_srem c clk s =
     (if length (cmd_args c) < 2 then (Inr (wrong_args (cmd_name c)), s)
      else case kv_get (clk 0) (cmd_args c ! 0) s of
        None \<Rightarrow> (Inr (RespInteger 0), s)
      | Some (SetValue m) \<Rightarrow>
          (case srem_loop (drop 1 (cmd_args c)) m 0 of
             (m', removed) \<Rightarrow>
               (Inr (RespInteger removed),
                if m' = [] then snd (kv_del (clk 1) (cmd_args c ! 0) s)
                else kv_set (clk 1) (cmd_args c ! 0) (SetValue m') 0 s))
      | Some _ \<Rightarrow> (Inr kWrongType, s))"

definition cmd_smembers :: store_handler where
  "cmd_smembers c clk s =
     (if length (cmd_args c) \<noteq> 1 then (Inr (wrong_args (cmd_name c)), s)
      else case kv_get (clk 0) (cmd_args c ! 0) s of
        None \<Rightarrow> (Inr (RespArray []), s)
      | Some (SetValue m) \<Rightarrow> (Inr (RespArray (map RespBulkString m)), s)
      | Some _ \<Rightarrow> (Inr kWrongType, s))"

definition cmd_sismember :: store_handler where
  "cmd_sismember c clk s =
     (if length (cmd_args c) \<noteq> 2 then (Inr (wrong_args (cmd_name c)), s)
      else case kv_get (clk 0) (cmd_args c ! 0) s of
        None \<Rightarrow> (Inr (RespInteger 0), s)
      | Some (SetValue m) \<Rightarrow> (Inr (RespInteger (if us_count (cmd_args c ! 1) m > 0 then 1 else 0)), s)
      | Some _ \<Rightarrow> (Inr kWrongType, s))"

definition cmd_scard :: store_handler where
  "cmd_scard c clk s =
     (if length (cmd_args c) \<noteq> 1 then (Inr (wrong_args (cmd_name c)), s)
      else case kv_get (clk 0) (cmd_args c ! 0) s of
        None \<Rightarrow> (Inr (RespInteger 0), s)
      | Some (SetValue m) \<Rightarrow> (Inr (RespInteger (int (length m))), s)
      | Some _ \<Rightarrow> (Inr kWrongType, s))"

section \<open>The loops\<close>

lemma sadd_loop_spec:
  assumes "us_ok m"
  shows "us_ok (fst (sadd_loop as m n))"
    and "set (fst (sadd_loop as m n)) = set m \<union> set as"
    and "snd (sadd_loop as m n) = n + int (card (set as - set m))"
    and "as \<noteq> [] \<Longrightarrow> fst (sadd_loop as m n) \<noteq> []"
proof -
  have "us_ok (fst (sadd_loop as m n)) \<and> set (fst (sadd_loop as m n)) = set m \<union> set as
      \<and> snd (sadd_loop as m n) = n + int (card (set as - set m))"
    using assms
  proof (induction as arbitrary: m n)
    case Nil
    then show ?case by simp
  next
    case (Cons a as)
    have "us_ok (fst (us_insert a m))" and "set (fst (us_insert a m)) = insert a (set m)"
      and "snd (us_insert a m) \<longleftrightarrow> a \<notin> set m"
      using Cons.prems by (rule us.invar_add us.elems_add us.added)+
    moreover have "set (a # as) - set m =
        (if a \<in> set m then set as - insert a (set m) else insert a (set as - insert a (set m)))"
      by auto
    then have "card (set (a # as) - set m) =
        (if a \<in> set m then 0 else 1) + card (set as - insert a (set m))"
      by simp
    ultimately show ?case
      using Cons.IH [of "fst (us_insert a m)"] by (auto simp: split_def)
  qed
  then show "us_ok (fst (sadd_loop as m n))" "set (fst (sadd_loop as m n)) = set m \<union> set as"
    "snd (sadd_loop as m n) = n + int (card (set as - set m))"
    "as \<noteq> [] \<Longrightarrow> fst (sadd_loop as m n) \<noteq> []"
    by auto
qed

lemma srem_loop_spec:
  assumes "us_ok m"
  shows "us_ok (fst (srem_loop as m n))"
    and "set (fst (srem_loop as m n)) = set m - set as"
    and "snd (srem_loop as m n) = n + int (length m) - int (length (fst (srem_loop as m n)))"
proof -
  have "us_ok (fst (srem_loop as m n)) \<and> set (fst (srem_loop as m n)) = set m - set as
      \<and> snd (srem_loop as m n) = n + int (length m) - int (length (fst (srem_loop as m n)))"
    using assms
  proof (induction as arbitrary: m n)
    case Nil
    then show ?case by simp
  next
    case (Cons a as)
    have "us_ok (fst (us_erase a m))" and "set (fst (us_erase a m)) = set m - {a}"
      and "length m = length (fst (us_erase a m)) + snd (us_erase a m)"
      using Cons.prems by (rule us.invar_del us.elems_del us.size_del)+
    then show ?case
      using Cons.IH [of "fst (us_erase a m)"] by (auto simp: split_def)
  qed
  then show "us_ok (fst (srem_loop as m n))" "set (fst (srem_loop as m n)) = set m - set as"
    "snd (srem_loop as m n) = n + int (length m) - int (length (fst (srem_loop as m n)))"
    by auto
qed

text \<open>\<^verbatim>\<open>SREM\<close> counts the members it removes, and what is left is empty if there are no others.\<close>

lemma srem_loop_count:
  assumes "us_ok m"
  shows "snd (srem_loop as m 0) = int (card (set m \<inter> set as))"
    and "fst (srem_loop as m 0) = [] \<longleftrightarrow> set m \<subseteq> set as"
proof -
  note spec = srem_loop_spec [OF assms, of as 0]
  have "card (set m) = card (set m \<inter> set as) + card (set m - set as)"
    by (rule card_Int_Diff) simp
  then show "snd (srem_loop as m 0) = int (card (set m \<inter> set as))"
    using spec us.size_card [OF assms] us.size_card [OF spec(1)] by simp
  show "fst (srem_loop as m 0) = [] \<longleftrightarrow> set m \<subseteq> set as"
    by (simp add: spec(2) Diff_eq_empty_iff flip: set_empty)
qed

section \<open>The handlers meet their contract\<close>

lemma kv_get_set_ok: "kv_ok s \<Longrightarrow> kv_get now k s = Some (SetValue m) \<Longrightarrow> us_ok m"
  by (drule (1) kv_get_ok) simp

lemma get_or_create_set_ok: "kv_ok s \<Longrightarrow> get_or_create_set k now s = Inr m \<Longrightarrow> us_ok m"
  by (auto simp: get_or_create_set_def us_ok_def dest!: kv_get_set_ok split: option.splits Value.splits)

interpretation sadd: sound_handler cmd_sadd
proof (rule sound_handlerI)
  fix c clk s
  assume ok: "kv_ok s"
  then show "kv_ok (snd (cmd_sadd c clk s))"
    by (auto simp: cmd_sadd_def split_def sadd_loop_spec(1) intro!: kv.inv_set
        dest: get_or_create_set_ok split: sum.split)
  assume "kv_tidy s"
  with ok show "kv_tidy (snd (cmd_sadd c clk s))"
    by (auto simp: cmd_sadd_def split_def sadd_loop_spec(4) intro!: kv_tidy_set
        dest: get_or_create_set_ok split: sum.split)
qed (auto simp: cmd_sadd_def get_or_create_set_def split_def sound_simps
    split: sum.split option.split Value.split)

interpretation srem: sound_handler cmd_srem
proof (rule sound_handlerI)
  fix c clk s
  assume "kv_ok s"
  then show "kv_ok (snd (cmd_srem c clk s))"
    by (auto simp: cmd_srem_def split_def srem_loop_spec(1) intro!: kv.inv_set kv.inv_del
        dest: kv_get_set_ok split: option.split Value.split)
qed (auto simp: cmd_srem_def split_def kv_tidy_set kv_tidy_del kv.get_law kv.set_law kv.del_law
    split: option.split Value.split)

interpretation smembers: reading_handler cmd_smembers
  by (rule reading_handlerI) (auto simp: cmd_smembers_def kv.get_law split: option.split Value.split)

interpretation sismember: reading_handler cmd_sismember
  by (rule reading_handlerI) (auto simp: cmd_sismember_def kv.get_law split: option.split Value.split)

interpretation scard: reading_handler cmd_scard
  by (rule reading_handlerI) (auto simp: cmd_scard_def kv.get_law split: option.split Value.split)

end
