(* ===== verification/Hash_Cmds.thy ===== *)
theory Hash_Cmds
  imports Commands
begin

text \<open>
  \<^verbatim>\<open>commands/handlers/hash_cmds.cpp\<close>: the hash commands on a
  \<^verbatim>\<open>std::unordered_map<std::string, std::string>\<close>.
\<close>

section \<open>Definitions\<close>

type_synonym fields = "(string, string) unordered_map"

definition get_or_create_hash :: "string \<Rightarrow> time_point \<Rightarrow> kv_store \<Rightarrow> resp_value + fields" where
  "get_or_create_hash key now s =
     (case kv_get now key s of
        None \<Rightarrow> Inr []
      | Some v \<Rightarrow> (case v of HashValue h \<Rightarrow> Inr h | _ \<Rightarrow> Inl kWrongType))"

text \<open>
  The loop of \<^verbatim>\<open>HSET\<close> takes two arguments at a time. The guard on the number of arguments makes
  the last equation unreachable.
\<close>

fun hset_loop :: "string list \<Rightarrow> fields \<Rightarrow> int \<Rightarrow> fields \<times> int" where
  "hset_loop (f # v # rest) h added =
     (case um_insert_or_assign f v h of
        (h', inserted) \<Rightarrow> hset_loop rest h' (if inserted then added + 1 else added))"
| "hset_loop _ h added = (h, added)"

definition cmd_hset :: store_handler where
  "cmd_hset c clk s =
     (if length (cmd_args c) < 3 \<or> even (length (cmd_args c)) then (Inr (wrong_args (cmd_name c)), s)
      else case get_or_create_hash (cmd_args c ! 0) (clk 0) s of
        Inl e \<Rightarrow> (Inr e, s)
      | Inr h \<Rightarrow>
          (case hset_loop (drop 1 (cmd_args c)) h 0 of
             (h', added) \<Rightarrow>
               (Inr (RespInteger added), kv_set (clk 1) (cmd_args c ! 0) (HashValue h') 0 s)))"

definition cmd_hget :: store_handler where
  "cmd_hget c clk s =
     (if length (cmd_args c) \<noteq> 2 then (Inr (wrong_args (cmd_name c)), s)
      else case kv_get (clk 0) (cmd_args c ! 0) s of
        None \<Rightarrow> (Inr RespNull, s)
      | Some (HashValue h) \<Rightarrow>
          (case um_find h (cmd_args c ! 1) of
             None \<Rightarrow> (Inr RespNull, s)
           | Some v \<Rightarrow> (Inr (RespBulkString v), s))
      | Some _ \<Rightarrow> (Inr kWrongType, s))"

fun hdel_loop :: "string list \<Rightarrow> fields \<Rightarrow> int \<Rightarrow> fields \<times> int" where
  "hdel_loop [] h removed = (h, removed)"
| "hdel_loop (f # fs) h removed = (case um_erase f h of (h', n) \<Rightarrow> hdel_loop fs h' (removed + int n))"

definition cmd_hdel :: store_handler where
  "cmd_hdel c clk s =
     (if length (cmd_args c) < 2 then (Inr (wrong_args (cmd_name c)), s)
      else case kv_get (clk 0) (cmd_args c ! 0) s of
        None \<Rightarrow> (Inr (RespInteger 0), s)
      | Some (HashValue h) \<Rightarrow>
          (case hdel_loop (drop 1 (cmd_args c)) h 0 of
             (h', removed) \<Rightarrow>
               (Inr (RespInteger removed),
                if h' = [] then snd (kv_del (clk 1) (cmd_args c ! 0) s)
                else kv_set (clk 1) (cmd_args c ! 0) (HashValue h') 0 s))
      | Some _ \<Rightarrow> (Inr kWrongType, s))"

definition cmd_hgetall :: store_handler where
  "cmd_hgetall c clk s =
     (if length (cmd_args c) \<noteq> 1 then (Inr (wrong_args (cmd_name c)), s)
      else case kv_get (clk 0) (cmd_args c ! 0) s of
        None \<Rightarrow> (Inr (RespArray []), s)
      | Some (HashValue h) \<Rightarrow>
          (Inr (RespArray (concat (map (\<lambda>(f, v). [RespBulkString f, RespBulkString v]) h))), s)
      | Some _ \<Rightarrow> (Inr kWrongType, s))"

definition cmd_hexists :: store_handler where
  "cmd_hexists c clk s =
     (if length (cmd_args c) \<noteq> 2 then (Inr (wrong_args (cmd_name c)), s)
      else case kv_get (clk 0) (cmd_args c ! 0) s of
        None \<Rightarrow> (Inr (RespInteger 0), s)
      | Some (HashValue h) \<Rightarrow>
          (Inr (RespInteger (if um_find h (cmd_args c ! 1) \<noteq> None then 1 else 0)), s)
      | Some _ \<Rightarrow> (Inr kWrongType, s))"

definition cmd_hlen :: store_handler where
  "cmd_hlen c clk s =
     (if length (cmd_args c) \<noteq> 1 then (Inr (wrong_args (cmd_name c)), s)
      else case kv_get (clk 0) (cmd_args c ! 0) s of
        None \<Rightarrow> (Inr (RespInteger 0), s)
      | Some (HashValue h) \<Rightarrow> (Inr (RespInteger (int (length h))), s)
      | Some _ \<Rightarrow> (Inr kWrongType, s))"

section \<open>The loops\<close>

text \<open>The field/value pairs of an argument list, in order.\<close>

fun arg_pairs :: "string list \<Rightarrow> (string \<times> string) list" where
  "arg_pairs (f # v # rest) = (f, v) # arg_pairs rest"
| "arg_pairs _ = []"

lemma hset_loop_keeps: "um_ok h \<Longrightarrow> um_ok (fst (hset_loop as h n))"
  by (induction as h n rule: hset_loop.induct)
    (simp_all add: um_insert_or_assign_def um.invar_assign)

lemma hset_loop_lookup:
  "um_ok h \<Longrightarrow> um_find (fst (hset_loop as h n)) = um_find h ++ map_of (rev (arg_pairs as))"
  by (induction as h n rule: hset_loop.induct)
    (simp_all add: um_insert_or_assign_def um.invar_assign)

lemma hset_loop_added:
  "um_ok h \<Longrightarrow> snd (hset_loop as h n) = n + int (length (fst (hset_loop as h n))) - int (length h)"
  by (induction as h n rule: hset_loop.induct)
    (simp_all add: um_insert_or_assign_def um.invar_assign um.size_assign)

lemma AList_update_nonempty [simp]: "AList.update k v m \<noteq> []"
  by (cases m) auto

lemma hset_loop_nonempty: "h \<noteq> [] \<or> 2 \<le> length as \<Longrightarrow> fst (hset_loop as h n) \<noteq> []"
  by (induction as h n rule: hset_loop.induct) (auto simp: um_insert_or_assign_def)

lemma hdel_loop_spec:
  "um_ok h \<Longrightarrow> um_ok (fst (hdel_loop fs h n))
     \<and> um_find (fst (hdel_loop fs h n)) = um_find h |` (- set fs)
     \<and> snd (hdel_loop fs h n) = n + int (length h) - int (length (fst (hdel_loop fs h n)))"
proof (induction fs arbitrary: h n)
  case Nil
  then show ?case by simp
next
  case (Cons f fs)
  have "length h = length (AList.delete f h) + (if um_find h f = None then 0 else 1)"
    using um.size_erase [OF Cons.prems, of f] by (cases h) (auto split: if_splits)
  with Cons.IH [OF um.invar_erase [OF Cons.prems, of f]] show ?case
    by (auto simp: um_erase_def restrict_map_def fun_eq_iff)
qed

text \<open>The replies of \<^verbatim>\<open>HSET\<close> and \<^verbatim>\<open>HDEL\<close>: the fields that are new, the fields that go.\<close>

lemma hset_loop_count:
  assumes "um_ok h"
  shows "snd (hset_loop as h 0) = int (card (fst ` set (arg_pairs as) - dom (um_find h)))"
proof -
  let ?h' = "fst (hset_loop as h 0)" and ?new = "fst ` set (arg_pairs as)"
  have "dom (um_find ?h') = (?new - dom (um_find h)) \<union> dom (um_find h)"
    by (auto simp: hset_loop_lookup [OF assms] dom_map_of_conv_image_fst)
  moreover have "card ((?new - dom (um_find h)) \<union> dom (um_find h)) = card (?new - dom (um_find h)) + card (dom (um_find h))"
    by (rule card_Un_disjoint) (use um.finite_dom [OF assms] in auto)
  ultimately show ?thesis
    using hset_loop_added [OF assms, of as 0] um.size_card [OF assms]
      um.size_card [OF hset_loop_keeps [OF assms, of as 0]]
    by simp
qed

lemma hdel_loop_lookup: "um_ok h \<Longrightarrow> um_find (fst (hdel_loop fs h n)) = um_find h |` (- set fs)"
  by (simp add: hdel_loop_spec)

lemma hdel_loop_count:
  assumes "um_ok h"
  shows "snd (hdel_loop as h 0) = int (card (dom (um_find h) \<inter> set as))"
    and "fst (hdel_loop as h 0) = [] \<longleftrightarrow> dom (um_find h) \<subseteq> set as"
proof -
  let ?h' = "fst (hdel_loop as h 0)"
  have spec: "um_ok ?h'" "snd (hdel_loop as h 0) = int (length h) - int (length ?h')"
    and dom': "dom (um_find ?h') = dom (um_find h) - set as"
    using hdel_loop_spec [OF assms, of as 0] by (auto simp: Diff_eq)
  then have "card (dom (um_find h)) = card (dom (um_find h) \<inter> set as) + card (dom (um_find ?h'))"
    using um.finite_dom [OF assms] card_Int_Diff by fastforce
  then show "snd (hdel_loop as h 0) = int (card (dom (um_find h) \<inter> set as))"
    using spec(2) um.size_card [OF assms] um.size_card [OF spec(1)] by simp
  show "?h' = [] \<longleftrightarrow> dom (um_find h) \<subseteq> set as"
    using um.size_zero [OF spec(1)] by (simp only: length_0_conv dom_eq_empty_conv [symmetric] dom' Diff_eq_empty_iff)
qed

section \<open>The handlers meet their contract\<close>

lemma kv_get_hash_ok: "kv_ok s \<Longrightarrow> kv_get now k s = Some (HashValue h) \<Longrightarrow> um_ok h"
  by (drule (1) kv_get_ok) simp

lemma get_or_create_hash_ok: "kv_ok s \<Longrightarrow> get_or_create_hash k now s = Inr h \<Longrightarrow> um_ok h"
  by (auto simp: get_or_create_hash_def um_ok_def [of "[]"] dest!: kv_get_hash_ok
      split: option.splits Value.splits)

interpretation hset: sound_handler cmd_hset
proof (rule sound_handlerI)
  fix c clk s
  assume ok: "kv_ok s"
  then show "kv_ok (snd (cmd_hset c clk s))"
    by (auto simp: cmd_hset_def split_def hset_loop_keeps intro!: kv.inv_set
        dest: get_or_create_hash_ok split: sum.split)
  assume "kv_tidy s"
  then show "kv_tidy (snd (cmd_hset c clk s))"
    by (auto simp: cmd_hset_def split_def hset_loop_nonempty [OF disjI2] intro!: kv_tidy_set split: sum.split)
qed (auto simp: cmd_hset_def get_or_create_hash_def split_def sound_simps
    split: sum.split option.split Value.split)

interpretation hdel: sound_handler cmd_hdel
proof (rule sound_handlerI)
  fix c clk s
  assume "kv_ok s"
  then show "kv_ok (snd (cmd_hdel c clk s))"
    by (auto simp: cmd_hdel_def split_def hdel_loop_spec intro!: kv.inv_set kv.inv_del
        dest: kv_get_hash_ok split: option.split Value.split)
qed (auto simp: cmd_hdel_def split_def kv_tidy_set kv_tidy_del kv.get_law kv.set_law kv.del_law
    split: option.split Value.split)

interpretation hget: reading_handler cmd_hget
  by (rule reading_handlerI) (auto simp: cmd_hget_def kv.get_law split: option.split Value.split)

interpretation hgetall: reading_handler cmd_hgetall
  by (rule reading_handlerI) (auto simp: cmd_hgetall_def kv.get_law split: option.split Value.split)

interpretation hexists: reading_handler cmd_hexists
  by (rule reading_handlerI) (auto simp: cmd_hexists_def kv.get_law split: option.split Value.split)

interpretation hlen: reading_handler cmd_hlen
  by (rule reading_handlerI) (auto simp: cmd_hlen_def kv.get_law split: option.split Value.split)

end
