(* ===== verification/Pubsub_Broker.thy ===== *)
theory Pubsub_Broker
  imports Std_Containers
begin

text \<open>
  \<^verbatim>\<open>server/pubsub_broker.cpp\<close>: the channel registry. A subscriber is the id of a connection and a
  write callback; the callback is a value of the type parameter \<open>'w\<close>, and \<^verbatim>\<open>publish\<close> returns the
  callbacks it calls, in order, with the message. The mutex makes every operation atomic.
\<close>

section \<open>Definitions\<close>

record 'w subscriber =
  sub_id :: nat
  sub_write :: 'w

record 'w pubsub_broker =
  channels :: "(string, 'w subscriber list) unordered_map"

definition empty_broker :: "'w pubsub_broker" where
  "empty_broker = \<lparr>channels = []\<rparr>"

text \<open>The loop that looks for an existing subscription: \<open>None\<close> when there is none.\<close>

fun resubscribe :: "nat \<Rightarrow> 'w \<Rightarrow> 'w subscriber list \<Rightarrow> 'w subscriber list option" where
  "resubscribe i w [] = None"
| "resubscribe i w (s # subs) =
     (if sub_id s = i then Some (s\<lparr>sub_write := w\<rparr> # subs) else map_option ((#) s) (resubscribe i w subs))"

definition subscribe :: "string \<Rightarrow> nat \<Rightarrow> 'w \<Rightarrow> 'w pubsub_broker \<Rightarrow> int \<times> 'w pubsub_broker" where
  "subscribe channel i w b =
     (let subs = (case um_find (channels b) channel of None \<Rightarrow> [] | Some subs \<Rightarrow> subs);
          subs' = (case resubscribe i w subs of
                     Some rs \<Rightarrow> rs
                   | None \<Rightarrow> subs @ [\<lparr>sub_id = i, sub_write = w\<rparr>])
      in (int (length subs'), b\<lparr>channels := AList.update channel subs' (channels b)\<rparr>))"

definition unsubscribe :: "string \<Rightarrow> nat \<Rightarrow> 'w pubsub_broker \<Rightarrow> int \<times> 'w pubsub_broker" where
  "unsubscribe channel i b =
     (case um_find (channels b) channel of
        None \<Rightarrow> (0, b)
      | Some subs \<Rightarrow>
          let subs' = filter (\<lambda>s. sub_id s \<noteq> i) subs;
              count = int (length subs')
          in (count,
              if subs' = [] then b\<lparr>channels := AList.delete channel (channels b)\<rparr>
              else b\<lparr>channels := AList.update channel subs' (channels b)\<rparr>))"

text \<open>The iterator loop over the channels: the names left, and the channels kept.\<close>

fun unsubscribe_loop ::
  "nat \<Rightarrow> (string \<times> 'w subscriber list) list \<Rightarrow> string list \<times> (string \<times> 'w subscriber list) list" where
  "unsubscribe_loop i [] = ([], [])"
| "unsubscribe_loop i ((ch, subs) # rest) =
     (let subs' = filter (\<lambda>s. sub_id s \<noteq> i) subs in
      case unsubscribe_loop i rest of
        (removed, kept) \<Rightarrow>
          (if length subs' \<noteq> length subs then ch # removed else removed,
           if subs' = [] then kept else (ch, subs') # kept))"

definition unsubscribe_all :: "nat \<Rightarrow> 'w pubsub_broker \<Rightarrow> string list \<times> 'w pubsub_broker" where
  "unsubscribe_all i b =
     (case unsubscribe_loop i (channels b) of (removed, kept) \<Rightarrow> (removed, b\<lparr>channels := kept\<rparr>))"

text \<open>
  \<open>publish_callbacks\<close> is the snapshot taken under the lock; the callbacks run afterwards, so the
  number of receivers is the length of the snapshot.
\<close>

definition publish_callbacks :: "string \<Rightarrow> 'w pubsub_broker \<Rightarrow> 'w list" where
  "publish_callbacks channel b =
     (case um_find (channels b) channel of None \<Rightarrow> [] | Some subs \<Rightarrow> map sub_write subs)"

definition publish :: "string \<Rightarrow> 'w pubsub_broker \<Rightarrow> int \<times> 'w list" where
  "publish channel b = (int (length (publish_callbacks channel b)), publish_callbacks channel b)"

section \<open>Invariant and abstraction\<close>

definition broker_ok :: "'w pubsub_broker \<Rightarrow> bool" where
  "broker_ok b \<longleftrightarrow> um_ok (channels b)
     \<and> (\<forall>(ch, subs)\<in>set (channels b). subs \<noteq> [] \<and> distinct (map sub_id subs))"

text \<open>Who is subscribed to what, with which callback.\<close>

definition subs_of :: "'w pubsub_broker \<Rightarrow> string \<Rightarrow> 'w subscriber list" where
  "subs_of b ch = (case um_find (channels b) ch of None \<Rightarrow> [] | Some subs \<Rightarrow> subs)"

definition subscriptions :: "'w pubsub_broker \<Rightarrow> (string \<times> nat) set" where
  "subscriptions b = {(ch, i). i \<in> sub_id ` set (subs_of b ch)}"

section \<open>Lemmas\<close>

lemma resubscribe_None: "resubscribe i w subs = None \<longleftrightarrow> i \<notin> sub_id ` set subs"
  by (induction subs) auto

lemma resubscribe_Some:
  "resubscribe i w subs = Some rs \<Longrightarrow> map sub_id rs = map sub_id subs"
  by (induction subs arbitrary: rs) (auto split: if_splits)

lemma resubscribe_others:
  "resubscribe i w subs = Some rs \<Longrightarrow> s \<in> set rs \<Longrightarrow> sub_id s \<noteq> i \<Longrightarrow> s \<in> set subs"
  by (induction subs arbitrary: rs) (auto split: if_splits)

lemma resubscribe_write:
  "resubscribe i w subs = Some rs \<Longrightarrow> distinct (map sub_id subs) \<Longrightarrow>
     s \<in> set rs \<Longrightarrow> sub_id s = i \<Longrightarrow> sub_write s = w"
proof (induction subs arbitrary: rs)
  case (Cons a subs)
  show ?case
  proof (cases "sub_id a = i")
    case True
    with Cons.prems have "s = a\<lparr>sub_write := w\<rparr> \<or> s \<in> set subs" by auto
    moreover from True Cons.prems have "s \<notin> set subs"
      by (metis distinct.simps(2) imageI list.simps(9) set_map)
    ultimately show ?thesis by auto
  next
    case False
    with Cons.prems Cons.IH show ?thesis by auto
  qed
qed simp

lemma broker_ok_find:
  "broker_ok b \<Longrightarrow> um_find (channels b) ch = Some subs \<Longrightarrow> subs \<noteq> [] \<and> distinct (map sub_id subs)"
  by (auto simp: broker_ok_def dest!: map_of_SomeD)

lemma broker_ok_update:
  "broker_ok b \<Longrightarrow> subs \<noteq> [] \<Longrightarrow> distinct (map sub_id subs) \<Longrightarrow>
     broker_ok (b\<lparr>channels := AList.update ch subs (channels b)\<rparr>)"
  using set_update_subset [of ch subs "channels b"] by (auto simp: broker_ok_def um.invar_assign)

lemma broker_ok_delete: "broker_ok b \<Longrightarrow> broker_ok (b\<lparr>channels := AList.delete ch (channels b)\<rparr>)"
  using set_delete_subset [of ch "channels b"] by (auto simp: broker_ok_def um.invar_erase)

lemma subs_of_ok: "broker_ok b \<Longrightarrow> distinct (map sub_id (subs_of b ch))"
  by (auto simp: subs_of_def dest: broker_ok_find split: option.split)

lemma subs_after_subscribe:
  assumes "distinct (map sub_id subs)"
    and "subs' = (case resubscribe i w subs of
      Some rs \<Rightarrow> rs | None \<Rightarrow> subs @ [\<lparr>sub_id = i, sub_write = w\<rparr>])"
  shows "distinct (map sub_id subs')" "subs' \<noteq> []" "sub_id ` set subs' = insert i (sub_id ` set subs)"
proof -
  have "map sub_id subs' = (if i \<in> sub_id ` set subs then map sub_id subs else map sub_id subs @ [i])"
    using assms(2) resubscribe_Some [of i w subs] resubscribe_None [of i w subs]
    by (cases "resubscribe i w subs") simp_all
  then have ids: "map sub_id subs' = (if i \<in> set (map sub_id subs) then map sub_id subs else map sub_id subs @ [i])"
    by simp
  with assms(1) show "distinct (map sub_id subs')" and "subs' \<noteq> []"
    by (auto split: if_splits)
  from arg_cong [OF ids, of set] show "sub_id ` set subs' = insert i (sub_id ` set subs)"
    by (auto split: if_splits)
qed

lemma subscribe_eq:
  "subscribe ch i w b =
     (let subs' = (case resubscribe i w (subs_of b ch) of
        Some rs \<Rightarrow> rs | None \<Rightarrow> subs_of b ch @ [\<lparr>sub_id = i, sub_write = w\<rparr>])
      in (int (length subs'), b\<lparr>channels := AList.update ch subs' (channels b)\<rparr>))"
  unfolding subscribe_def subs_of_def Let_def ..

lemma subscribe_ok: "broker_ok b \<Longrightarrow> broker_ok (snd (subscribe ch i w b))"
  using subs_after_subscribe(1,2) [OF subs_of_ok [of b ch] refl, of i w]
  by (simp add: subscribe_eq Let_def broker_ok_update)

lemma unsubscribe_ok: "broker_ok b \<Longrightarrow> broker_ok (snd (unsubscribe ch i b))"
  by (auto simp: unsubscribe_def Let_def distinct_map_filter dest: broker_ok_find
      intro!: broker_ok_update broker_ok_delete split: option.split)

lemma unsubscribe_loop_eq:
  "unsubscribe_loop i m =
     (map fst (filter (\<lambda>(ch, subs). i \<in> sub_id ` set subs) m),
      filter (\<lambda>(ch, subs). subs \<noteq> []) (map (\<lambda>(ch, subs). (ch, filter (\<lambda>s. sub_id s \<noteq> i) subs)) m))"
proof (induction i m rule: unsubscribe_loop.induct)
  case (2 i ch subs rest)
  have "filter (\<lambda>s. sub_id s = i) subs = [] \<longleftrightarrow> i \<notin> sub_id ` set subs"
    by (auto simp: filter_empty_conv)
  then have "length (filter (\<lambda>s. sub_id s \<noteq> i) subs) = length subs \<longleftrightarrow> i \<notin> sub_id ` set subs"
    using sum_length_filter_compl [of "\<lambda>s. sub_id s = i" subs] by (simp flip: length_0_conv) arith
  with 2 show ?case
    by (simp add: Let_def)
qed simp

lemma subs_of_unsubscribe_loop:
  "um_ok m \<Longrightarrow>
     map_of (snd (unsubscribe_loop i m)) ch =
       (case map_of m ch of
          None \<Rightarrow> None
        | Some subs \<Rightarrow> let subs' = filter (\<lambda>s. sub_id s \<noteq> i) subs in if subs' = [] then None else Some subs')"
proof (induction i m rule: unsubscribe_loop.induct)
  case (2 i c subs rest)
  then have "um_ok rest" and "map_of rest c = None"
    by (simp_all add: um_ok_def map_of_eq_None_iff)
  with 2 show ?case
    by (auto simp: Let_def split: prod.splits option.splits)
qed simp

lemma subs_of_subscribe:
  "subs_of (snd (subscribe ch i w b)) ch' =
     (if ch' = ch
      then (case resubscribe i w (subs_of b ch) of
              Some rs \<Rightarrow> rs
            | None \<Rightarrow> subs_of b ch @ [\<lparr>sub_id = i, sub_write = w\<rparr>])
      else subs_of b ch')"
  by (simp add: subscribe_eq Let_def) (simp add: subs_of_def)

lemma subs_of_unsubscribe:
  "subs_of (snd (unsubscribe ch i b)) ch' =
     (if ch' = ch then filter (\<lambda>s. sub_id s \<noteq> i) (subs_of b ch) else subs_of b ch')"
  by (simp add: unsubscribe_def subs_of_def Let_def split: option.split)

lemma subs_of_unsubscribe_all:
  "broker_ok b \<Longrightarrow> subs_of (snd (unsubscribe_all i b)) ch = filter (\<lambda>s. sub_id s \<noteq> i) (subs_of b ch)"
  using subs_of_unsubscribe_loop [of "channels b" i ch]
  by (auto simp: unsubscribe_all_def subs_of_def broker_ok_def split_def Let_def
      split: option.splits if_splits)

lemma unsubscribe_all_ok: "broker_ok b \<Longrightarrow> broker_ok (snd (unsubscribe_all i b))"
proof -
  assume ok: "broker_ok b"
  then have "distinct (map fst (map (\<lambda>(ch, subs). (ch, filter (\<lambda>s. sub_id s \<noteq> i) subs)) (channels b)))"
    by (simp add: broker_ok_def um_ok_def comp_def split_def)
  with ok show ?thesis
    by (auto simp: broker_ok_def um_ok_def unsubscribe_all_def unsubscribe_loop_eq distinct_map_filter
        simp del: map_map)
qed

lemma subscriptions_subscribe:
  assumes "broker_ok b"
  shows "subscriptions (snd (subscribe ch i w b)) = insert (ch, i) (subscriptions b)"
proof -
  have "sub_id ` set (subs_of (snd (subscribe ch i w b)) c) =
      (if c = ch then insert i (sub_id ` set (subs_of b ch)) else sub_id ` set (subs_of b c))" for c
    using subs_after_subscribe(3) [OF subs_of_ok [OF assms, of ch] refl, of i w]
    by (simp add: subs_of_subscribe)
  then show ?thesis
    unfolding subscriptions_def by (auto split: if_splits)
qed

lemma subscriptions_unsubscribe:
  "subscriptions (snd (unsubscribe ch i b)) = subscriptions b - {(ch, i)}"
  by (auto simp: subscriptions_def subs_of_unsubscribe split: if_splits)

lemma subscriptions_unsubscribe_all:
  "broker_ok b \<Longrightarrow> subscriptions (snd (unsubscribe_all i b)) = {(ch, j) \<in> subscriptions b. j \<noteq> i}"
  by (auto simp: subscriptions_def subs_of_unsubscribe_all)

lemma subscribers_card:
  "broker_ok b \<Longrightarrow> length (subs_of b ch) = card {i. (ch, i) \<in> subscriptions b}"
  using distinct_card [OF subs_of_ok [of b ch]] by (simp add: subscriptions_def)

lemma unsubscribe_all_left:
  "broker_ok b \<Longrightarrow> set (fst (unsubscribe_all i b)) = {ch. (ch, i) \<in> subscriptions b}"
  by (force simp: unsubscribe_all_def unsubscribe_loop_eq subscriptions_def subs_of_def broker_ok_def
      um_ok_def dest: map_of_is_SomeI map_of_SomeD split: option.splits)

section \<open>Properties\<close>

text \<open>
  C25: The broker implements a set of subscriptions. Subscribing adds one pair and answers the number
  of subscribers the channel then has, subscribing twice counts once; unsubscribing removes the
  pair and answers the number left; leaving everything removes all pairs of the connection and
  names the channels left. Every operation keeps the registry well formed: no empty channel, no
  duplicate subscriber.
\<close>

theorem broker_refines:
  assumes "broker_ok b"
  shows "broker_ok (snd (subscribe ch i w b))
    \<and> subscriptions (snd (subscribe ch i w b)) = insert (ch, i) (subscriptions b)
    \<and> fst (subscribe ch i w b) = int (card {j. (ch, j) \<in> insert (ch, i) (subscriptions b)})
    \<and> broker_ok (snd (unsubscribe ch i b))
    \<and> subscriptions (snd (unsubscribe ch i b)) = subscriptions b - {(ch, i)}
    \<and> fst (unsubscribe ch i b) = int (card {j. (ch, j) \<in> subscriptions b - {(ch, i)}})
    \<and> broker_ok (snd (unsubscribe_all i b))
    \<and> subscriptions (snd (unsubscribe_all i b)) = {(c, j) \<in> subscriptions b. j \<noteq> i}
    \<and> set (fst (unsubscribe_all i b)) = {c. (c, i) \<in> subscriptions b}"
proof -
  have "fst (subscribe ch i w b) = int (length (subs_of (snd (subscribe ch i w b)) ch))"
    by (simp add: subs_of_subscribe) (simp add: subscribe_eq Let_def)
  moreover have "fst (unsubscribe ch i b) = int (length (subs_of (snd (unsubscribe ch i b)) ch))"
    by (simp add: subs_of_unsubscribe)
      (simp add: unsubscribe_def subs_of_def Let_def split: option.split)
  ultimately show ?thesis
    using subscribers_card [OF subscribe_ok [OF assms], of ch i w ch]
      subscribers_card [OF unsubscribe_ok [OF assms], of ch i ch] assms
    by (simp only: subscribe_ok unsubscribe_ok unsubscribe_all_ok subscriptions_subscribe
        subscriptions_unsubscribe subscriptions_unsubscribe_all unsubscribe_all_left simp_thms)
qed

theorem broker_refines_witness:
  "fst (subscribe ''news'' 1 () empty_broker) = 1"
  using broker_refines [of empty_broker "''news''" 1 "()"]
  by (simp add: broker_ok_def empty_broker_def um_ok_def subscriptions_def subs_of_def)

end
