(* ===== verification/Pubsub_Cmds.thy ===== *)
theory Pubsub_Cmds
  imports Commands Server_Stats Pubsub_Broker
begin

text \<open>
  The objects the handlers share, and \<^verbatim>\<open>PUBLISH\<close> of
  \<^verbatim>\<open>commands/handlers/pubsub_cmds.cpp\<close>. The callback a connection registers captures the
  connection and the channel, so it is that pair; calling it runs \<^verbatim>\<open>Connection::push_message\<close>,
  which posts a write of the message frame to the event loop. \<open>ctx_posted\<close> is the queue of the
  posted writes, oldest first.
\<close>

section \<open>Definitions\<close>

type_synonym write_fn = "nat \<times> string"

record server_ctx =
  ctx_store :: kv_store
  ctx_stats :: server_stats
  ctx_broker :: "write_fn pubsub_broker"
  ctx_posted :: "(nat \<times> string) list"

text \<open>The objects a server starts with: an empty store and no subscription.\<close>

definition initial_ctx :: "server_stats \<Rightarrow> server_ctx" where
  "initial_ctx st = \<lparr>ctx_store = kv_empty, ctx_stats = st, ctx_broker = empty_broker, ctx_posted = []\<rparr>"

definition make_message_frame :: "string \<Rightarrow> string \<Rightarrow> string" where
  "make_message_frame channel message =
     serialize (RespArray [RespBulkString ''message'', RespBulkString channel, RespBulkString message])"

definition make_subscribe_reply :: "string \<Rightarrow> string \<Rightarrow> int \<Rightarrow> string" where
  "make_subscribe_reply kind channel count =
     serialize (RespArray [RespBulkString kind, RespBulkString channel, RespInteger count])"

definition push_message :: "write_fn \<Rightarrow> string \<Rightarrow> (nat \<times> string) list \<Rightarrow> (nat \<times> string) list" where
  "push_message w message posted =
     (case w of (conn, channel) \<Rightarrow> posted @ [(conn, make_message_frame channel message)])"

definition cmd_publish :: "command \<Rightarrow> clock \<Rightarrow> server_ctx \<Rightarrow> reply \<times> server_ctx" where
  "cmd_publish c clk x =
     (if length (cmd_args c) \<noteq> 2
      then (Inr (RespError (''ERR wrong number of arguments for '' @ [CHR 0x27] @ ''publish'' @ [CHR 0x27]
                            @ '' command'')), x)
      else
        (case publish (cmd_args c ! 0) (ctx_broker x) of
           (count, callbacks) \<Rightarrow>
             (Inr (RespInteger count),
              x\<lparr>ctx_posted := foldl (\<lambda>posted w. push_message w (cmd_args c ! 1) posted)
                               (ctx_posted x) callbacks\<rparr>)))"

section \<open>Lemmas\<close>

lemma foldl_push_message:
  "foldl (\<lambda>posted w. push_message w m posted) q ws =
     q @ map (\<lambda>(conn, ch). (conn, make_message_frame ch m)) ws"
  by (induction ws arbitrary: q) (auto simp: push_message_def)

lemma cmd_publish_store [simp]:
  "ctx_store (snd (cmd_publish c clk x)) = ctx_store x"
  "ctx_stats (snd (cmd_publish c clk x)) = ctx_stats x"
  "ctx_broker (snd (cmd_publish c clk x)) = ctx_broker x"
  by (simp_all add: cmd_publish_def publish_def)

text \<open>
  Every callback in the registry delivers to the connection it is registered for, on the channel it
  is registered under.
\<close>

definition callbacks_ok :: "write_fn pubsub_broker \<Rightarrow> bool" where
  "callbacks_ok b \<longleftrightarrow> (\<forall>ch. \<forall>s\<in>set (subs_of b ch). sub_write s = (sub_id s, ch))"

lemma callbacks_ok_subs: "callbacks_ok b \<Longrightarrow> s \<in> set (subs_of b ch) \<Longrightarrow> sub_write s = (sub_id s, ch)"
  by (simp add: callbacks_ok_def)

lemma callbacks_ok_subscribe:
  assumes "broker_ok b" and "callbacks_ok b"
  shows "callbacks_ok (snd (subscribe ch i (i, ch) b))"
proof -
  have "sub_write s = (sub_id s, c)" if s: "s \<in> set (subs_of (snd (subscribe ch i (i, ch) b)) c)" for c s
  proof (cases "c = ch \<and> resubscribe i (i, ch) (subs_of b ch) \<noteq> None")
    case True
    then obtain rs where rs: "resubscribe i (i, ch) (subs_of b ch) = Some rs" and "c = ch"
      by blast
    with s have "s \<in> set rs"
      by (simp add: subs_of_subscribe)
    with resubscribe_others [OF rs] resubscribe_write [OF rs subs_of_ok [OF assms(1)]] assms(2) \<open>c = ch\<close>
    show ?thesis
      by (cases "sub_id s = i") (auto dest: callbacks_ok_subs)
  next
    case False
    with s assms(2) show ?thesis
      by (auto simp: subs_of_subscribe dest: callbacks_ok_subs split: if_splits)
  qed
  then show ?thesis by (simp add: callbacks_ok_def)
qed

lemma callbacks_ok_unsubscribe: "callbacks_ok b \<Longrightarrow> callbacks_ok (snd (unsubscribe ch i b))"
  by (auto simp: callbacks_ok_def subs_of_unsubscribe split: if_splits)

lemma callbacks_ok_unsubscribe_all:
  "broker_ok b \<Longrightarrow> callbacks_ok b \<Longrightarrow> callbacks_ok (snd (unsubscribe_all i b))"
  by (simp add: callbacks_ok_def subs_of_unsubscribe_all)

lemma publish_callbacks_eq:
  "callbacks_ok b \<Longrightarrow> publish_callbacks ch b = map (\<lambda>s. (sub_id s, ch)) (subs_of b ch)"
  using callbacks_ok_subs [of b _ ch] by (auto simp: publish_callbacks_def subs_of_def split: option.splits)

text \<open>A registry with one channel and two subscribers, for the examples.\<close>

definition two_subscribers :: "write_fn pubsub_broker" where
  "two_subscribers =
     \<lparr>channels = [(''news'', [\<lparr>sub_id = 7, sub_write = (7, ''news'')\<rparr>, \<lparr>sub_id = 8, sub_write = (8, ''news'')\<rparr>])]\<rparr>"

lemma two_subscribers:
  "broker_ok two_subscribers" "callbacks_ok two_subscribers"
  "subscriptions two_subscribers = {(''news'', 7), (''news'', 8)}"
proof -
  have subs: "subs_of two_subscribers ch =
      (if ch = ''news'' then [\<lparr>sub_id = 7, sub_write = (7, ''news'')\<rparr>, \<lparr>sub_id = 8, sub_write = (8, ''news'')\<rparr>] else [])" for ch
    by (simp add: subs_of_def two_subscribers_def)
  show "broker_ok two_subscribers"
    by (simp add: broker_ok_def um_ok_def two_subscribers_def)
  show "callbacks_ok two_subscribers"
    by (simp add: callbacks_ok_def subs)
  have "sub_id ` set (subs_of two_subscribers ch) = (if ch = ''news'' then {7, 8} else {})" for ch
    by (cases "ch = ''news''") (simp_all add: subs)
  then show "subscriptions two_subscribers = {(''news'', 7), (''news'', 8)}"
    by (auto simp: subscriptions_def split: if_splits)
qed

section \<open>Properties\<close>

text \<open>
  C26: \<^verbatim>\<open>PUBLISH\<close> reaches every subscriber of the channel exactly once, and nobody else: it posts one
  message frame, carrying the channel and the message, to each of them and answers how many they
  are. Frames posted earlier stay in front, and neither the store nor the registry changes.
\<close>

theorem publish_exactly_once:
  assumes "broker_ok (ctx_broker x)" and "callbacks_ok (ctx_broker x)"
  shows "\<exists>ids. distinct ids \<and> set ids = {i. (ch, i) \<in> subscriptions (ctx_broker x)}
    \<and> cmd_publish \<lparr>cmd_name = n, cmd_args = [ch, msg]\<rparr> clk x =
       (Inr (RespInteger (int (length ids))),
        x\<lparr>ctx_posted := ctx_posted x @ map (\<lambda>i. (i, make_message_frame ch msg)) ids\<rparr>)"
  using subs_of_ok [OF assms(1), of ch]
  by (intro exI [of _ "map sub_id (subs_of (ctx_broker x) ch)"])
    (simp add: cmd_publish_def publish_def publish_callbacks_eq [OF assms(2)] foldl_push_message
      subscriptions_def comp_def)

theorem publish_exactly_once_witness:
  "let x = (initial_ctx (initial_stats 0))\<lparr>ctx_broker := two_subscribers\<rparr> in
   \<exists>ids. distinct ids \<and> set ids = {7, 8}
     \<and> cmd_publish \<lparr>cmd_name = ''PUBLISH'', cmd_args = [''news'', ''hi'']\<rparr> (\<lambda>i. 0) x =
        (Inr (RespInteger (int (length ids))),
         x\<lparr>ctx_posted := ctx_posted x @ map (\<lambda>i. (i, make_message_frame ''news'' ''hi'')) ids\<rparr>)"
proof -
  have "{i. (''news'', i) \<in> subscriptions two_subscribers} = {7, 8}"
    by (auto simp: two_subscribers(3))
  with publish_exactly_once [of "(initial_ctx (initial_stats 0))\<lparr>ctx_broker := two_subscribers\<rparr>"
      "''news''" "''PUBLISH''" "''hi''" "\<lambda>i. 0"] two_subscribers(1,2)
  show ?thesis
    by (simp only: Let_def) simp
qed

end
