(* ===== verification/Dispatcher.thy ===== *)
theory Dispatcher
  imports Generic_Cmds String_Cmds List_Cmds Set_Cmds Hash_Cmds Pubsub_Cmds
begin

text \<open>
  \<^verbatim>\<open>commands/dispatcher.cpp\<close>: the table from command names to handlers, and the registration
  functions at the end of every handler file. \<^verbatim>\<open>emplace\<close> keeps the first handler registered under
  a name. A handler that captures the server's statistics or the broker reads them from the shared
  context.
\<close>

section \<open>Definitions\<close>

type_synonym handler_fn = "command \<Rightarrow> clock \<Rightarrow> server_ctx \<Rightarrow> reply \<times> server_ctx"
type_synonym dispatcher = "(string, handler_fn) unordered_map"

definition register_handler :: "string \<Rightarrow> handler_fn \<Rightarrow> dispatcher \<Rightarrow> dispatcher" where
  "register_handler n fn d = um_emplace n fn d"

definition dispatch :: "dispatcher \<Rightarrow> command \<Rightarrow> clock \<Rightarrow> server_ctx \<Rightarrow> reply \<times> server_ctx" where
  "dispatch d c clk x =
     (case um_find d (cmd_name c) of
        None \<Rightarrow> (Inr (RespError (''ERR unknown command '' @ [CHR 0x27] @ cmd_name c @ [CHR 0x27])), x)
      | Some fn \<Rightarrow> fn c clk x)"

text \<open>A handler on the store alone, as a handler on the shared context.\<close>

definition on_store :: "store_handler \<Rightarrow> handler_fn" where
  "on_store h c clk x = (case h c clk (ctx_store x) of (r, s') \<Rightarrow> (r, x\<lparr>ctx_store := s'\<rparr>))"

definition with_stats :: "(server_stats \<Rightarrow> store_handler) \<Rightarrow> handler_fn" where
  "with_stats h c clk x = on_store (h (ctx_stats x)) c clk x"

definition register_generic :: "(int \<Rightarrow> int \<Rightarrow> string) \<Rightarrow> dispatcher \<Rightarrow> dispatcher" where
  "register_generic double_div d =
     register_handler ''METRICS'' (with_stats (cmd_metrics double_div))
     (register_handler ''READY'' (with_stats cmd_ready)
     (register_handler ''INFO'' (with_stats cmd_info)
     (register_handler ''HEALTH'' (on_store cmd_health)
     (register_handler ''PERSIST'' (on_store cmd_persist)
     (register_handler ''TTL'' (on_store cmd_ttl)
     (register_handler ''EXPIRE'' (on_store cmd_expire)
     (register_handler ''EXISTS'' (on_store cmd_exists)
     (register_handler ''DEL'' (on_store cmd_del)
     (register_handler ''PING'' (on_store cmd_ping) d)))))))))"

definition register_string :: "dispatcher \<Rightarrow> dispatcher" where
  "register_string d =
     register_handler ''DECRBY'' (on_store cmd_decrby)
     (register_handler ''INCRBY'' (on_store cmd_incrby)
     (register_handler ''DECR'' (on_store cmd_decr)
     (register_handler ''INCR'' (on_store cmd_incr)
     (register_handler ''GET'' (on_store cmd_get)
     (register_handler ''SET'' (on_store cmd_set) d)))))"

definition register_list :: "dispatcher \<Rightarrow> dispatcher" where
  "register_list d =
     register_handler ''LINDEX'' (on_store cmd_lindex)
     (register_handler ''LRANGE'' (on_store cmd_lrange)
     (register_handler ''LLEN'' (on_store cmd_llen)
     (register_handler ''RPOP'' (on_store cmd_rpop)
     (register_handler ''LPOP'' (on_store cmd_lpop)
     (register_handler ''RPUSH'' (on_store cmd_rpush)
     (register_handler ''LPUSH'' (on_store cmd_lpush) d))))))"

definition register_set :: "dispatcher \<Rightarrow> dispatcher" where
  "register_set d =
     register_handler ''SCARD'' (on_store cmd_scard)
     (register_handler ''SISMEMBER'' (on_store cmd_sismember)
     (register_handler ''SMEMBERS'' (on_store cmd_smembers)
     (register_handler ''SREM'' (on_store cmd_srem)
     (register_handler ''SADD'' (on_store cmd_sadd) d))))"

definition register_hash :: "dispatcher \<Rightarrow> dispatcher" where
  "register_hash d =
     register_handler ''HLEN'' (on_store cmd_hlen)
     (register_handler ''HEXISTS'' (on_store cmd_hexists)
     (register_handler ''HGETALL'' (on_store cmd_hgetall)
     (register_handler ''HDEL'' (on_store cmd_hdel)
     (register_handler ''HGET'' (on_store cmd_hget)
     (register_handler ''HSET'' (on_store cmd_hset) d)))))"

definition register_pubsub :: "dispatcher \<Rightarrow> dispatcher" where
  "register_pubsub d = register_handler ''PUBLISH'' cmd_publish d"

text \<open>\<open>has_broker\<close> says whether the broker pointer is non-null.\<close>

definition make_default :: "(int \<Rightarrow> int \<Rightarrow> string) \<Rightarrow> bool \<Rightarrow> dispatcher" where
  "make_default double_div has_broker =
     (let d = register_hash (register_set (register_list (register_string (register_generic double_div []))))
      in if has_broker then register_pubsub d else d)"

section \<open>The default table\<close>

lemmas register_defs = register_generic_def register_string_def register_list_def register_set_def
  register_hash_def register_pubsub_def register_handler_def um_emplace_def

lemma make_default_table:
  "make_default double_div has_broker =
     [(''PING'', on_store cmd_ping), (''DEL'', on_store cmd_del), (''EXISTS'', on_store cmd_exists),
      (''EXPIRE'', on_store cmd_expire), (''TTL'', on_store cmd_ttl), (''PERSIST'', on_store cmd_persist),
      (''HEALTH'', on_store cmd_health), (''INFO'', with_stats cmd_info),
      (''READY'', with_stats cmd_ready), (''METRICS'', with_stats (cmd_metrics double_div)),
      (''SET'', on_store cmd_set), (''GET'', on_store cmd_get), (''INCR'', on_store cmd_incr),
      (''DECR'', on_store cmd_decr), (''INCRBY'', on_store cmd_incrby), (''DECRBY'', on_store cmd_decrby),
      (''LPUSH'', on_store cmd_lpush), (''RPUSH'', on_store cmd_rpush), (''LPOP'', on_store cmd_lpop),
      (''RPOP'', on_store cmd_rpop), (''LLEN'', on_store cmd_llen), (''LRANGE'', on_store cmd_lrange),
      (''LINDEX'', on_store cmd_lindex), (''SADD'', on_store cmd_sadd), (''SREM'', on_store cmd_srem),
      (''SMEMBERS'', on_store cmd_smembers), (''SISMEMBER'', on_store cmd_sismember),
      (''SCARD'', on_store cmd_scard), (''HSET'', on_store cmd_hset), (''HGET'', on_store cmd_hget),
      (''HDEL'', on_store cmd_hdel), (''HGETALL'', on_store cmd_hgetall),
      (''HEXISTS'', on_store cmd_hexists), (''HLEN'', on_store cmd_hlen)]
     @ (if has_broker then [(''PUBLISH'', cmd_publish)] else [])"
  by (simp add: make_default_def register_defs)

section \<open>The contract of a table entry\<close>

text \<open>
  What the connection and the replay rely on for every handler in the table: it keeps the store
  well formed and tidy and does not touch the statistics or the broker.
\<close>

locale ctx_handler =
  fixes f :: handler_fn
  assumes keeps_store_ok: "kv_ok (ctx_store x) \<Longrightarrow> kv_ok (ctx_store (snd (f c clk x)))"
    and keeps_store_tidy: "kv_ok (ctx_store x) \<Longrightarrow> kv_tidy (ctx_store x) \<Longrightarrow>
      kv_tidy (ctx_store (snd (f c clk x)))"
    and keeps_stats: "ctx_stats (snd (f c clk x)) = ctx_stats x"
    and keeps_broker: "ctx_broker (snd (f c clk x)) = ctx_broker x"

text \<open>
  Most handlers cannot tell whether an expired entry has been swept; \<^verbatim>\<open>INFO\<close> and
  \<^verbatim>\<open>METRICS\<close> can, because they report the number of entries.
\<close>

locale sweep_blind = ctx_handler +
  assumes swept_reply: "kv_ok (ctx_store x) \<Longrightarrow> mono clk \<Longrightarrow> t \<le> clk 0 \<Longrightarrow>
      fst (f c clk (x\<lparr>ctx_store := sweep t (ctx_store x)\<rparr>)) = fst (f c clk x)"
    and swept_view: "kv_ok (ctx_store x) \<Longrightarrow> mono clk \<Longrightarrow> t \<le> clk 0 \<Longrightarrow> (\<And>i. clk i \<le> T) \<Longrightarrow>
      live T (ctx_store (snd (f c clk (x\<lparr>ctx_store := sweep t (ctx_store x)\<rparr>)))) =
      live T (ctx_store (snd (f c clk x)))"

sublocale sound_handler \<subseteq> ctx: sweep_blind "on_store h"
  by unfold_locales
    (simp_all add: on_store_def split_def keeps_ok keeps_tidy sweep_before)

lemma with_stats_blind: "(\<And>st. sound_handler (h st)) \<Longrightarrow> sweep_blind (with_stats h)"
  by unfold_locales
    (simp_all add: with_stats_def on_store_def split_def sound_handler.keeps_ok
      sound_handler.keeps_tidy sound_handler.sweep_before)

lemma with_stats_pure: "(\<And>st c clk s. snd (h st c clk s) = s) \<Longrightarrow> ctx_handler (with_stats h)"
  by unfold_locales (simp_all add: with_stats_def on_store_def split_def)

interpretation publish: sweep_blind cmd_publish
proof (unfold_locales, goal_cases)
  case (6 x clk t T c)
  then show ?case by (simp add: kv.sweep_view order_trans [OF 6(3) 6(4)])
qed (simp_all add: cmd_publish_def publish_def)

lemmas blind_entries =
  ping.ctx.sweep_blind_axioms del.ctx.sweep_blind_axioms exists.ctx.sweep_blind_axioms
  expire.ctx.sweep_blind_axioms ttl.ctx.sweep_blind_axioms persist.ctx.sweep_blind_axioms
  health.ctx.sweep_blind_axioms with_stats_blind [OF ready.sound_handler_axioms]
  set.ctx.sweep_blind_axioms get.ctx.sweep_blind_axioms incr.ctx.sweep_blind_axioms
  decr.ctx.sweep_blind_axioms incrby.ctx.sweep_blind_axioms decrby.ctx.sweep_blind_axioms
  lpush.ctx.sweep_blind_axioms rpush.ctx.sweep_blind_axioms lpop.ctx.sweep_blind_axioms
  rpop.ctx.sweep_blind_axioms llen.ctx.sweep_blind_axioms lrange.ctx.sweep_blind_axioms
  lindex.ctx.sweep_blind_axioms sadd.ctx.sweep_blind_axioms srem.ctx.sweep_blind_axioms
  smembers.ctx.sweep_blind_axioms sismember.ctx.sweep_blind_axioms scard.ctx.sweep_blind_axioms
  hset.ctx.sweep_blind_axioms hget.ctx.sweep_blind_axioms hdel.ctx.sweep_blind_axioms
  hgetall.ctx.sweep_blind_axioms hexists.ctx.sweep_blind_axioms hlen.ctx.sweep_blind_axioms
  publish.sweep_blind_axioms

lemma make_default_all_blind:
  "list_all (\<lambda>(n, f). n \<noteq> ''INFO'' \<longrightarrow> n \<noteq> ''METRICS'' \<longrightarrow> sweep_blind f) (make_default double_div has_broker)"
  by (simp add: make_default_table blind_entries)

lemma make_default_blind:
  "um_find (make_default double_div has_broker) n = Some f \<Longrightarrow> n \<noteq> ''INFO'' \<Longrightarrow> n \<noteq> ''METRICS'' \<Longrightarrow>
     sweep_blind f"
  using make_default_all_blind [of double_div has_broker]
  by (auto simp: list_all_iff dest!: map_of_SomeD)

lemma make_default_sound:
  "um_find (make_default double_div has_broker) n = Some f \<Longrightarrow> ctx_handler f"
proof (cases "n = ''INFO'' \<or> n = ''METRICS''")
  case True
  moreover assume "um_find (make_default double_div has_broker) n = Some f"
  ultimately have "f = with_stats cmd_info \<or> f = with_stats (cmd_metrics double_div)"
    by (auto simp: make_default_table)
  then show ?thesis
    by (auto intro: with_stats_pure info_pure metrics_pure)
next
  case False
  moreover assume "um_find (make_default double_div has_broker) n = Some f"
  ultimately show ?thesis
    using make_default_blind sweep_blind.axioms(1) by blast
qed

lemma dispatch_cases:
  obtains (unknown) "um_find d (cmd_name c) = None" "snd (dispatch d c clk x) = x"
  | (known) f where "um_find d (cmd_name c) = Some f" "dispatch d c clk x = f c clk x"
  by (cases "um_find d (cmd_name c)") (simp_all add: dispatch_def)

lemma dispatch_keeps:
  fixes double_div has_broker
  defines "d \<equiv> make_default double_div has_broker"
  shows "kv_ok (ctx_store x) \<Longrightarrow> kv_ok (ctx_store (snd (dispatch d c clk x)))"
    and "kv_ok (ctx_store x) \<Longrightarrow> kv_tidy (ctx_store x) \<Longrightarrow> kv_tidy (ctx_store (snd (dispatch d c clk x)))"
    and "ctx_stats (snd (dispatch d c clk x)) = ctx_stats x"
    and "ctx_broker (snd (dispatch d c clk x)) = ctx_broker x"
  unfolding d_def
  by (rule dispatch_cases [of "make_default double_div has_broker" c clk x];
      auto dest: make_default_sound simp: ctx_handler.keeps_store_ok ctx_handler.keeps_store_tidy
        ctx_handler.keeps_stats ctx_handler.keeps_broker)+

section \<open>Properties\<close>

text \<open>
  C15: No command can corrupt the store. Whatever command with whatever arguments is dispatched, the
  keys of the map stay distinct, sets and hashes stay free of duplicates, no key is left with an
  empty list, set or hash, and neither the statistics nor the subscriptions change.
\<close>

theorem dispatch_safe:
  assumes "kv_ok (ctx_store x)" and "kv_tidy (ctx_store x)"
  shows "case dispatch (make_default double_div has_broker) c clk x of (r, x') \<Rightarrow>
    kv_ok (ctx_store x') \<and> kv_tidy (ctx_store x') \<and> ctx_stats x' = ctx_stats x \<and> ctx_broker x' = ctx_broker x"
  using assms dispatch_keeps [where x = x and c = c and clk = clk] by (simp add: split_def)

theorem dispatch_safe_witness:
  "case dispatch (make_default (\<lambda>a b. []) True) \<lparr>cmd_name = ''LPUSH'', cmd_args = [''k'', ''v'']\<rparr> (\<lambda>i. 0)
        (initial_ctx (initial_stats 0)) of (r, x') \<Rightarrow>
     kv_ok (ctx_store x') \<and> kv_tidy (ctx_store x') \<and> ctx_stats x' = ctx_stats (initial_ctx (initial_stats 0))
     \<and> ctx_broker x' = ctx_broker (initial_ctx (initial_stats 0))"
  by (rule dispatch_safe) (simp_all add: initial_ctx_def)

text \<open>
  Clients cannot tell when the expiry thread runs. With a clock that does not go back, running
  a sweep just before a command changes neither its reply nor what can be seen after it; the
  exceptions are \<^verbatim>\<open>INFO\<close> and \<^verbatim>\<open>METRICS\<close>, which report the size of the map.
\<close>

lemma dispatch_sweep_invisible:
  fixes clk :: clock
  assumes "kv_ok (ctx_store x)" and "mono clk" and "t \<le> clk 0" and "\<And>i. clk i \<le> T"
    and "cmd_name c \<notin> {''INFO'', ''METRICS''}"
  shows "fst (dispatch (make_default double_div has_broker) c clk (x\<lparr>ctx_store := sweep t (ctx_store x)\<rparr>)) =
      fst (dispatch (make_default double_div has_broker) c clk x)
    \<and> live T (ctx_store (snd (dispatch (make_default double_div has_broker) c clk
                                (x\<lparr>ctx_store := sweep t (ctx_store x)\<rparr>)))) =
      live T (ctx_store (snd (dispatch (make_default double_div has_broker) c clk x)))"
proof (cases "um_find (make_default double_div has_broker) (cmd_name c)")
  case None
  then show ?thesis
    using assms(1) order_trans [OF assms(3,4)] by (simp add: dispatch_def kv.sweep_view)
next
  case (Some f)
  then have "sweep_blind f"
    using make_default_blind assms(5) by blast
  with Some show ?thesis
    using sweep_blind.swept_reply [of f, OF _ assms(1-3)] sweep_blind.swept_view [of f, OF _ assms(1-4)]
    by (simp add: dispatch_def)
qed

end
