(* ===== verification/Aof.thy ===== *)
theory Aof
  imports Resp_Parser Dispatcher
begin

text \<open>
  \<^verbatim>\<open>persistence/aof_persistence.cpp\<close>: the append-only file. The state is the file on disk
  (\<open>None\<close> when there is no file) and whether the output stream is open. Whether the operating system
  lets a file be opened for appending or for reading, or resized, is a parameter of the operations that ask for it.
\<close>

section \<open>Definitions\<close>

record aof =
  aof_disk :: "string option"
  aof_is_open :: bool

text \<open>The constructor opens for appending, which creates a missing file.\<close>

definition aof_new :: "bool \<Rightarrow> string option \<Rightarrow> aof" where
  "aof_new can_open disk =
     \<lparr>aof_disk = (if can_open then Some (case disk of None \<Rightarrow> [] | Some content \<Rightarrow> content) else disk),
      aof_is_open = can_open\<rparr>"

definition is_open :: "aof \<Rightarrow> bool" where
  [simp]: "is_open a = aof_is_open a"

definition reopen_append_stream :: "bool \<Rightarrow> aof \<Rightarrow> bool \<times> aof" where
  "reopen_append_stream can_open a = (can_open, a\<lparr>aof_is_open := can_open\<rparr>)"

definition truncate_to :: "bool \<Rightarrow> bool \<Rightarrow> nat \<Rightarrow> aof \<Rightarrow> bool \<times> aof" where
  "truncate_to can_resize can_open bytes a =
     (if \<not> can_resize then (False, a\<lparr>aof_is_open := False\<rparr>)
      else
        (can_open,
         a\<lparr>aof_disk := map_option (take bytes) (aof_disk a), aof_is_open := can_open\<rparr>))"

definition write_commands :: "string list" where
  "write_commands =
     [''SET'', ''DEL'', ''EXPIRE'', ''PERSIST'', ''INCR'', ''INCRBY'', ''DECR'', ''DECRBY'',
      ''LPUSH'', ''RPUSH'', ''LPOP'', ''RPOP'', ''SADD'', ''SREM'', ''HSET'', ''HDEL'']"

definition is_write_command :: "string \<Rightarrow> bool" where
  "is_write_command n \<longleftrightarrow> us_count n write_commands > 0"

definition command_frame :: "command \<Rightarrow> resp_value" where
  "command_frame c = RespArray (RespBulkString (cmd_name c) # map RespBulkString (cmd_args c))"

definition aof_log :: "command \<Rightarrow> aof \<Rightarrow> aof" where
  "aof_log c a =
     (let wire = serialize (command_frame c) in
      if aof_is_open a then a\<lparr>aof_disk := map_option (\<lambda>content. content @ wire) (aof_disk a)\<rparr>
      else a)"

text \<open>
  The replay loop. The first round feeds the whole file, the others an empty chunk; \<open>clks n\<close> is the
  clock the \<open>n\<close>-th command reads. The result tells whether the parser threw, how many commands were
  dispatched, what is left in the parser's buffer, and the shared objects.
\<close>

function replay_loop ::
  "dispatcher \<Rightarrow> (nat \<Rightarrow> clock) \<Rightarrow> string \<Rightarrow> string \<Rightarrow> nat \<Rightarrow> server_ctx
     \<Rightarrow> bool \<times> nat \<times> string \<times> server_ctx" where
  "replay_loop d clks buf chunk count x =
     (case feed buf chunk of
        (Inl ex, buf') \<Rightarrow> (True, count, buf', x)
      | (Inr None, buf') \<Rightarrow> (False, count, buf', x)
      | (Inr (Some val), buf') \<Rightarrow>
          (case parse_command val of
             None \<Rightarrow> replay_loop d clks buf' [] count x
           | Some c \<Rightarrow> replay_loop d clks buf' [] (Suc count) (snd (dispatch d c (clks count) x))))"
  by pat_completeness auto

termination
  by (relation "measure (\<lambda>(d, clks, buf, chunk, count, x). length buf + length chunk)")
     (auto dest!: feed_shrinks [OF sym])

declare replay_loop.simps [simp del]

definition replay ::
  "bool \<Rightarrow> bool \<Rightarrow> bool \<Rightarrow> dispatcher \<Rightarrow> (nat \<Rightarrow> clock) \<Rightarrow> aof \<Rightarrow> server_ctx \<Rightarrow> nat \<times> aof \<times> server_ctx" where
  "replay can_read can_resize can_open d clks a x =
     (case if can_read then aof_disk a else None of
        None \<Rightarrow> (0, a, x)
      | Some content \<Rightarrow>
          if content = [] then (0, a, x)
          else
            (case replay_loop d clks [] content 0 x of
               (parse_failed, count, buf, x') \<Rightarrow>
                 let trailing_bytes = buffered_size buf in
                 if parse_failed \<or> trailing_bytes > 0
                 then (count, snd (truncate_to can_resize can_open (length content - trailing_bytes) a), x')
                 else (count, snd (reopen_append_stream can_open a), x')))"

text \<open>
  What a connection does with a command that is neither \<^verbatim>\<open>AUTH\<close> nor a subscription: write it to
  the log if it is a write command, then dispatch it. \<open>None\<close> is the null pointer of a server that
  runs without a log.
\<close>

definition execute_logged ::
  "dispatcher \<Rightarrow> command \<Rightarrow> clock \<Rightarrow> aof option \<times> server_ctx \<Rightarrow> reply \<times> aof option \<times> server_ctx" where
  "execute_logged d c clk st =
     (case st of (a, x) \<Rightarrow>
        let a' = (case a of
                    None \<Rightarrow> None
                  | Some f \<Rightarrow> Some (if is_write_command (cmd_name c) then aof_log c f else f))
        in (case dispatch d c clk x of (r, x') \<Rightarrow> (r, a', x')))"

section \<open>The replay loop as a run of commands\<close>

text \<open>Dispatching a list of commands, the \<open>n\<close>-th with the \<open>n\<close>-th clock.\<close>

fun run_commands :: "dispatcher \<Rightarrow> (nat \<Rightarrow> clock) \<Rightarrow> nat \<Rightarrow> command list \<Rightarrow> server_ctx \<Rightarrow> server_ctx" where
  "run_commands d clks n [] x = x"
| "run_commands d clks n (c # cs) x = run_commands d clks (Suc n) cs (snd (dispatch d c (clks n) x))"

fun commands_of :: "resp_value list \<Rightarrow> command list" where
  "commands_of [] = []"
| "commands_of (v # vs) = (case parse_command v of None \<Rightarrow> commands_of vs | Some c \<Rightarrow> c # commands_of vs)"

lemma replay_loop_eq:
  "replay_loop d clks buf chunk n x =
     (case drain (buf @ chunk) of
        (vs, ex, r) \<Rightarrow>
          (ex \<noteq> None, n + length (commands_of vs), r, run_commands d clks n (commands_of vs) x))"
proof (induction d clks buf chunk n x rule: replay_loop.induct)
  case (1 d clks buf chunk n x)
  have feed: "feed (buf @ chunk) [] = feed buf chunk"
    by (simp add: feed_def)
  show ?case
  proof (cases "feed buf chunk")
    case (Pair r buf')
    show ?thesis
    proof (cases "\<exists>v. r = Inr (Some v)")
      case True
      then obtain v where r: "r = Inr (Some v)" by blast
      have "drain (buf @ chunk) = (case drain buf' of (vs, ex, rest) \<Rightarrow> (v # vs, ex, rest))"
        by (subst drain.simps) (simp add: feed Pair r)
      with "1.IH" Pair r show ?thesis
        by (cases "parse_command v")
          (auto simp: replay_loop.simps [of d clks buf chunk] split: prod.splits)
    next
      case False
      then have "drain (buf @ chunk) = ([], case r of Inl ex \<Rightarrow> Some ex | Inr _ \<Rightarrow> None, buf')"
        by (subst drain.simps) (auto simp: feed Pair split: sum.split option.split)
      with False Pair show ?thesis
        by (auto simp: replay_loop.simps [of d clks buf chunk] split: sum.split option.split)
    qed
  qed
qed

section \<open>Frames\<close>

text \<open>
  A command the log can carry: its name is in upper case, as \<^verbatim>\<open>parse_command\<close> leaves it, and
  its frame is representable on the wire.
\<close>

definition command_ok :: "command \<Rightarrow> bool" where
  "command_ok c \<longleftrightarrow> upper (cmd_name c) = cmd_name c \<and> resp_ok (command_frame c)"

text \<open>What decides \<open>command_ok\<close> of a concrete command.\<close>

lemmas command_ok_eval = command_ok_def command_frame_def toupper_def vector_max_size_def int64_max_def

lemma parse_command_frame: "command_ok c \<Longrightarrow> parse_command (command_frame c) = Some c"
  by (simp add: command_ok_def command_frame_def parse_command_def)

lemma commands_of_frames: "\<forall>c\<in>set cs. command_ok c \<Longrightarrow> commands_of (map command_frame cs) = cs"
  by (induction cs) (simp_all add: parse_command_frame)

definition frames :: "command list \<Rightarrow> string" where
  "frames cs = concat (map (serialize \<circ> command_frame) cs)"

lemma frames_simps [simp]:
  "frames [] = []" "frames (c # cs) = serialize (command_frame c) @ frames cs"
  "frames (cs @ ds) = frames cs @ frames ds"
  by (simp_all add: frames_def)

text \<open>
  A frame that was only partly written is incomplete for the parser: a complete result on the
  prefix would be the result on the whole frame, which ends after the prefix.
\<close>

lemma torn_value_incomplete:
  assumes "resp_ok v" and "serialize v = p @ q" and "q \<noteq> []"
  shows "\<not> complete (parse p 0)"
proof
  assume "complete (parse p 0)"
  then have "parse (serialize v) 0 = parse p 0"
    by (simp add: assms(2) parse_append(1))
  moreover have "parse (serialize v) 0 = Inr (Some v, length (serialize v))"
    using parse_serialize_at [OF assms(1), of "[]" "[]"] by simp
  ultimately have "length (serialize v) \<le> length p"
    using parse_bounds(1) by metis
  with assms show False by simp
qed

lemma drain_incomplete: "\<not> complete (parse p 0) \<Longrightarrow> drain p = ([], None, p)"
  by (auto simp: complete_def intro: resp.drn_more)

lemma drain_frames:
  assumes "\<forall>c\<in>set cs. command_ok c"
  shows "drain (frames cs @ rest) =
    (case drain rest of (ws, ex, r) \<Rightarrow> (map command_frame cs @ ws, ex, r))"
  using assms drain_serialized [of "map command_frame cs" rest]
  by (simp add: frames_def command_ok_def)

lemma drain_seen:
  assumes "\<forall>c\<in>set cs. command_ok c" and "drain r = ([], None, r)"
  shows "drain (frames cs @ r) = (map command_frame cs, None, r)"
  using drain_frames [OF assms(1), of r] assms(2) by simp

lemma drain_empty [simp]: "drain [] = ([], None, [])"
  by (rule resp.drn_more [of _ 0]) (simp add: parse.simps)

section \<open>The log of a run\<close>

lemma aof_log_disk:
  "aof_is_open a \<Longrightarrow> aof_disk a = Some content \<Longrightarrow>
     aof_is_open (aof_log c a) \<and> aof_disk (aof_log c a) = Some (content @ serialize (command_frame c))"
  by (simp add: aof_log_def)

lemma fold_aof_log:
  "aof_is_open a \<Longrightarrow> aof_disk a = Some content \<Longrightarrow>
     aof_is_open (fold aof_log cs a) \<and> aof_disk (fold aof_log cs a) = Some (content @ frames cs)"
proof (induction cs arbitrary: a content)
  case Nil
  then show ?case by simp
next
  case (Cons c cs)
  with aof_log_disk [OF Cons.prems, of c] show ?case by simp
qed

lemma replay_frames:
  assumes "\<forall>c\<in>set cs. command_ok c" and "aof_disk a = Some (frames cs @ tail)"
    and "drain tail = ([], exn, tail)" and "can_resize" and "can_read"
  shows "replay can_read can_resize can_open d clks a x =
    (length cs,
     a\<lparr>aof_disk := Some (frames cs),
       aof_is_open := if frames cs @ tail = [] then aof_is_open a else can_open\<rparr>,
     run_commands d clks 0 cs x)"
proof (cases "frames cs @ tail = []")
  case True
  then have "cs = []" and "tail = []"
    by (cases cs; simp)+
  with assms show ?thesis by (simp add: replay_def)
next
  case False
  have "replay_loop d clks [] (frames cs @ tail) 0 x =
      (exn \<noteq> None, length cs, tail, run_commands d clks 0 cs x)"
    by (simp add: replay_loop_eq drain_frames assms(1,3) commands_of_frames)
  moreover have "tail = [] \<Longrightarrow> exn = None"
    using assms(3) by auto
  ultimately show ?thesis
    using False assms(2,4,5)
    by (auto simp: replay_def buffered_size_def truncate_to_def reopen_append_stream_def)
qed

lemma replay_clean:
  assumes "\<forall>c\<in>set cs. command_ok c" and "aof_is_open a" and "aof_disk a = Some (frames cs)"
  shows "replay True True True d clks a x = (length cs, a, run_commands d clks 0 cs x)"
  using replay_frames [of cs a "[]" None True True True] assms by (cases a) simp

text \<open>
  An unreadable log does not stop the server: nothing is executed, and the stream stays open for
  appending behind whatever the file holds.
\<close>

lemma replay_unreadable: "replay False can_resize can_open d clks a x = (0, a, x)"
  by (simp add: replay_def)

text \<open>A tail with no complete value at its start is left as it is by the parser.\<close>

lemma drain_no_value:
  assumes "\<nexists>v e. parse tail 0 = Inr (Some v, e)"
  obtains exn where "drain tail = ([], exn, tail)"
  using assms that
  by (cases tail rule: resp.prs_cases) (auto dest: resp.drn_failure resp.drn_more)

section \<open>Which commands change the store\<close>

lemmas reading_pure = ping.pure exists.pure ttl.pure health.pure ready.pure info_pure metrics_pure
  get.pure llen.pure lrange.pure lindex.pure smembers.pure sismember.pure scard.pure
  hget.pure hgetall.pure hexists.pure hlen.pure

lemma make_default_reads:
  "list_all (\<lambda>(n, f). \<not> is_write_command n \<longrightarrow> (\<forall>c clk x. ctx_store (snd (f c clk x)) = ctx_store x))
     (make_default double_div has_broker)"
  by (simp add: make_default_table is_write_command_def write_commands_def us_count_def
      on_store_def with_stats_def split_def reading_pure)

lemma make_default_local:
  "list_all (\<lambda>(n, f). \<forall>c clk x y. ctx_store x = ctx_store y \<longrightarrow>
       ctx_store (snd (f c clk x)) = ctx_store (snd (f c clk y)))
     (make_default double_div has_broker)"
  by (simp add: make_default_table on_store_def with_stats_def split_def reading_pure)

lemma dispatch_reads:
  "\<not> is_write_command (cmd_name c) \<Longrightarrow>
     ctx_store (snd (dispatch (make_default double_div has_broker) c clk x)) = ctx_store x"
  using make_default_reads [of double_div has_broker]
  by (auto simp: dispatch_def list_all_iff dest!: map_of_SomeD split: option.split)

lemma dispatch_local:
  "ctx_store x = ctx_store y \<Longrightarrow>
     ctx_store (snd (dispatch (make_default double_div has_broker) c clk x)) =
     ctx_store (snd (dispatch (make_default double_div has_broker) c clk y))"
proof (cases "um_find (make_default double_div has_broker) (cmd_name c)")
  case (Some f)
  from map_of_SomeD [OF this] make_default_local [of double_div has_broker]
  have "\<forall>c clk x y. ctx_store x = ctx_store y \<longrightarrow> ctx_store (snd (f c clk x)) = ctx_store (snd (f c clk y))"
    unfolding list_all_iff by blast
  moreover assume "ctx_store x = ctx_store y"
  ultimately have "ctx_store (snd (f c clk x)) = ctx_store (snd (f c clk y))"
    by blast
  with Some show ?thesis by (simp add: dispatch_def)
qed (simp add: dispatch_def)

section \<open>A run and its replay\<close>

text \<open>Executing a sequence of commands, each with its clock, and its log.\<close>

fun serve_all ::
  "dispatcher \<Rightarrow> (command \<times> clock) list \<Rightarrow> aof option \<times> server_ctx \<Rightarrow> aof option \<times> server_ctx" where
  "serve_all d [] st = st"
| "serve_all d ((c, clk) # rest) st = serve_all d rest (snd (execute_logged d c clk st))"

definition writes_of :: "(command \<times> clock) list \<Rightarrow> (command \<times> clock) list" where
  "writes_of ccs = filter (\<lambda>(c, clk). is_write_command (cmd_name c)) ccs"

lemma serve_all_log:
  "fst (serve_all d ccs (Some a, x)) = Some (fold aof_log (map fst (writes_of ccs)) a)"
  by (induction ccs arbitrary: a x)
    (auto simp: writes_of_def execute_logged_def split: prod.splits)

lemma serve_all_store:
  fixes double_div has_broker
  defines "d \<equiv> make_default double_div has_broker"
  assumes "ctx_store x = ctx_store y"
    and "\<And>i. i < length (writes_of ccs) \<Longrightarrow> clks (n + i) = snd (writes_of ccs ! i)"
  shows "ctx_store (snd (serve_all d ccs (a, x))) =
    ctx_store (run_commands d clks n (map fst (writes_of ccs)) y)"
  using assms(2,3)
proof (induction ccs arbitrary: a x y n)
  case Nil
  then show ?case by (simp add: writes_of_def)
next
  case (Cons cc ccs)
  obtain c clk where cc: "cc = (c, clk)" by (cases cc)
  show ?case
  proof (cases "is_write_command (cmd_name c)")
    case True
    then have ws: "writes_of ((c, clk) # ccs) = (c, clk) # writes_of ccs"
      by (simp add: writes_of_def)
    then have "clks n = clk"
      using Cons.prems(2) [of 0] by (simp add: cc)
    moreover have "clks (Suc n + i) = snd (writes_of ccs ! i)" if "i < length (writes_of ccs)" for i
      using Cons.prems(2) [of "Suc i"] that by (simp add: ws cc)
    ultimately show ?thesis
      using Cons.IH [where n = "Suc n"] dispatch_local [OF Cons.prems(1)]
      by (simp add: ws cc d_def execute_logged_def split_def)
  next
    case False
    then have ws: "writes_of ((c, clk) # ccs) = writes_of ccs"
      by (simp add: writes_of_def)
    have "ctx_store (snd (dispatch d c clk x)) = ctx_store y"
      using dispatch_reads [OF False] Cons.prems(1) by (simp add: d_def)
    with Cons.IH Cons.prems(2) show ?thesis
      by (simp add: ws cc execute_logged_def split_def)
  qed
qed

section \<open>Properties\<close>

text \<open>
  C20: The log records everything that matters: a command that is not in the list of write commands
  never changes the store, whatever its arguments and the state of the server.
\<close>

theorem reads_change_nothing:
  "\<not> is_write_command (cmd_name c) \<Longrightarrow>
     ctx_store (snd (dispatch (make_default double_div has_broker) c clk x)) = ctx_store x"
  by (rule dispatch_reads)

theorem reads_change_nothing_witness:
  "ctx_store (snd (dispatch (make_default (\<lambda>a b. []) True) \<lparr>cmd_name = ''GET'', cmd_args = [''k'']\<rparr> (\<lambda>i. 0)
     (initial_ctx (initial_stats 0)))) = ctx_store (initial_ctx (initial_stats 0))"
  by (rule reads_change_nothing) (simp add: is_write_command_def write_commands_def us_count_def)

text \<open>
  C5: Restarting restores the data. Let a server execute any sequence of commands that fit on the
  wire, with a log that was empty when it started. Replaying the log on a store equal to the
  initial one, with the clock readings the write commands had, dispatches exactly the write
  commands, leaves the log as it is, and ends with the store the server had.
\<close>

theorem replay_restores_store:
  fixes double_div has_broker
  defines "d \<equiv> make_default double_div has_broker"
  assumes "aof_is_open a" and "aof_disk a = Some []" and "\<forall>(c, clk)\<in>set ccs. command_ok c"
    and "serve_all d ccs (Some a, x) = (Some a', x')"
    and "ctx_store y = ctx_store x" and "\<And>i. i < length (writes_of ccs) \<Longrightarrow> clks i = snd (writes_of ccs ! i)"
  shows "case replay True True True d clks a' y of (count, a'', y') \<Rightarrow>
    count = length (writes_of ccs) \<and> a'' = a' \<and> ctx_store y' = ctx_store x'"
proof -
  let ?ws = "map fst (writes_of ccs)"
  have ok: "\<forall>c\<in>set ?ws. command_ok c"
    using assms(4) by (auto simp: writes_of_def)
  have log: "aof_is_open a'" "aof_disk a' = Some (frames ?ws)"
    using fold_aof_log [OF assms(2,3), of ?ws] serve_all_log [of d ccs a x] assms(5) by auto
  have "ctx_store x' = ctx_store (run_commands d clks 0 ?ws y)"
    using serve_all_store [of x y ccs clks 0 double_div has_broker "Some a"] assms(5,6,7)
    by (simp add: d_def)
  moreover have "replay True True True d clks a' y = (length ?ws, a', run_commands d clks 0 ?ws y)"
    by (rule replay_clean [OF ok log])
  ultimately show ?thesis
    by simp
qed

theorem replay_restores_store_witness:
  "let d = make_default (\<lambda>a b. []) True;
       set_k = \<lparr>cmd_name = ''SET'', cmd_args = [''k'', ''v'']\<rparr>;
       get_k = \<lparr>cmd_name = ''GET'', cmd_args = [''k'']\<rparr>;
       x = initial_ctx (initial_stats 0);
       (a', x') = serve_all d [(set_k, \<lambda>i. 3), (get_k, \<lambda>i. 4)] (Some (aof_new True None), x)
   in \<exists>f. a' = Some f
      \<and> (case replay True True True d (\<lambda>n i. 3) f x of (count, a'', y') \<Rightarrow>
           count = 1 \<and> a'' = f \<and> ctx_store y' = ctx_store x')"
proof -
  let ?d = "make_default (\<lambda>a b. []) True" and ?x = "initial_ctx (initial_stats 0)"
  let ?ccs = "[(\<lparr>cmd_name = ''SET'', cmd_args = [''k'', ''v'']\<rparr>, \<lambda>i. 3), (\<lparr>cmd_name = ''GET'', cmd_args = [''k'']\<rparr>, \<lambda>i. 4)]"
  have writes: "writes_of ?ccs = [(\<lparr>cmd_name = ''SET'', cmd_args = [''k'', ''v'']\<rparr>, \<lambda>i. 3)]"
    by (simp add: writes_of_def is_write_command_def write_commands_def us_count_def)
  obtain f x' where run: "serve_all ?d ?ccs (Some (aof_new True None), ?x) = (Some f, x')"
    using serve_all_log [of ?d ?ccs "aof_new True None" ?x] by (metis prod.collapse)
  have "case replay True True True ?d (\<lambda>n i. 3) f ?x of (count, a'', y') \<Rightarrow>
      count = length (writes_of ?ccs) \<and> a'' = f \<and> ctx_store y' = ctx_store x'"
  proof (rule replay_restores_store [OF _ _ _ run])
    show "\<forall>(c, clk)\<in>set ?ccs. command_ok c"
      by (simp add: command_ok_eval)
  qed (simp_all add: writes aof_new_def)
  with run show ?thesis
    by (simp add: writes)
qed

text \<open>
  C18: A crash in the middle of a write loses nothing that was complete. If the log holds complete
  commands followed by bytes that do not start with a complete value (a frame cut short, or
  garbage), replay executes exactly the complete commands and cuts the file back to them; commands
  logged afterwards are found by the next replay.
\<close>

theorem replay_recovers_tail:
  assumes "\<forall>c\<in>set (cs @ ds). command_ok c" and "aof_disk a = Some (frames cs @ tail)"
    and "\<nexists>v e. parse tail 0 = Inr (Some v, e)" and "tail \<noteq> []"
  shows "case replay True True True d clks a x of (count, a', x') \<Rightarrow>
    count = length cs \<and> aof_disk a' = Some (frames cs) \<and> x' = run_commands d clks 0 cs x
    \<and> (case replay True True True d clks' (fold aof_log ds a') y of (count', a'', y') \<Rightarrow>
         count' = length (cs @ ds) \<and> a'' = fold aof_log ds a' \<and> y' = run_commands d clks' 0 (cs @ ds) y)"
proof -
  obtain exn where "drain tail = ([], exn, tail)"
    using drain_no_value [OF assms(3)] by blast
  then have first: "replay True True True d clks a x =
      (length cs, a\<lparr>aof_disk := Some (frames cs), aof_is_open := True\<rparr>, run_commands d clks 0 cs x)"
    using replay_frames [of cs a tail exn] assms(1,2,4) by simp
  let ?a = "a\<lparr>aof_disk := Some (frames cs), aof_is_open := True\<rparr>"
  have "aof_is_open (fold aof_log ds ?a)" "aof_disk (fold aof_log ds ?a) = Some (frames (cs @ ds))"
    using fold_aof_log [of ?a "frames cs" ds] by simp_all
  then have "replay True True True d clks' (fold aof_log ds ?a) y =
      (length (cs @ ds), fold aof_log ds ?a, run_commands d clks' 0 (cs @ ds) y)"
    by (rule replay_clean [OF assms(1)])
  with first show ?thesis by simp
qed

theorem replay_recovers_tail_witness:
  "let a = \<lparr>aof_disk = Some (frames [\<lparr>cmd_name = ''INCR'', cmd_args = [''n'']\<rparr>] @ ''*1''), aof_is_open = True\<rparr> in
   case replay True True True [] (\<lambda>n i. 0) a (initial_ctx (initial_stats 0)) of (count, a', x') \<Rightarrow>
     count = 1 \<and> aof_disk a' = Some (frames [\<lparr>cmd_name = ''INCR'', cmd_args = [''n'']\<rparr>])"
proof -
  have "parse ''*1'' 0 = Inr (None, 0)"
    by code_simp
  then have "\<nexists>v e. parse ''*1'' 0 = Inr (Some v, e)"
    by simp
  moreover have "command_ok \<lparr>cmd_name = ''INCR'', cmd_args = [''n'']\<rparr>"
    by (simp add: command_ok_eval)
  ultimately show ?thesis
    using replay_recovers_tail [of "[\<lparr>cmd_name = ''INCR'', cmd_args = [''n'']\<rparr>]" "[]"
      "\<lparr>aof_disk = Some (frames [\<lparr>cmd_name = ''INCR'', cmd_args = [''n'']\<rparr>] @ ''*1''), aof_is_open = True\<rparr>"
      "''*1''" "[]" "\<lambda>n i. 0" "initial_ctx (initial_stats 0)" "\<lambda>n i. 0" "initial_ctx (initial_stats 0)"]
    by (auto split: prod.splits)
qed

text \<open>
  A command cut short is always recognised: no proper prefix of a frame that fits on the wire is
  taken for a complete value or for an error.
\<close>

lemma torn_frame_incomplete:
  "command_ok c \<Longrightarrow> serialize (command_frame c) = p @ q \<Longrightarrow> q \<noteq> [] \<Longrightarrow>
     feed [] p = (Inr None, p)"
  using torn_value_incomplete [of "command_frame c" p q]
  by (auto simp: command_ok_def feed_def complete_def)

end
