(* ===== verification/Connection.thy ===== *)
theory Connection
  imports Aof
begin

text \<open>
  \<^verbatim>\<open>server/connection.cpp\<close>: one client connection. Its methods run to completion on the event
  loop, so each is a function from state to state; the asynchronous operations they start are
  recorded in the state (\<open>read_in_progress\<close>, \<open>write_in_progress\<close> with the buffer \<open>write_buf\<close>,
  \<open>idle_armed\<close>) and their completion handlers are functions of their own. \<open>async_writes\<close> is the
  trace of the buffers handed to \<^verbatim>\<open>asio::async_write\<close>, in order.
\<close>

section \<open>Definitions\<close>

record connection =
  conn_id :: nat
  conn_has_stats :: bool
  conn_has_broker :: bool
  parser_buf :: string
  write_buf :: string
  write_queue :: "string list"
  requirepass :: string
  max_request_bytes :: nat
  idle_timeout :: nat
  max_pending_write_bytes :: nat
  pending_write_bytes :: nat
  authenticated :: bool
  close_after_write :: bool
  write_in_progress :: bool
  read_in_progress :: bool
  subscribed_channels :: "string unordered_set"
  socket_open :: bool
  idle_armed :: bool
  async_writes :: "string list"

text \<open>The constructor's work on the object itself; it also counts the client.\<close>

definition new_connection ::
  "nat \<Rightarrow> bool \<Rightarrow> bool \<Rightarrow> string \<Rightarrow> nat \<Rightarrow> nat \<Rightarrow> nat \<Rightarrow> connection" where
  "new_connection cid has_stats has_broker pass max_req idle max_pending =
     \<lparr>conn_id = cid, conn_has_stats = has_stats, conn_has_broker = has_broker, parser_buf = [],
      write_buf = [], write_queue = [], requirepass = pass, max_request_bytes = max_req,
      idle_timeout = idle, max_pending_write_bytes = max_pending, pending_write_bytes = 0,
      authenticated = (pass = []), close_after_write = False, write_in_progress = False,
      read_in_progress = False, subscribed_channels = [], socket_open = True, idle_armed = False,
      async_writes = []\<rparr>"

text \<open>\<^verbatim>\<open>Connection::create\<close> hands its arguments to the constructor and wraps the object in a shared pointer.\<close>

definition create :: "nat \<Rightarrow> bool \<Rightarrow> bool \<Rightarrow> string \<Rightarrow> nat \<Rightarrow> nat \<Rightarrow> nat \<Rightarrow> connection" where
  [simp]: "create cid has_stats has_broker pass max_req idle max_pending =
     new_connection cid has_stats has_broker pass max_req idle max_pending"

definition connection_constructed :: "connection \<Rightarrow> server_stats \<Rightarrow> server_stats" where
  "connection_constructed conn st =
     (if conn_has_stats conn then st\<lparr>connected_clients := wrap64 (connected_clients st + 1)\<rparr> else st)"

definition connection_destroyed :: "connection \<Rightarrow> server_ctx \<Rightarrow> server_ctx" where
  "connection_destroyed conn x =
     (let x' = (if conn_has_stats conn
                then x\<lparr>ctx_stats := (ctx_stats x)\<lparr>connected_clients :=
                         wrap64 (connected_clients (ctx_stats x) - 1)\<rparr>\<rparr>
                else x)
      in if conn_has_broker conn \<and> subscribed_channels conn \<noteq> []
         then x'\<lparr>ctx_broker := snd (unsubscribe_all (conn_id conn) (ctx_broker x'))\<rparr>
         else x')"

definition close_socket :: "connection \<Rightarrow> connection" where
  "close_socket conn = conn\<lparr>idle_armed := False, socket_open := False\<rparr>"

definition reset_idle_timer :: "connection \<Rightarrow> connection" where
  "reset_idle_timer conn =
     (if idle_timeout conn = 0 \<or> \<not> socket_open conn then conn else conn\<lparr>idle_armed := True\<rparr>)"

definition do_read :: "connection \<Rightarrow> connection" where
  "do_read conn =
     (if read_in_progress conn \<or> \<not> socket_open conn then conn else conn\<lparr>read_in_progress := True\<rparr>)"

definition start :: "connection \<Rightarrow> connection" where
  "start conn = do_read (reset_idle_timer conn)"

definition flush_write_queue :: "connection \<Rightarrow> connection" where
  "flush_write_queue conn =
     (if write_queue conn = [] \<or> \<not> socket_open conn then conn\<lparr>write_in_progress := False\<rparr>
      else conn\<lparr>write_in_progress := True, write_buf := hd (write_queue conn),
                write_queue := tl (write_queue conn),
                async_writes := async_writes conn @ [hd (write_queue conn)]\<rparr>)"

definition do_write :: "string \<Rightarrow> connection \<Rightarrow> connection" where
  "do_write data conn =
     (if \<not> socket_open conn then conn
      else if pending_write_bytes conn + length data > max_pending_write_bytes conn
      then close_socket conn
      else
        let conn' = conn\<lparr>pending_write_bytes := pending_write_bytes conn + length data,
                         write_queue := write_queue conn @ [data]\<rparr>
        in if write_in_progress conn' then conn' else flush_write_queue conn')"

text \<open>The completion handler of \<^verbatim>\<open>async_write\<close>: an error, or the number of bytes written.\<close>

definition on_write_complete :: "bool \<Rightarrow> nat \<Rightarrow> connection \<Rightarrow> connection" where
  "on_write_complete ec bytes conn =
     (if ec then close_socket conn
      else
        let conn1 = conn\<lparr>pending_write_bytes :=
                       (if pending_write_bytes conn \<ge> bytes then pending_write_bytes conn - bytes else 0)\<rparr>
        in if write_queue conn1 \<noteq> [] then flush_write_queue conn1
           else
             let conn2 = conn1\<lparr>write_in_progress := False\<rparr>
             in if close_after_write conn2 then close_socket conn2
                else do_read (reset_idle_timer conn2))"

text \<open>The completion handler of the idle timer.\<close>

definition on_idle_timer :: "bool \<Rightarrow> bool \<Rightarrow> connection \<Rightarrow> connection" where
  "on_idle_timer aborted ec conn =
     (if aborted \<or> \<not> socket_open conn then conn
      else if ec then conn\<lparr>idle_armed := False\<rparr> else close_socket conn)"

definition handle_auth :: "command \<Rightarrow> connection \<Rightarrow> resp_value \<times> connection" where
  "handle_auth c conn =
     (if length (cmd_args c) \<noteq> 1
      then (RespError (''ERR wrong number of arguments for '' @ [CHR 0x27] @ ''AUTH'' @ [CHR 0x27] @ '' command''), conn)
      else if requirepass conn = []
      then (RespError ''ERR AUTH called without any password configured'', conn)
      else if cmd_args c ! 0 \<noteq> requirepass conn then (RespError ''ERR invalid password'', conn)
      else (RespSimpleString ''OK'', conn\<lparr>authenticated := True\<rparr>))"

fun subscribe_loop ::
  "string list \<Rightarrow> string \<Rightarrow> connection \<Rightarrow> server_ctx \<Rightarrow> string \<times> connection \<times> server_ctx" where
  "subscribe_loop [] replies conn x = (replies, conn, x)"
| "subscribe_loop (channel # chs) replies conn x =
     (case subscribe channel (conn_id conn) (conn_id conn, channel) (ctx_broker x) of
        (count, b) \<Rightarrow>
          subscribe_loop chs (replies @ make_subscribe_reply ''subscribe'' channel count)
            (conn\<lparr>subscribed_channels := fst (us_insert channel (subscribed_channels conn))\<rparr>)
            (x\<lparr>ctx_broker := b\<rparr>))"

definition handle_subscribe :: "command \<Rightarrow> connection \<Rightarrow> server_ctx \<Rightarrow> connection \<times> server_ctx" where
  "handle_subscribe c conn x =
     (if \<not> conn_has_broker conn \<or> cmd_args c = []
      then (do_write (serialize (RespError ''ERR SUBSCRIBE requires at least one channel'')) conn, x)
      else
        (case subscribe_loop (cmd_args c) [] conn x of
           (replies, conn', x') \<Rightarrow> (do_write replies conn', x')))"

fun left_loop :: "string list \<Rightarrow> string \<Rightarrow> connection \<Rightarrow> string \<times> connection" where
  "left_loop [] replies conn = (replies, conn)"
| "left_loop (ch # chs) replies conn =
     left_loop chs (replies @ make_subscribe_reply ''unsubscribe'' ch 0)
       (conn\<lparr>subscribed_channels := fst (us_erase ch (subscribed_channels conn))\<rparr>)"

fun unsubscribe_args_loop ::
  "string list \<Rightarrow> string \<Rightarrow> connection \<Rightarrow> server_ctx \<Rightarrow> string \<times> connection \<times> server_ctx" where
  "unsubscribe_args_loop [] replies conn x = (replies, conn, x)"
| "unsubscribe_args_loop (channel # chs) replies conn x =
     (case unsubscribe channel (conn_id conn) (ctx_broker x) of
        (count, b) \<Rightarrow>
          unsubscribe_args_loop chs (replies @ make_subscribe_reply ''unsubscribe'' channel count)
            (conn\<lparr>subscribed_channels := fst (us_erase channel (subscribed_channels conn))\<rparr>)
            (x\<lparr>ctx_broker := b\<rparr>))"

definition handle_unsubscribe :: "command \<Rightarrow> connection \<Rightarrow> server_ctx \<Rightarrow> connection \<times> server_ctx" where
  "handle_unsubscribe c conn x =
     (if \<not> conn_has_broker conn then (do_read conn, x)
      else if cmd_args c = []
      then
        (case unsubscribe_all (conn_id conn) (ctx_broker x) of
           (chs, b) \<Rightarrow>
             (case left_loop chs [] conn of
                (replies, conn') \<Rightarrow>
                  (do_write (if chs = [] then replies @ make_subscribe_reply ''unsubscribe'' [] 0 else replies) conn',
                   x\<lparr>ctx_broker := b\<rparr>)))
      else
        (case unsubscribe_args_loop (cmd_args c) [] conn x of
           (replies, conn', x') \<Rightarrow> (do_write replies conn', x')))"

text \<open>
  The loop of \<^verbatim>\<open>handle_data\<close>: \<open>buf\<close> is the buffer of \<^verbatim>\<open>parser_\<close>, \<open>n\<close> numbers the commands
  and so the clocks they read. The result is the exception that left the loop, if
  any, the parser's buffer, the responses collected and the state.
\<close>

type_synonym conn_state = "connection \<times> aof option \<times> server_ctx"

definition count_command :: "connection \<Rightarrow> server_ctx \<Rightarrow> server_ctx" where
  "count_command conn x =
     (if conn_has_stats conn
      then x\<lparr>ctx_stats := (ctx_stats x)\<lparr>total_commands := wrap64 (total_commands (ctx_stats x) + 1)\<rparr>\<rparr>
      else x)"

text \<open>
  The body of the loop for one command: the exception it throws, if any, the response it adds and
  the state.
\<close>

definition handle_command ::
  "dispatcher \<Rightarrow> clock \<Rightarrow> command \<Rightarrow> conn_state \<Rightarrow> cpp_exn option \<times> string \<times> conn_state" where
  "handle_command d clk c st =
     (case st of (conn, a, x) \<Rightarrow>
        if cmd_name c = ''AUTH'' then
          (case handle_auth c conn of (r, conn') \<Rightarrow> (None, serialize r, conn', a, x))
        else if \<not> authenticated conn then
          (None, serialize (RespError ''NOAUTH Authentication required.''), conn, a, x)
        else if cmd_name c = ''SUBSCRIBE'' then
          (case handle_subscribe c conn x of (conn', x') \<Rightarrow> (None, [], conn', a, x'))
        else if cmd_name c = ''UNSUBSCRIBE'' then
          (case handle_unsubscribe c conn x of (conn', x') \<Rightarrow> (None, [], conn', a, x'))
        else
          (case execute_logged d c clk (a, x) of
             (Inl ex, a', x') \<Rightarrow> (Some ex, [], conn, a', x')
           | (Inr r, a', x') \<Rightarrow> (None, serialize r, conn, a', count_command conn x')))"

function handle_loop ::
  "dispatcher \<Rightarrow> (nat \<Rightarrow> clock) \<Rightarrow> nat \<Rightarrow> string \<Rightarrow> string \<Rightarrow> string \<Rightarrow> conn_state
     \<Rightarrow> cpp_exn option \<times> string \<times> string \<times> conn_state" where
  "handle_loop d clks n buf chunk responses st =
     (case feed buf chunk of
        (Inl ex, buf') \<Rightarrow> (Some ex, buf', responses, st)
      | (Inr None, buf') \<Rightarrow> (None, buf', responses, st)
      | (Inr (Some val), buf') \<Rightarrow>
          (case parse_command val of
             None \<Rightarrow>
               (None, reset buf',
                responses @ serialize (RespError ''ERR protocol error: expected command array''), st)
           | Some c \<Rightarrow>
               (case handle_command d (clks n) c st of
                  (Some ex, out, st') \<Rightarrow> (Some ex, buf', responses @ out, st')
                | (None, out, st') \<Rightarrow> handle_loop d clks (Suc n) buf' [] (responses @ out) st')))"
  by pat_completeness auto

termination
  by (relation "measure (\<lambda>(d, clks, n, buf, chunk, responses, st). length buf + length chunk)")
     (auto dest!: feed_shrinks [OF sym])

declare handle_loop.simps [simp del]

definition handle_data ::
  "dispatcher \<Rightarrow> (std_exn \<Rightarrow> string) \<Rightarrow> (nat \<Rightarrow> clock) \<Rightarrow> string \<Rightarrow> conn_state \<Rightarrow> conn_state" where
  "handle_data d lib clks chunk st =
     (case st of (conn, a, x) \<Rightarrow>
        if buffered_size (parser_buf conn) + length chunk > max_request_bytes conn
        then
          (do_write (serialize (RespError ''ERR max request size exceeded''))
             (conn\<lparr>close_after_write := True, parser_buf := reset (parser_buf conn)\<rparr>), a, x)
        else
          (case handle_loop d clks 0 (parser_buf conn) chunk [] (conn, a, x) of
             (exn, buf, responses, conn', a', x') \<Rightarrow>
               let (buf2, responses2) =
                     (case exn of
                        None \<Rightarrow> (buf, responses)
                      | Some ex \<Rightarrow> (reset buf, responses @ serialize (RespError (''ERR '' @ what_of lib ex))));
                   conn2 = conn'\<lparr>parser_buf := buf2\<rparr>
               in if responses2 \<noteq> [] then (do_write responses2 conn2, a', x') else (do_read conn2, a', x')))"

text \<open>The completion handler of the read: an error, or the bytes that arrived.\<close>

definition on_read_complete ::
  "dispatcher \<Rightarrow> (std_exn \<Rightarrow> string) \<Rightarrow> (nat \<Rightarrow> clock) \<Rightarrow> bool \<Rightarrow> string \<Rightarrow> conn_state \<Rightarrow> conn_state" where
  "on_read_complete d lib clks ec chunk st =
     (case st of (conn, a, x) \<Rightarrow>
        let conn1 = conn\<lparr>read_in_progress := False\<rparr> in
        if ec then (close_socket conn1, a, x)
        else handle_data d lib clks chunk (reset_idle_timer conn1, a, x))"

section \<open>The output side\<close>

text \<open>
  While the socket is open, \<open>pending_write_bytes\<close> is exactly the size of what is queued or being
  written, it respects the limit, and nothing waits in the queue unless a write is under way.
\<close>

definition in_flight :: "connection \<Rightarrow> nat" where
  "in_flight conn = (if write_in_progress conn then length (write_buf conn) else 0)"

definition conn_ok :: "connection \<Rightarrow> bool" where
  "conn_ok conn \<longleftrightarrow> (socket_open conn \<longrightarrow>
     pending_write_bytes conn = in_flight conn + sum_list (map length (write_queue conn))
     \<and> pending_write_bytes conn \<le> max_pending_write_bytes conn
     \<and> (\<not> write_in_progress conn \<longrightarrow> write_queue conn = []))"

text \<open>Everything accepted for writing so far, in order: what was started, then what is queued.\<close>

definition accepted :: "connection \<Rightarrow> string list" where
  "accepted conn = async_writes conn @ write_queue conn"

lemmas conn_io_defs = close_socket_def reset_idle_timer_def do_read_def flush_write_queue_def
  do_write_def on_write_complete_def on_idle_timer_def start_def Let_def

lemma conn_ok_new: "conn_ok (new_connection cid hs hb pass mr idle mp)"
  by (simp add: new_connection_def conn_ok_def in_flight_def)

lemma conn_ok_do_write: "conn_ok conn \<Longrightarrow> conn_ok (do_write data conn)"
  by (auto simp: conn_ok_def in_flight_def conn_io_defs)

lemma conn_ok_do_read: "conn_ok conn \<Longrightarrow> conn_ok (do_read conn)"
  by (auto simp: conn_ok_def in_flight_def conn_io_defs)

lemma conn_ok_close: "conn_ok (close_socket conn)"
  by (simp add: conn_ok_def close_socket_def)

lemma conn_ok_reset_idle: "conn_ok conn \<Longrightarrow> conn_ok (reset_idle_timer conn)"
  by (auto simp: conn_ok_def in_flight_def conn_io_defs)

lemma conn_ok_write_complete:
  assumes "conn_ok conn" and "write_in_progress conn"
  shows "conn_ok (on_write_complete ec (length (write_buf conn)) conn)"
proof (cases "write_queue conn")
  case Nil
  with assms show ?thesis
    by (auto simp: conn_ok_def in_flight_def conn_io_defs)
next
  case (Cons q qs)
  with assms show ?thesis
    by (auto simp: conn_ok_def in_flight_def conn_io_defs)
qed

lemma accepted_do_write:
  "accepted (do_write data conn) =
     (if socket_open conn \<and> pending_write_bytes conn + length data \<le> max_pending_write_bytes conn
      then accepted conn @ [data] else accepted conn)"
  by (cases "write_queue conn") (auto simp: accepted_def conn_io_defs)

lemma accepted_write_complete: "accepted (on_write_complete ec bytes conn) = accepted conn"
  by (cases "write_queue conn") (auto simp: accepted_def conn_io_defs)

text \<open>The input and output primitives leave the other fields of the connection alone.\<close>

lemma do_write_frame [simp]:
  "conn_id (do_write w conn) = conn_id conn"
  "conn_has_stats (do_write w conn) = conn_has_stats conn"
  "conn_has_broker (do_write w conn) = conn_has_broker conn"
  "parser_buf (do_write w conn) = parser_buf conn"
  "requirepass (do_write w conn) = requirepass conn"
  "authenticated (do_write w conn) = authenticated conn"
  "max_request_bytes (do_write w conn) = max_request_bytes conn"
  "subscribed_channels (do_write w conn) = subscribed_channels conn"
  by (simp_all add: conn_io_defs)

lemma do_read_frame [simp]:
  "conn_id (do_read conn) = conn_id conn"
  "conn_has_stats (do_read conn) = conn_has_stats conn"
  "conn_has_broker (do_read conn) = conn_has_broker conn"
  "parser_buf (do_read conn) = parser_buf conn"
  "requirepass (do_read conn) = requirepass conn"
  "authenticated (do_read conn) = authenticated conn"
  "max_request_bytes (do_read conn) = max_request_bytes conn"
  "subscribed_channels (do_read conn) = subscribed_channels conn"
  by (simp_all add: conn_io_defs)

section \<open>Subscriptions\<close>

text \<open>
  The three subscription loops touch, of the connection, only its set of channels.
\<close>

lemma subscribe_loop_conn:
  "subscribe_loop chs replies conn x = (replies', conn', x') \<Longrightarrow>
     \<exists>sc. conn' = conn\<lparr>subscribed_channels := sc\<rparr>"
proof (induction chs replies conn x rule: subscribe_loop.induct)
  case (1 replies conn x)
  then show ?case by (auto intro: exI [of _ "subscribed_channels conn"])
next
  case (2 channel chs replies conn x)
  then show ?case by (force split: prod.splits)
qed

lemma unsubscribe_args_loop_conn:
  "unsubscribe_args_loop chs replies conn x = (replies', conn', x') \<Longrightarrow>
     \<exists>sc. conn' = conn\<lparr>subscribed_channels := sc\<rparr>"
proof (induction chs replies conn x rule: unsubscribe_args_loop.induct)
  case (1 replies conn x)
  then show ?case by (auto intro: exI [of _ "subscribed_channels conn"])
next
  case (2 channel chs replies conn x)
  then show ?case by (force split: prod.splits)
qed

lemma left_loop_conn:
  "left_loop chs replies conn = (replies', conn') \<Longrightarrow> \<exists>sc. conn' = conn\<lparr>subscribed_channels := sc\<rparr>"
proof (induction chs replies conn rule: left_loop.induct)
  case (1 replies conn)
  then show ?case by (auto intro: exI [of _ "subscribed_channels conn"])
next
  case (2 ch chs replies conn)
  then show ?case by force
qed

lemma handle_subscribe_conn:
  obtains w sc where "fst (handle_subscribe c conn x) = do_write w (conn\<lparr>subscribed_channels := sc\<rparr>)"
proof (cases "\<not> conn_has_broker conn \<or> cmd_args c = []")
  case True
  then show ?thesis
    using that [of _ "subscribed_channels conn"] by (simp add: handle_subscribe_def)
next
  case False
  then show ?thesis
    using that subscribe_loop_conn [of "cmd_args c" "[]" conn x]
    by (cases "subscribe_loop (cmd_args c) [] conn x") (auto simp: handle_subscribe_def)
qed

lemma handle_unsubscribe_conn:
  obtains "fst (handle_unsubscribe c conn x) = do_read conn"
  | w sc where "fst (handle_unsubscribe c conn x) = do_write w (conn\<lparr>subscribed_channels := sc\<rparr>)"
proof (cases "\<not> conn_has_broker conn")
  case True
  then show ?thesis using that(1) by (simp add: handle_unsubscribe_def)
next
  case False
  show ?thesis
  proof (cases "cmd_args c = []")
    case True
    with False show ?thesis
      using that(2) left_loop_conn [of "fst (unsubscribe_all (conn_id conn) (ctx_broker x))" "[]" conn]
      by (cases "left_loop (fst (unsubscribe_all (conn_id conn) (ctx_broker x))) [] conn")
        (auto simp: handle_unsubscribe_def split_def)
  next
    case args: False
    with False show ?thesis
      using that(2) unsubscribe_args_loop_conn [of "cmd_args c" "[]" conn x]
      by (cases "unsubscribe_args_loop (cmd_args c) [] conn x") (auto simp: handle_unsubscribe_def)
  qed
qed

text \<open>What the handlers of the loop keep: a relation between a connection and a later one.\<close>

definition same_setup :: "connection \<Rightarrow> connection \<Rightarrow> bool" where
  "same_setup conn conn' \<longleftrightarrow>
     conn_id conn' = conn_id conn \<and> requirepass conn' = requirepass conn
     \<and> conn_has_stats conn' = conn_has_stats conn \<and> conn_has_broker conn' = conn_has_broker conn
     \<and> max_request_bytes conn' = max_request_bytes conn
     \<and> (socket_open conn' \<longrightarrow> socket_open conn)
     \<and> (authenticated conn \<longrightarrow> authenticated conn') \<and> (conn_ok conn \<longrightarrow> conn_ok conn')"

lemma same_setup_refl [simp]: "same_setup conn conn"
  by (simp add: same_setup_def)

lemma same_setup_trans: "same_setup a b \<Longrightarrow> same_setup b c \<Longrightarrow> same_setup a c"
  by (simp add: same_setup_def)

lemma conn_ok_fields [simp]:
  "conn_ok (conn\<lparr>subscribed_channels := sc\<rparr>) = conn_ok conn"
  "conn_ok (conn\<lparr>parser_buf := b\<rparr>) = conn_ok conn"
  "conn_ok (conn\<lparr>authenticated := au\<rparr>) = conn_ok conn"
  "conn_ok (conn\<lparr>close_after_write := cl\<rparr>) = conn_ok conn"
  "conn_ok (conn\<lparr>read_in_progress := rd\<rparr>) = conn_ok conn"
  "conn_ok (conn\<lparr>idle_armed := ia\<rparr>) = conn_ok conn"
  by (simp_all add: conn_ok_def in_flight_def)

lemma do_write_open: "socket_open (do_write w conn) \<Longrightarrow> socket_open conn"
  by (auto simp: conn_io_defs split: if_splits)

lemma do_read_open [simp]: "socket_open (do_read conn) = socket_open conn"
  by (auto simp: conn_io_defs)

lemma same_setup_subscribe:
  "same_setup conn (fst (handle_subscribe c conn x))"
  "authenticated (fst (handle_subscribe c conn x)) = authenticated conn"
  by (rule handle_subscribe_conn [of c conn x]; auto simp: same_setup_def conn_ok_do_write dest: do_write_open)+

lemma same_setup_unsubscribe:
  "same_setup conn (fst (handle_unsubscribe c conn x))"
  "authenticated (fst (handle_unsubscribe c conn x)) = authenticated conn"
  by (rule handle_unsubscribe_conn [of c conn x];
      auto simp: same_setup_def conn_ok_do_write conn_ok_do_read dest: do_write_open)+

lemma same_setup_auth: "same_setup conn (snd (handle_auth c conn))"
  by (simp add: handle_auth_def same_setup_def)

lemma handle_auth_rejects:
  "cmd_args c \<noteq> [requirepass conn] \<or> requirepass conn = [] \<Longrightarrow> snd (handle_auth c conn) = conn"
  by (cases "cmd_args c") (auto simp: handle_auth_def)

text \<open>One round of the loop, by what the parser delivers.\<close>

lemma handle_loop_stop:
  assumes "drain (buf @ chunk) = ([], exn, rest)"
  shows "handle_loop d clks n buf chunk resp st = (exn, rest, resp, st)"
proof -
  have feed: "feed (buf @ chunk) [] = feed buf chunk"
    by (simp add: feed_def)
  from assms show ?thesis
    by (subst (asm) drain.simps, subst handle_loop.simps)
      (auto simp: feed split: prod.splits sum.splits option.splits)
qed

lemma handle_loop_feed:
  assumes "drain (buf @ chunk) = (v # vs, exn, rest)"
  obtains buf' where "feed buf chunk = (Inr (Some v), buf')" "drain buf' = (vs, exn, rest)"
proof -
  have feed: "feed (buf @ chunk) [] = feed buf chunk"
    by (simp add: feed_def)
  from assms show ?thesis
    by (subst (asm) drain.simps)
      (auto simp: feed intro: that split: prod.splits sum.splits option.splits)
qed

lemma handle_loop_round:
  assumes "feed buf chunk = (Inr (Some val), buf')"
  shows "handle_loop d clks n buf chunk resp st =
    (case parse_command val of
       None \<Rightarrow> (None, [], resp @ serialize (RespError ''ERR protocol error: expected command array''), st)
     | Some c \<Rightarrow>
         (case handle_command d (clks n) c st of
            (Some ex, out, st') \<Rightarrow> (Some ex, buf', resp @ out, st')
          | (None, out, st') \<Rightarrow> handle_loop d clks (Suc n) buf' [] (resp @ out) st'))"
  by (subst handle_loop.simps) (simp only: assms prod.case sum.case option.case reset_def)

text \<open>
  A property every command keeps is kept by the loop; the commands come from values the wire
  format can carry.
\<close>

lemma handle_loop_parsed_invariant:
  assumes step: "\<And>clk v c st. resp_ok v \<Longrightarrow> parse_command v = Some c \<Longrightarrow> I st \<Longrightarrow>
      I (snd (snd (handle_command d clk c st)))"
    and "I st"
  shows "I (snd (snd (snd (handle_loop d clks n buf chunk resp st))))"
proof -
  obtain vs exn rest where "drain (buf @ chunk) = (vs, exn, rest)"
    by (cases "drain (buf @ chunk)")
  then show ?thesis using assms(2)
  proof (induction vs arbitrary: buf chunk n resp st)
    case Nil
    then show ?case by (simp add: handle_loop_stop)
  next
    case (Cons v vs)
    obtain buf' where f: "feed buf chunk = (Inr (Some v), buf')" and "drain buf' = (vs, exn, rest)"
      by (rule handle_loop_feed [OF Cons.prems(1)])
    then have IH: "I st' \<Longrightarrow> I (snd (snd (snd (handle_loop d clks (Suc n) buf' [] resp' st'))))" for resp' st'
      using Cons.IH [of buf' "[]"] by simp
    show ?case
    proof (cases "parse_command v")
      case None
      with Cons.prems(2) show ?thesis by (simp add: handle_loop_round [OF f])
    next
      case (Some c)
      with step [OF feed_ok [OF f] Some Cons.prems(2), of "clks n"] IH show ?thesis
        by (auto simp: handle_loop_round [OF f] split: prod.splits option.splits)
    qed
  qed
qed

lemma handle_loop_invariant:
  assumes "\<And>clk c st. I st \<Longrightarrow> I (snd (snd (handle_command d clk c st)))" and "I st"
  shows "I (snd (snd (snd (handle_loop d clks n buf chunk resp st))))"
  using handle_loop_parsed_invariant [where I = I] assms by blast

lemma handle_command_setup: "same_setup (fst st) (fst (snd (snd (handle_command d clk c st))))"
  using same_setup_auth [of "fst st" c] same_setup_subscribe(1) [of "fst st" c "snd (snd st)"]
    same_setup_unsubscribe(1) [of "fst st" c "snd (snd st)"]
  by (auto simp: handle_command_def split: prod.splits sum.splits)

lemma handle_loop_setup: "same_setup (fst st) (fst (snd (snd (snd (handle_loop d clks n buf chunk resp st)))))"
  by (rule handle_loop_invariant)
    (auto intro: same_setup_trans [OF _ handle_command_setup])

lemma handle_loop_buffer:
  "length (fst (snd (handle_loop d clks n buf chunk resp st))) \<le> length buf + length chunk"
proof (induction d clks n buf chunk resp st rule: handle_loop.induct)
  case (1 d clks n buf chunk resp st)
  show ?case
  proof (cases "\<exists>v buf'. feed buf chunk = (Inr (Some v), buf')")
    case True
    then obtain v buf' where f: "feed buf chunk = (Inr (Some v), buf')" by blast
    with feed_shrinks [OF f] "1.IH" [OF f [symmetric] refl refl] show ?thesis
      by (force simp: handle_loop_round [OF f] split: option.split prod.split)
  next
    case False
    then show ?thesis
      by (subst handle_loop.simps)
        (auto simp: feed_def Let_def split: sum.splits prod.splits option.splits)
  qed
qed

section \<open>Authentication\<close>

definition opens :: "connection \<Rightarrow> command \<Rightarrow> bool" where
  "opens conn c \<longleftrightarrow> cmd_name c = ''AUTH'' \<and> cmd_args c = [requirepass conn] \<and> requirepass conn \<noteq> []"

lemma handle_command_locked:
  "\<not> authenticated conn \<Longrightarrow> \<not> opens conn c \<Longrightarrow>
     \<exists>out. handle_command d clk c (conn, a, x) = (None, out, conn, a, x)"
  using handle_auth_rejects [of c conn]
  by (auto simp: handle_command_def opens_def split: prod.split)

lemma handle_loop_locked:
  assumes "\<not> authenticated conn" and "\<forall>c\<in>set (commands_of (fst (drain (buf @ chunk)))). \<not> opens conn c"
  shows "snd (snd (snd (handle_loop d clks n buf chunk resp (conn, a, x)))) = (conn, a, x)"
proof -
  obtain vs exn rest where "drain (buf @ chunk) = (vs, exn, rest)"
    by (cases "drain (buf @ chunk)")
  then show ?thesis using assms(2)
  proof (induction vs arbitrary: buf chunk n resp)
    case Nil
    then show ?case by (simp add: handle_loop_stop)
  next
    case (Cons v vs)
    obtain buf' where f: "feed buf chunk = (Inr (Some v), buf')" and dr: "drain buf' = (vs, exn, rest)"
      by (rule handle_loop_feed [OF Cons.prems(1)])
    show ?case
    proof (cases "parse_command v")
      case None
      then show ?thesis by (simp add: handle_loop_round [OF f])
    next
      case (Some c)
      with Cons.prems have "\<not> opens conn c" and rest: "\<forall>c\<in>set (commands_of vs). \<not> opens conn c"
        by simp_all
      then obtain out where "handle_command d (clks n) c (conn, a, x) = (None, out, conn, a, x)"
        using handle_command_locked [OF assms(1)] by blast
      with Some rest dr Cons.IH [of buf' "[]"] show ?thesis
        by (simp add: handle_loop_round [OF f])
    qed
  qed
qed

section \<open>Subscriptions and the registry\<close>

text \<open>
  The connection and the broker agree: \<open>subscribed_channels\<close> is exactly the set of channels the
  registry has this connection under.
\<close>

definition subs_agree :: "connection \<Rightarrow> write_fn pubsub_broker \<Rightarrow> bool" where
  "subs_agree conn b \<longleftrightarrow> broker_ok b \<and> callbacks_ok b \<and> us_ok (subscribed_channels conn)
     \<and> set (subscribed_channels conn) = {ch. (ch, conn_id conn) \<in> subscriptions b}"

text \<open>Nobody else's subscriptions change.\<close>

definition others_kept :: "nat \<Rightarrow> 'w pubsub_broker \<Rightarrow> 'w pubsub_broker \<Rightarrow> bool" where
  "others_kept i b b' \<longleftrightarrow> (\<forall>ch j. j \<noteq> i \<longrightarrow> (ch, j) \<in> subscriptions b' \<longleftrightarrow> (ch, j) \<in> subscriptions b)"

lemma others_kept_refl [simp]: "others_kept i b b"
  by (simp add: others_kept_def)

lemma others_kept_trans: "others_kept i a b \<Longrightarrow> others_kept i b c \<Longrightarrow> others_kept i a c"
  by (simp add: others_kept_def)

lemma subs_agree_cong:
  "subscribed_channels conn' = subscribed_channels conn \<Longrightarrow> conn_id conn' = conn_id conn \<Longrightarrow>
     subs_agree conn' b = subs_agree conn b"
  by (simp add: subs_agree_def)

lemma subscribe_agrees:
  assumes "subs_agree conn b" and "b' = snd (subscribe ch (conn_id conn) (conn_id conn, ch) b)"
  shows "subs_agree (conn\<lparr>subscribed_channels := fst (us_insert ch (subscribed_channels conn))\<rparr>) b'"
    and "others_kept (conn_id conn) b b'"
  using assms
  by (auto simp: subs_agree_def others_kept_def subscribe_ok callbacks_ok_subscribe
      subscriptions_subscribe us.invar_add us.elems_add)

lemma unsubscribe_agrees:
  assumes "subs_agree conn b" and "b' = snd (unsubscribe ch (conn_id conn) b)"
  shows "subs_agree (conn\<lparr>subscribed_channels := fst (us_erase ch (subscribed_channels conn))\<rparr>) b'"
    and "others_kept (conn_id conn) b b'"
  using assms
  by (auto simp: subs_agree_def others_kept_def unsubscribe_ok callbacks_ok_unsubscribe
      subscriptions_unsubscribe us.invar_del us.elems_del)

lemma subscribe_loop_agrees:
  "subscribe_loop chs out conn x = (out', conn', x') \<Longrightarrow> subs_agree conn (ctx_broker x) \<Longrightarrow>
     subs_agree conn' (ctx_broker x') \<and> others_kept (conn_id conn) (ctx_broker x) (ctx_broker x')"
proof (induction chs out conn x rule: subscribe_loop.induct)
  case (2 channel chs replies conn x)
  note step = subscribe_agrees [OF "2.prems"(2) refl, of channel]
  from "2.IH" [OF prod.collapse [of "subscribe channel (conn_id conn) (conn_id conn, channel) (ctx_broker x)"]] "2.prems"(1) step(1)
  show ?case
    by (auto simp: split_def intro: others_kept_trans [OF step(2)])
qed simp

lemma unsubscribe_args_loop_agrees:
  "unsubscribe_args_loop chs out conn x = (out', conn', x') \<Longrightarrow> subs_agree conn (ctx_broker x) \<Longrightarrow>
     subs_agree conn' (ctx_broker x') \<and> others_kept (conn_id conn) (ctx_broker x) (ctx_broker x')"
proof (induction chs out conn x rule: unsubscribe_args_loop.induct)
  case (2 channel chs replies conn x)
  note step = unsubscribe_agrees [OF "2.prems"(2) refl, of channel]
  from "2.IH" [OF prod.collapse [of "unsubscribe channel (conn_id conn) (ctx_broker x)"]] "2.prems"(1) step(1)
  show ?case
    by (auto simp: split_def intro: others_kept_trans [OF step(2)])
qed simp

lemma left_loop_channels:
  "us_ok (subscribed_channels conn) \<Longrightarrow> left_loop chs out conn = (out', conn') \<Longrightarrow>
     us_ok (subscribed_channels conn') \<and> conn_id conn' = conn_id conn
     \<and> set (subscribed_channels conn') = set (subscribed_channels conn) - set chs"
  by (induction chs out conn rule: left_loop.induct) (auto simp: us.invar_del us.elems_del)

lemma handle_subscribe_agrees:
  assumes "subs_agree conn (ctx_broker x)" and "handle_subscribe c conn x = (conn', x')"
  shows "subs_agree conn' (ctx_broker x') \<and> others_kept (conn_id conn) (ctx_broker x) (ctx_broker x')"
proof (cases "\<not> conn_has_broker conn \<or> cmd_args c = []")
  case True
  with assms show ?thesis
    by (auto simp: handle_subscribe_def subs_agree_cong [of "do_write _ conn"])
next
  case False
  obtain out conn1 x1 where loop: "subscribe_loop (cmd_args c) [] conn x = (out, conn1, x1)"
    by (cases "subscribe_loop (cmd_args c) [] conn x")
  with False assms(2) have "conn' = do_write out conn1" and "x' = x1"
    by (auto simp: handle_subscribe_def)
  with subscribe_loop_agrees [OF loop assms(1)] show ?thesis
    by (simp add: subs_agree_cong [of "do_write _ conn1"])
qed

lemma handle_unsubscribe_agrees:
  assumes "subs_agree conn (ctx_broker x)" and "handle_unsubscribe c conn x = (conn', x')"
  shows "subs_agree conn' (ctx_broker x') \<and> others_kept (conn_id conn) (ctx_broker x) (ctx_broker x')"
proof -
  consider (none) "\<not> conn_has_broker conn" | (all) "conn_has_broker conn" "cmd_args c = []"
    | (some) "conn_has_broker conn" "cmd_args c \<noteq> []"
    by blast
  then show ?thesis
  proof cases
    case none
    with assms show ?thesis
      by (auto simp: handle_unsubscribe_def subs_agree_cong [of "do_read conn"])
  next
    case all
    let ?chs = "fst (unsubscribe_all (conn_id conn) (ctx_broker x))"
    obtain out conn1 where loop: "left_loop ?chs [] conn = (out, conn1)"
      by (cases "left_loop ?chs [] conn")
    with all assms(2) obtain w where "conn' = do_write w conn1"
      and "x' = x\<lparr>ctx_broker := snd (unsubscribe_all (conn_id conn) (ctx_broker x))\<rparr>"
      by (auto simp: handle_unsubscribe_def split_def)
    with left_loop_channels [OF _ loop] assms(1) show ?thesis
      by (auto simp: subs_agree_def others_kept_def unsubscribe_all_ok callbacks_ok_unsubscribe_all
          subscriptions_unsubscribe_all unsubscribe_all_left)
  next
    case some
    obtain out conn1 x1 where loop: "unsubscribe_args_loop (cmd_args c) [] conn x = (out, conn1, x1)"
      by (cases "unsubscribe_args_loop (cmd_args c) [] conn x")
    with some assms(2) have "conn' = do_write out conn1" and "x' = x1"
      by (auto simp: handle_unsubscribe_def)
    with unsubscribe_args_loop_agrees [OF loop assms(1)] show ?thesis
      by (simp add: subs_agree_cong [of "do_write _ conn1"])
  qed
qed

text \<open>The relation between the state before and after a command, a batch, a read.\<close>

definition step_agrees :: "conn_state \<Rightarrow> conn_state \<Rightarrow> bool" where
  "step_agrees st st' \<longleftrightarrow> conn_id (fst st') = conn_id (fst st)
     \<and> (subs_agree (fst st) (ctx_broker (snd (snd st))) \<longrightarrow>
          subs_agree (fst st') (ctx_broker (snd (snd st')))
          \<and> others_kept (conn_id (fst st)) (ctx_broker (snd (snd st))) (ctx_broker (snd (snd st'))))"

lemma step_agrees_refl [simp]: "step_agrees st st"
  by (simp add: step_agrees_def)

lemma step_agrees_trans: "step_agrees a b \<Longrightarrow> step_agrees b c \<Longrightarrow> step_agrees a c"
  by (auto simp: step_agrees_def intro: others_kept_trans)

lemma step_agrees_same:
  "conn_id conn' = conn_id conn \<Longrightarrow> subscribed_channels conn' = subscribed_channels conn \<Longrightarrow>
     ctx_broker x' = ctx_broker x \<Longrightarrow> step_agrees (conn, a, x) (conn', a', x')"
  by (simp add: step_agrees_def subs_agree_cong [of conn' conn])

lemma count_command_frame [simp]:
  "ctx_broker (count_command conn x) = ctx_broker x" "ctx_store (count_command conn x) = ctx_store x"
  "ctx_posted (count_command conn x) = ctx_posted x"
  by (simp_all add: count_command_def)

lemma execute_logged_ctx: "snd (snd (execute_logged d c clk (a, x))) = snd (dispatch d c clk x)"
  by (simp add: execute_logged_def Let_def split_def)

lemma handle_command_agrees:
  "step_agrees st (snd (snd (handle_command (make_default double_div has_broker) clk c st)))"
proof -
  obtain conn a x where st: "st = (conn, a, x)" by (cases st)
  let ?d = "make_default double_div has_broker"
  have auth: "step_agrees st (snd (handle_auth c conn), a, x)"
    by (simp add: st handle_auth_def step_agrees_same)
  have sub: "step_agrees st (fst (handle_subscribe c conn x), a, snd (handle_subscribe c conn x))"
    using same_setup_subscribe(1) [of conn c x] handle_subscribe_agrees [of conn x c, OF _ prod.collapse [symmetric]]
    by (simp add: st step_agrees_def same_setup_def)
  have unsub: "step_agrees st (fst (handle_unsubscribe c conn x), a, snd (handle_unsubscribe c conn x))"
    using same_setup_unsubscribe(1) [of conn c x] handle_unsubscribe_agrees [of conn x c, OF _ prod.collapse [symmetric]]
    by (simp add: st step_agrees_def same_setup_def)
  obtain r a' x' where run: "execute_logged ?d c clk (a, x) = (r, a', x')"
    by (cases "execute_logged ?d c clk (a, x)")
  then have "ctx_broker x' = ctx_broker x"
    using execute_logged_ctx [of ?d c clk a x] by (simp add: dispatch_keeps)
  then have "step_agrees st (conn, a', x')" and "step_agrees st (conn, a', count_command conn x')"
    by (simp_all add: st step_agrees_same)
  with auth sub unsub run show ?thesis
    by (cases r) (auto simp: handle_command_def st split_def)
qed

lemma handle_loop_agrees:
  "step_agrees st (snd (snd (snd (handle_loop (make_default double_div has_broker) clks n buf chunk resp st))))"
  by (rule handle_loop_invariant [of "step_agrees st"])
    (auto intro: step_agrees_trans handle_command_agrees)

lemma handle_data_agrees:
  "step_agrees (conn, a, x) (handle_data (make_default double_div has_broker) lib clks chunk (conn, a, x))"
proof (cases "length (parser_buf conn) + length chunk > max_request_bytes conn")
  case True
  then show ?thesis
    by (simp add: handle_data_def buffered_size_def step_agrees_same)
next
  case False
  obtain exn buf out conn' a' x' where loop: "handle_loop (make_default double_div has_broker) clks 0
      (parser_buf conn) chunk [] (conn, a, x) = (exn, buf, out, conn', a', x')"
    by (cases "handle_loop (make_default double_div has_broker) clks 0 (parser_buf conn) chunk [] (conn, a, x)")
  then have "step_agrees (conn, a, x) (conn', a', x')"
    using handle_loop_agrees [of "(conn, a, x)" double_div has_broker clks 0 "parser_buf conn" chunk "[]"] by simp
  then have "step_agrees (conn, a, x) (conn2, a', x')"
    if "conn_id conn2 = conn_id conn'" "subscribed_channels conn2 = subscribed_channels conn'" for conn2
    using that by (auto intro: step_agrees_trans step_agrees_same)
  with False loop show ?thesis
    by (cases exn) (simp_all add: handle_data_def buffered_size_def Let_def)
qed

lemma on_read_complete_agrees:
  "step_agrees (conn, a, x) (on_read_complete (make_default double_div has_broker) lib clks ec chunk (conn, a, x))"
proof -
  let ?conn = "reset_idle_timer (conn\<lparr>read_in_progress := False\<rparr>)"
  have "step_agrees (conn, a, x) (?conn, a, x)"
    by (rule step_agrees_same) (simp_all add: reset_idle_timer_def)
  from step_agrees_trans [OF this handle_data_agrees] show ?thesis
    by (simp add: on_read_complete_def Let_def step_agrees_same close_socket_def)
qed

section \<open>One read\<close>

text \<open>
  What a read leaves of the connection: its identity and limits, the state of its output queue, and
  a buffer within the limit.
\<close>

lemma same_setup_fields [simp]:
  "same_setup conn (conn'\<lparr>parser_buf := b\<rparr>) = same_setup conn conn'"
  "same_setup conn (conn'\<lparr>read_in_progress := rd\<rparr>) = same_setup conn conn'"
  "same_setup conn (conn'\<lparr>close_after_write := cl\<rparr>) = same_setup conn conn'"
  by (simp_all add: same_setup_def)

lemma same_setup_do_write: "same_setup conn conn' \<Longrightarrow> same_setup conn (do_write w conn')"
  by (auto simp: same_setup_def conn_ok_do_write dest: do_write_open)

lemma same_setup_do_read: "same_setup conn conn' \<Longrightarrow> same_setup conn (do_read conn')"
  by (simp add: same_setup_def conn_ok_do_read)

lemma same_setup_close: "same_setup conn conn' \<Longrightarrow> same_setup conn (close_socket conn')"
  by (simp add: same_setup_def conn_ok_def close_socket_def)

lemma same_setup_reset_idle: "same_setup conn conn' \<Longrightarrow> same_setup conn (reset_idle_timer conn')"
  by (auto simp: same_setup_def conn_ok_def in_flight_def reset_idle_timer_def)

lemma handle_data_cases:
  obtains (refused) "length (parser_buf conn) + length chunk > max_request_bytes conn"
    "handle_data d lib clks chunk (conn, a, x) =
      (do_write (serialize (RespError ''ERR max request size exceeded''))
         (conn\<lparr>close_after_write := True, parser_buf := []\<rparr>), a, x)"
  | (handled) conn' buf a' x' out where "length (parser_buf conn) + length chunk \<le> max_request_bytes conn"
    "snd (snd (snd (handle_loop d clks 0 (parser_buf conn) chunk [] (conn, a, x)))) = (conn', a', x')"
    "length buf \<le> max_request_bytes conn"
    "handle_data d lib clks chunk (conn, a, x) =
      (if out \<noteq> [] then do_write out (conn'\<lparr>parser_buf := buf\<rparr>) else do_read (conn'\<lparr>parser_buf := buf\<rparr>), a', x')"
proof (cases "length (parser_buf conn) + length chunk > max_request_bytes conn")
  case True
  then show ?thesis
    by (intro refused) (simp_all add: handle_data_def buffered_size_def reset_def)
next
  case False
  obtain exn buf out conn' a' x'
    where loop: "handle_loop d clks 0 (parser_buf conn) chunk [] (conn, a, x) = (exn, buf, out, conn', a', x')"
    by (cases "handle_loop d clks 0 (parser_buf conn) chunk [] (conn, a, x)")
  have buf: "length buf \<le> max_request_bytes conn"
    using handle_loop_buffer [of d clks 0 "parser_buf conn" chunk "[]" "(conn, a, x)"] loop False by simp
  show ?thesis
  proof (cases exn)
    case None
    with False loop buf show ?thesis
      by (intro handled [of conn' a' x' buf out]) (simp_all add: handle_data_def buffered_size_def Let_def)
  next
    case (Some ex)
    with False loop show ?thesis
      by (intro handled [of conn' a' x' "[]" "out @ serialize (RespError (''ERR '' @ what_of lib ex))"])
        (simp_all add: handle_data_def buffered_size_def reset_def Let_def)
  qed
qed

lemma handle_data_setup: "same_setup conn (fst (handle_data d lib clks chunk (conn, a, x)))"
proof (cases rule: handle_data_cases [where conn = conn and chunk = chunk and d = d and lib = lib and clks = clks and a = a and x = x])
  case refused
  then show ?thesis by (simp add: same_setup_do_write)
next
  case (handled conn' buf a' x' out)
  with handle_loop_setup [of "(conn, a, x)" d clks 0 "parser_buf conn" chunk "[]"] show ?thesis
    by (simp add: same_setup_do_write same_setup_do_read)
qed

lemma handle_data_buffer:
  "length (parser_buf (fst (handle_data d lib clks chunk (conn, a, x)))) \<le> max_request_bytes conn"
  by (cases rule: handle_data_cases [where conn = conn and chunk = chunk and d = d and lib = lib and clks = clks and a = a and x = x])
    simp_all

text \<open>
  An open connection is never stuck: it waits for input or a write is under way, so a completion
  handler will run.
\<close>

definition active :: "connection \<Rightarrow> bool" where
  "active conn \<longleftrightarrow> (socket_open conn \<longrightarrow> read_in_progress conn \<or> write_in_progress conn)"

lemma active_do_write: "active (do_write w conn)"
  by (simp add: active_def conn_io_defs)

lemma active_do_read: "active (do_read conn)"
  by (simp add: active_def conn_io_defs)

lemma active_close: "active (close_socket conn)"
  by (simp add: active_def conn_io_defs)

lemma active_handle_data: "active (fst (handle_data d lib clks chunk (conn, a, x)))"
  by (cases rule: handle_data_cases [where conn = conn and chunk = chunk and d = d and lib = lib and clks = clks and a = a and x = x])
    (simp_all add: active_do_write active_do_read)

lemma active_write_complete: "active (on_write_complete ec bytes conn)"
  by (simp add: active_def conn_io_defs)

section \<open>The shared objects\<close>

text \<open>
  \<open>K\<close> is the set of the connections that exist, \<open>n\<close> and \<open>r\<close> the client counter and the readiness
  flag, which no command changes.
\<close>

definition ctx_inv :: "nat set \<Rightarrow> int \<Rightarrow> bool \<Rightarrow> server_ctx \<Rightarrow> bool" where
  "ctx_inv K n r x \<longleftrightarrow> kv_ok (ctx_store x) \<and> kv_tidy (ctx_store x)
     \<and> broker_ok (ctx_broker x) \<and> callbacks_ok (ctx_broker x)
     \<and> snd ` subscriptions (ctx_broker x) \<subseteq> K \<and> fst ` set (ctx_posted x) \<subseteq> K
     \<and> connected_clients (ctx_stats x) = n \<and> ready (ctx_stats x) = r"

text \<open>A handler posts writes only to connections that are subscribed.\<close>

definition posts_to_subscribers :: "handler_fn \<Rightarrow> bool" where
  "posts_to_subscribers f \<longleftrightarrow> (\<forall>c clk x. callbacks_ok (ctx_broker x) \<longrightarrow>
     fst ` set (ctx_posted (snd (f c clk x))) \<subseteq> fst ` set (ctx_posted x) \<union> snd ` subscriptions (ctx_broker x))"

lemma posts_on_store: "posts_to_subscribers (on_store h)" "posts_to_subscribers (with_stats h')"
  by (simp_all add: posts_to_subscribers_def on_store_def with_stats_def split_def)

lemma posts_publish: "posts_to_subscribers cmd_publish"
  unfolding posts_to_subscribers_def
proof (intro allI impI)
  fix c :: command and clk and x :: server_ctx
  assume "callbacks_ok (ctx_broker x)"
  note callbacks = publish_callbacks_eq [OF this, of "cmd_args c ! 0"]
  have "sub_id ` set (subs_of (ctx_broker x) (cmd_args c ! 0)) \<subseteq> snd ` subscriptions (ctx_broker x)"
    by (force simp: subscriptions_def)
  then show "fst ` set (ctx_posted (snd (cmd_publish c clk x))) \<subseteq>
      fst ` set (ctx_posted x) \<union> snd ` subscriptions (ctx_broker x)"
    by (auto simp: cmd_publish_def publish_def callbacks foldl_push_message image_Un image_image comp_def)
qed

lemma make_default_posts: "list_all (\<lambda>(n, f). posts_to_subscribers f) (make_default double_div has_broker)"
  by (simp add: make_default_table posts_on_store posts_publish)

lemma dispatch_posted:
  assumes "callbacks_ok (ctx_broker x)"
  shows "fst ` set (ctx_posted (snd (dispatch (make_default double_div has_broker) c clk x))) \<subseteq>
    fst ` set (ctx_posted x) \<union> snd ` subscriptions (ctx_broker x)"
proof (cases rule: dispatch_cases [of "make_default double_div has_broker" c clk x])
  case unknown
  then show ?thesis by simp
next
  case (known f)
  then have "posts_to_subscribers f"
    using make_default_posts [of double_div has_broker] by (auto simp: list_all_iff dest!: map_of_SomeD)
  with known assms show ?thesis by (simp add: posts_to_subscribers_def)
qed

lemma dispatch_ctx_inv:
  assumes "ctx_inv K n r x"
  shows "ctx_inv K n r (snd (dispatch (make_default double_div has_broker) c clk x))"
  using assms order_trans [OF dispatch_posted Un_least]
  by (simp add: ctx_inv_def dispatch_keeps)

lemma count_command_ctx_inv: "ctx_inv K n r x \<Longrightarrow> ctx_inv K n r (count_command conn x)"
  by (simp add: ctx_inv_def count_command_def)

text \<open>The subscription handlers touch, of the shared objects, only the broker.\<close>

lemma subscription_loops_ctx:
  "\<exists>b. snd (snd (subscribe_loop chs out conn x)) = x\<lparr>ctx_broker := b\<rparr>"
  "\<exists>b. snd (snd (unsubscribe_args_loop chs out conn x)) = x\<lparr>ctx_broker := b\<rparr>"
proof -
  show "\<exists>b. snd (snd (subscribe_loop chs out conn x)) = x\<lparr>ctx_broker := b\<rparr>"
  proof (induction chs arbitrary: out conn x)
    case Nil
    show ?case by (auto intro: exI [of _ "ctx_broker x"])
  next
    case (Cons ch chs)
    obtain count b where "subscribe ch (conn_id conn) (conn_id conn, ch) (ctx_broker x) = (count, b)"
      by (cases "subscribe ch (conn_id conn) (conn_id conn, ch) (ctx_broker x)")
    with Cons [of _ _ "x\<lparr>ctx_broker := b\<rparr>"] show ?case by simp
  qed
  show "\<exists>b. snd (snd (unsubscribe_args_loop chs out conn x)) = x\<lparr>ctx_broker := b\<rparr>"
  proof (induction chs arbitrary: out conn x)
    case Nil
    show ?case by (auto intro: exI [of _ "ctx_broker x"])
  next
    case (Cons ch chs)
    obtain count b where "unsubscribe ch (conn_id conn) (ctx_broker x) = (count, b)"
      by (cases "unsubscribe ch (conn_id conn) (ctx_broker x)")
    with Cons [of _ _ "x\<lparr>ctx_broker := b\<rparr>"] show ?case by simp
  qed
qed

lemma handle_subscribe_ctx: "\<exists>b. snd (handle_subscribe c conn x) = x\<lparr>ctx_broker := b\<rparr>"
  using subscription_loops_ctx(1) [of "cmd_args c" "[]" conn x]
  by (auto simp: handle_subscribe_def split_def intro: exI [of _ "ctx_broker x"])

lemma handle_unsubscribe_ctx: "\<exists>b. snd (handle_unsubscribe c conn x) = x\<lparr>ctx_broker := b\<rparr>"
  using subscription_loops_ctx(2) [of "cmd_args c" "[]" conn x]
  by (auto simp: handle_unsubscribe_def split_def intro: exI [of _ "ctx_broker x"])

text \<open>A change of this connection's own subscriptions keeps the shared objects in order.\<close>

lemma ctx_inv_subs:
  assumes "ctx_inv K n r x" and "conn_id conn \<in> K" and "subs_agree conn (ctx_broker x)"
    and "snd res = x\<lparr>ctx_broker := b\<rparr>" and "step_agrees (conn, a, x) (fst res, a, snd res)"
  shows "ctx_inv K n r (snd res)"
proof -
  have agree: "subs_agree (fst res) b" and kept: "others_kept (conn_id conn) (ctx_broker x) b"
    using assms(3,4,5) by (simp_all add: step_agrees_def)
  have "i \<in> K" if "(ch, i) \<in> subscriptions b" for ch i
  proof (cases "i = conn_id conn")
    case False
    with kept that have "i \<in> snd ` subscriptions (ctx_broker x)"
      by (force simp: others_kept_def)
    with assms(1) show ?thesis by (auto simp: ctx_inv_def)
  qed (use assms(2) in simp)
  with agree assms(1,4) show ?thesis
    by (auto simp: ctx_inv_def subs_agree_def)
qed

text \<open>The state a connection and the shared objects are in together.\<close>

definition joint_inv :: "nat set \<Rightarrow> int \<Rightarrow> bool \<Rightarrow> conn_state \<Rightarrow> bool" where
  "joint_inv K n r st \<longleftrightarrow> (case st of (conn, a, x) \<Rightarrow>
     conn_id conn \<in> K \<and> subs_agree conn (ctx_broker x) \<and> ctx_inv K n r x)"

lemma joint_inv_keep:
  "joint_inv K n r (conn, a, x) \<Longrightarrow> conn_id conn' = conn_id conn \<Longrightarrow>
     subscribed_channels conn' = subscribed_channels conn \<Longrightarrow> joint_inv K n r (conn', a', x)"
  by (simp add: joint_inv_def subs_agree_cong [of conn' conn])

lemma handle_command_joint:
  assumes "joint_inv K n r st"
  shows "joint_inv K n r (snd (snd (handle_command (make_default double_div has_broker) clk c st)))"
proof -
  let ?d = "make_default double_div has_broker"
  obtain conn a x where st: "st = (conn, a, x)" by (cases st)
  have inv: "conn_id conn \<in> K" "subs_agree conn (ctx_broker x)" "ctx_inv K n r x"
    using assms by (simp_all add: joint_inv_def st)
  let ?st' = "snd (snd (handle_command ?d clk c st))"
  have step: "step_agrees (conn, a, x) ?st'"
    using handle_command_agrees by (simp add: st)
  then have "conn_id (fst ?st') \<in> K" and "subs_agree (fst ?st') (ctx_broker (snd (snd ?st')))"
    using inv by (simp_all add: step_agrees_def)
  moreover have "ctx_inv K n r (snd (snd ?st'))"
  proof -
    obtain b b' where sub: "snd (handle_subscribe c conn x) = x\<lparr>ctx_broker := b\<rparr>"
      and unsub: "snd (handle_unsubscribe c conn x) = x\<lparr>ctx_broker := b'\<rparr>"
      using handle_subscribe_ctx handle_unsubscribe_ctx by blast
    obtain rep a' x' where run: "execute_logged ?d c clk (a, x) = (rep, a', x')"
      by (cases "execute_logged ?d c clk (a, x)")
    then have "ctx_inv K n r x'"
      using dispatch_ctx_inv [OF inv(3)] execute_logged_ctx [of ?d c clk a x] by (metis snd_conv)
    then show ?thesis
      using run inv(3) step ctx_inv_subs [OF inv(3,1,2) sub] ctx_inv_subs [OF inv(3,1,2) unsub]
      by (cases rep) (auto simp: handle_command_def st split_def count_command_ctx_inv)
  qed
  ultimately show ?thesis
    by (simp add: joint_inv_def split_def)
qed

lemma handle_data_joint:
  assumes "joint_inv K n r (conn, a, x)"
  shows "joint_inv K n r (handle_data (make_default double_div has_broker) lib clks chunk (conn, a, x))"
proof (cases rule: handle_data_cases [where conn = conn and chunk = chunk and a = a and x = x
      and d = "make_default double_div has_broker" and lib = lib and clks = clks])
  case refused
  then show ?thesis
    by (simp only:) (rule joint_inv_keep [OF assms]; simp)
next
  case (handled conn' buf a' x' out)
  have "joint_inv K n r (snd (snd (snd (handle_loop (make_default double_div has_broker) clks 0
      (parser_buf conn) chunk [] (conn, a, x)))))"
    by (rule handle_loop_invariant [OF handle_command_joint assms])
  then have "joint_inv K n r (conn', a', x')"
    by (simp only: handled(2))
  then have "joint_inv K n r (conn2, a', x')"
    if "conn_id conn2 = conn_id conn'" "subscribed_channels conn2 = subscribed_channels conn'" for conn2
    using that by (rule joint_inv_keep)
  with handled(4) show ?thesis by simp
qed

lemma on_read_complete_joint:
  assumes "joint_inv K n r (conn, a, x)"
  shows "joint_inv K n r (on_read_complete (make_default double_div has_broker) lib clks ec chunk (conn, a, x))"
proof -
  have "joint_inv K n r (conn', a, x)"
    if "conn_id conn' = conn_id conn" "subscribed_channels conn' = subscribed_channels conn" for conn'
    using assms that by (rule joint_inv_keep)
  then show ?thesis
    by (auto simp: on_read_complete_def Let_def close_socket_def reset_idle_timer_def intro!: handle_data_joint)
qed

text \<open>What every connection of a server satisfies between two events.\<close>

definition conn_inv :: "connection \<Rightarrow> bool" where
  "conn_inv conn \<longleftrightarrow> conn_ok conn \<and> active conn \<and> length (parser_buf conn) \<le> max_request_bytes conn"

lemma on_read_complete_conn:
  "conn_inv conn \<Longrightarrow> conn_inv (fst (on_read_complete d lib clks ec chunk (conn, a, x)))
     \<and> same_setup conn (fst (on_read_complete d lib clks ec chunk (conn, a, x)))"
proof -
  let ?conn = "reset_idle_timer (conn\<lparr>read_in_progress := False\<rparr>)"
  assume "conn_inv conn"
  then have inv: "conn_ok conn" "length (parser_buf conn) \<le> max_request_bytes conn"
    by (simp_all add: conn_inv_def)
  have kept: "same_setup conn ?conn" "conn_ok ?conn" "max_request_bytes ?conn = max_request_bytes conn"
    using inv(1) same_setup_reset_idle [of conn "conn\<lparr>read_in_progress := False\<rparr>"]
      conn_ok_reset_idle [of "conn\<lparr>read_in_progress := False\<rparr>"]
    by simp_all (simp add: reset_idle_timer_def)
  show ?thesis
  proof (cases ec)
    case True
    then show ?thesis
      using inv by (simp add: on_read_complete_def Let_def conn_inv_def conn_ok_close active_close
          same_setup_close) (simp add: close_socket_def)
  next
    case False
    with kept handle_data_setup [of ?conn d lib clks chunk a x]
      handle_data_buffer [of d lib clks chunk ?conn a x] active_handle_data [of d lib clks chunk ?conn a x]
    show ?thesis
      by (auto simp: on_read_complete_def Let_def conn_inv_def same_setup_def)
  qed
qed

lemma do_write_conn: "conn_inv conn \<Longrightarrow> conn_inv (do_write w conn) \<and> same_setup conn (do_write w conn)"
  by (simp add: conn_inv_def conn_ok_do_write active_do_write same_setup_do_write)

lemma on_write_complete_frame [simp]:
  "conn_id (on_write_complete ec bytes conn) = conn_id conn"
  "requirepass (on_write_complete ec bytes conn) = requirepass conn"
  "conn_has_stats (on_write_complete ec bytes conn) = conn_has_stats conn"
  "conn_has_broker (on_write_complete ec bytes conn) = conn_has_broker conn"
  "max_request_bytes (on_write_complete ec bytes conn) = max_request_bytes conn"
  "parser_buf (on_write_complete ec bytes conn) = parser_buf conn"
  "authenticated (on_write_complete ec bytes conn) = authenticated conn"
  "subscribed_channels (on_write_complete ec bytes conn) = subscribed_channels conn"
  by (simp_all add: conn_io_defs)

lemma on_write_complete_open: "socket_open (on_write_complete ec bytes conn) \<Longrightarrow> socket_open conn"
  by (auto simp: conn_io_defs split: if_splits)

lemma on_write_complete_conn:
  assumes "conn_inv conn" and "write_in_progress conn"
  shows "conn_inv (on_write_complete ec (length (write_buf conn)) conn)
    \<and> same_setup conn (on_write_complete ec (length (write_buf conn)) conn)"
  using assms conn_ok_write_complete [of conn ec] on_write_complete_open [of ec _ conn]
  by (simp add: conn_inv_def active_write_complete same_setup_def)

lemma on_idle_timer_conn:
  "conn_inv conn \<Longrightarrow> conn_inv (on_idle_timer aborted ec conn) \<and> same_setup conn (on_idle_timer aborted ec conn)
     \<and> subscribed_channels (on_idle_timer aborted ec conn) = subscribed_channels conn"
  by (simp add: on_idle_timer_def conn_inv_def conn_ok_close active_close same_setup_close)
    (simp add: close_socket_def active_def same_setup_def)

lemma start_new_frame [simp]:
  "conn_id (start (new_connection cid hs hb pass mr idle mp)) = cid"
  "conn_has_stats (start (new_connection cid hs hb pass mr idle mp)) = hs"
  "conn_has_broker (start (new_connection cid hs hb pass mr idle mp)) = hb"
  "max_request_bytes (start (new_connection cid hs hb pass mr idle mp)) = mr"
  by (simp_all add: new_connection_def conn_io_defs)

lemma start_new_conn:
  "conn_inv (start (new_connection cid hs hb pass mr idle mp))"
  "subs_agree (start (new_connection cid hs hb pass mr idle mp)) b \<longleftrightarrow>
     broker_ok b \<and> callbacks_ok b \<and> (\<forall>ch. (ch, cid) \<notin> subscriptions b)"
  by (auto simp: new_connection_def conn_inv_def conn_ok_def active_def in_flight_def conn_io_defs
      subs_agree_def us_ok_def)

section \<open>Pipelines\<close>

text \<open>
  The reference for a batch of plain commands: execute them in order, collect the serialized replies,
  stop at the first exception.
\<close>

definition plain :: "command \<Rightarrow> bool" where
  "plain c \<longleftrightarrow> cmd_name c \<notin> {''AUTH'', ''SUBSCRIBE'', ''UNSUBSCRIBE''}"

fun pipeline ::
  "dispatcher \<Rightarrow> (nat \<Rightarrow> clock) \<Rightarrow> nat \<Rightarrow> command list \<Rightarrow> conn_state \<Rightarrow> cpp_exn option \<times> string \<times> conn_state" where
  "pipeline d clks n [] st = (None, [], st)"
| "pipeline d clks n (c # cs) (conn, a, x) =
     (case execute_logged d c (clks n) (a, x) of
        (Inl ex, a', x') \<Rightarrow> (Some ex, [], conn, a', x')
      | (Inr r, a', x') \<Rightarrow>
          (case pipeline d clks (Suc n) cs (conn, a', count_command conn x') of
             (exn, out, st') \<Rightarrow> (exn, serialize r @ out, st')))"

lemma feed_frame:
  assumes "command_ok c" and "buf @ chunk = serialize (command_frame c) @ rest"
  shows "feed buf chunk = (Inr (Some (command_frame c)), rest)"
  using assms parse_serialize_at [of "command_frame c" "[]" rest]
  by (simp add: feed_def command_ok_def)

lemma handle_loop_pipeline:
  assumes tail: "drain tail = ([], None, tail)"
    and "\<forall>c\<in>set cs. command_ok c \<and> plain c" and "authenticated conn" and "buf @ chunk = frames cs @ tail"
  shows "\<exists>rest. handle_loop d clks n buf chunk resp (conn, a, x) =
    (case pipeline d clks n cs (conn, a, x) of (exn, out, st') \<Rightarrow> (exn, rest, resp @ out, st'))
    \<and> (fst (pipeline d clks n cs (conn, a, x)) = None \<longrightarrow> rest = tail)"
  using assms(2-4)
proof (induction cs arbitrary: n buf chunk resp a x)
  case Nil
  with tail show ?case by (simp add: handle_loop_stop)
next
  case (Cons c cs)
  then have "feed buf chunk = (Inr (Some (command_frame c)), frames cs @ tail)" and "plain c"
    and parsed: "parse_command (command_frame c) = Some c"
    by (simp_all add: feed_frame parse_command_frame)
  note round = handle_loop_round [OF this(1)]
  from \<open>plain c\<close> Cons.prems(2) have command: "handle_command d (clks n) c (conn, a, x) =
      (case execute_logged d c (clks n) (a, x) of
         (Inl ex, a', x') \<Rightarrow> (Some ex, [], conn, a', x')
       | (Inr r, a', x') \<Rightarrow> (None, serialize r, conn, a', count_command conn x'))"
    by (simp add: handle_command_def plain_def)
  obtain r a' x' where "execute_logged d c (clks n) (a, x) = (r, a', x')"
    by (cases "execute_logged d c (clks n) (a, x)")
  with Cons.IH [of "frames cs @ tail" "[]" "Suc n" "resp @ (case r of Inl ex \<Rightarrow> [] | Inr v \<Rightarrow> serialize v)" a' "count_command conn x'"] Cons.prems
  show ?case
    by (cases r) (auto simp: round parsed command split: prod.splits)
qed

lemma pipeline_conn:
  "fst (snd (snd (pipeline d clks n cs (conn, a, x)))) = conn"
  by (induction cs arbitrary: n a x) (simp_all add: split_def split: sum.split)

section \<open>Properties\<close>

text \<open>
  C9: Pipelining works. When one read delivers a batch of complete plain commands to an
  authenticated connection, they are executed in the order sent, each logged before it runs if it
  is a write command, and all replies go out in the same order in a single write. If a command
  throws, the replies before it are followed by one error and the commands after it are never
  executed: the parser's buffer is discarded.
\<close>

theorem handle_data_pipeline:
  assumes "\<forall>c\<in>set cs. command_ok c \<and> plain c" and "cs \<noteq> []" and "authenticated conn"
    and "parser_buf conn = []" and "length (frames cs) \<le> max_request_bytes conn"
  shows "handle_data d lib clks (frames cs) (conn, a, x) =
    (case pipeline d clks 0 cs (conn, a, x) of
       (exn, out, conn', a', x') \<Rightarrow>
         (do_write (case exn of None \<Rightarrow> out | Some ex \<Rightarrow> out @ serialize (RespError (''ERR '' @ what_of lib ex))) conn,
          a', x'))"
proof -
  obtain rest where loop: "handle_loop d clks 0 [] (frames cs) [] (conn, a, x) =
      (case pipeline d clks 0 cs (conn, a, x) of (exn, out, st') \<Rightarrow> (exn, rest, [] @ out, st'))"
    and rest: "fst (pipeline d clks 0 cs (conn, a, x)) = None \<longrightarrow> rest = []"
    using handle_loop_pipeline [OF drain_empty assms(1,3), of "[]" "frames cs" d clks 0 "[]" a x] by auto
  obtain exn out a' x' where run: "pipeline d clks 0 cs (conn, a, x) = (exn, out, conn, a', x')"
    using pipeline_conn [of d clks 0 cs conn a x] by (cases "pipeline d clks 0 cs (conn, a, x)") auto
  have "exn = None \<Longrightarrow> out \<noteq> []"
    using run assms(2) by (cases cs) (auto split: sum.splits prod.splits)
  moreover have same: "conn\<lparr>parser_buf := []\<rparr> = conn"
    using assms(4) by (cases conn) simp
  ultimately show ?thesis
    using assms(4,5) loop rest run
    by (cases exn) (simp_all add: handle_data_def buffered_size_def reset_def same)
qed

theorem handle_data_pipeline_witness:
  "let ping = \<lparr>cmd_name = ''PING'', cmd_args = []\<rparr>;
       conn = new_connection 1 False False [] 1000 0 1000;
       x = initial_ctx (initial_stats 0);
       d = make_default (\<lambda>a b. []) False
   in fst (handle_data d (\<lambda>e. []) (\<lambda>n i. 0) (frames [ping, ping]) (conn, None, x)) =
      do_write (serialize (RespSimpleString ''PONG'') @ serialize (RespSimpleString ''PONG'')) conn"
proof -
  let ?ping = "\<lparr>cmd_name = ''PING'', cmd_args = []\<rparr>" and ?d = "make_default (\<lambda>a b. []) False"
  let ?conn = "new_connection 1 False False [] 1000 0 1000" and ?x = "initial_ctx (initial_stats 0)"
  have "command_ok ?ping"
    by (simp add: command_ok_eval)
  moreover have "serialize (command_frame ?ping) = ''*1'' @ crlf @ ''$4'' @ crlf @ ''PING'' @ crlf"
    by code_simp
  then have "length (frames [?ping, ?ping]) = 28"
    by (simp add: crlf_def)
  moreover have "execute_logged ?d ?ping (\<lambda>i. 0) (None, ?x) = (Inr (RespSimpleString ''PONG''), None, ?x)"
    by (simp add: execute_logged_def dispatch_def make_default_table on_store_def cmd_ping_def)
  ultimately show ?thesis
    using handle_data_pipeline [of "[?ping, ?ping]" ?conn ?d "\<lambda>e. []" "\<lambda>n i. 0" None ?x]
    by (simp add: plain_def new_connection_def count_command_def)
qed

text \<open>
  C14: Authentication is a gate. As long as the bytes a client has sent contain no \<^verbatim>\<open>AUTH\<close> with
  the configured password, whatever else they contain, a connection that requires one changes
  nothing the server shares: not the store, not the log, not the subscriptions, not the command
  counter; and it stays unauthenticated.
\<close>

theorem unauthenticated_changes_nothing:
  assumes "\<not> authenticated conn"
    and "\<forall>c\<in>set (commands_of (fst (drain (parser_buf conn @ chunk)))). \<not> opens conn c"
  shows "case on_read_complete d lib clks ec chunk (conn, a, x) of (conn', a', x') \<Rightarrow>
    a' = a \<and> x' = x \<and> \<not> authenticated conn'"
proof -
  let ?conn = "reset_idle_timer (conn\<lparr>read_in_progress := False\<rparr>)"
  have fields: "authenticated ?conn = authenticated conn" "parser_buf ?conn = parser_buf conn"
    "opens ?conn = opens conn"
    by (simp_all add: reset_idle_timer_def opens_def fun_eq_iff)
  obtain exn buf out where "handle_loop d clks 0 (parser_buf conn) chunk [] (?conn, a, x) = (exn, buf, out, ?conn, a, x)"
    using handle_loop_locked [of ?conn "parser_buf conn" chunk d clks 0 "[]" a x] assms
    by (cases "handle_loop d clks 0 (parser_buf conn) chunk [] (?conn, a, x)") (auto simp: fields)
  with assms(1) show ?thesis
    by (cases exn) (simp_all add: on_read_complete_def handle_data_def Let_def fields close_socket_def)
qed

theorem unauthenticated_changes_nothing_witness:
  "let conn = new_connection 1 True True ''secret'' 1000 0 1000;
       chunk = frames [\<lparr>cmd_name = ''SET'', cmd_args = [''k'', ''v'']\<rparr>];
       x = initial_ctx (initial_stats 0)
   in snd (on_read_complete (make_default (\<lambda>a b. []) True) (\<lambda>e. []) (\<lambda>n i. 0) False chunk (conn, None, x)) = (None, x)"
proof -
  let ?set = "\<lparr>cmd_name = ''SET'', cmd_args = [''k'', ''v'']\<rparr>" and ?conn = "new_connection 1 True True ''secret'' 1000 0 1000"
  have ok: "\<forall>c\<in>set [?set]. command_ok c"
    by (simp add: command_ok_eval)
  have "drain (parser_buf ?conn @ frames [?set]) = ([command_frame ?set], None, [])"
    using drain_frames [OF ok, of "[]"] by (simp add: new_connection_def)
  then have "\<forall>c\<in>set (commands_of (fst (drain (parser_buf ?conn @ frames [?set])))). \<not> opens ?conn c"
    using commands_of_frames [OF ok] by (simp add: opens_def)
  then have "case on_read_complete (make_default (\<lambda>a b. []) True) (\<lambda>e. []) (\<lambda>n i. 0) False (frames [?set])
        (?conn, None, initial_ctx (initial_stats 0)) of (conn', a', x') \<Rightarrow>
      a' = None \<and> x' = initial_ctx (initial_stats 0) \<and> \<not> authenticated conn'"
    by (intro unauthenticated_changes_nothing) (simp add: new_connection_def)
  then show ?thesis
    by (auto simp only: Let_def snd_conv split: prod.splits)
qed

text \<open>
  The memory a client can make the parser hold is bounded: after every read the parser's buffer is
  within \<^verbatim>\<open>max_request_bytes\<close>, whatever the client sends. A read that
  would exceed the limit clears the buffer, changes nothing shared, and marks the connection to
  be closed.
\<close>

lemma request_buffer_bounded:
  "case handle_data d lib clks chunk (conn, a, x) of (conn', a', x') \<Rightarrow>
     length (parser_buf conn') \<le> max_request_bytes conn' \<and> max_request_bytes conn' = max_request_bytes conn
     \<and> (length (parser_buf conn) + length chunk \<le> max_request_bytes conn
         \<or> parser_buf conn' = [] \<and> a' = a \<and> x' = x \<and> (\<not> socket_open conn' \<or> close_after_write conn'))"
proof -
  have "length (parser_buf conn) + length chunk > max_request_bytes conn \<Longrightarrow> ?thesis"
    by (simp add: handle_data_def buffered_size_def reset_def) (simp add: conn_io_defs)
  then show ?thesis
    using handle_data_buffer [of d lib clks chunk conn a x] handle_data_setup [of conn d lib clks chunk a x]
    by (cases "handle_data d lib clks chunk (conn, a, x)") (auto simp: same_setup_def)
qed

text \<open>
  C36: A subscription overtakes earlier replies. In a batch of one plain command followed by
  \<^verbatim>\<open>SUBSCRIBE\<close> on an idle connection, the confirmation of the subscription is handed to the
  socket before the reply to the command that was sent first.
\<close>

theorem subscribe_overtakes:
  assumes "command_ok c" and "plain c" and "execute_logged d c (clks 0) (a, x) = (Inr r, a', x')"
    and "conn = new_connection i False True [] max_req idle max_pending"
    and "length (serialize r) + length (make_subscribe_reply ''subscribe'' ch
           (fst (subscribe ch i (i, ch) (ctx_broker x')))) \<le> max_pending"
    and "sub = \<lparr>cmd_name = ''SUBSCRIBE'', cmd_args = [ch]\<rparr>" and "command_ok sub"
    and "length (frames [c, sub]) \<le> max_req"
  shows "accepted (fst (handle_data d lib clks (frames [c, sub]) (conn, a, x))) =
    [make_subscribe_reply ''subscribe'' ch (fst (subscribe ch i (i, ch) (ctx_broker x'))), serialize r]"
proof -
  let ?conf = "make_subscribe_reply ''subscribe'' ch (fst (subscribe ch i (i, ch) (ctx_broker x')))"
  let ?conn1 = "do_write ?conf (conn\<lparr>subscribed_channels := [ch]\<rparr>)"
  let ?x1 = "x'\<lparr>ctx_broker := snd (subscribe ch i (i, ch) (ctx_broker x'))\<rparr>"
  have conn: "parser_buf conn = []" "authenticated conn" "max_request_bytes conn = max_req"
    "conn_has_broker conn" "conn_id conn = i" "subscribed_channels conn = []" "\<not> conn_has_stats conn"
    by (simp_all add: assms(4) new_connection_def)
  have "feed [] (frames [c, sub]) = (Inr (Some (command_frame c)), frames [sub])"
    and "feed (frames [sub]) [] = (Inr (Some (command_frame sub)), [])"
    by (simp_all add: feed_frame assms(1,7))
  note rounds = handle_loop_round [OF this(1)] handle_loop_round [OF this(2)]
  have "handle_command d (clks 0) c (conn, a, x) = (None, serialize r, conn, a', x')"
    using assms(2,3) conn by (simp add: handle_command_def plain_def count_command_def)
  moreover have "handle_command d (clks 1) sub (conn, a', x') = (None, [], ?conn1, a', ?x1)"
    using conn by (simp add: handle_command_def assms(6) handle_subscribe_def us_insert_def split_def)
  ultimately have "handle_loop d clks 0 [] (frames [c, sub]) [] (conn, a, x) = (None, [], serialize r, ?conn1, a', ?x1)"
    using assms(1,7) by (simp add: rounds parse_command_frame handle_loop_stop del: frames_simps)
  then have "handle_data d lib clks (frames [c, sub]) (conn, a, x) = (do_write (serialize r) (?conn1\<lparr>parser_buf := []\<rparr>), a', ?x1)"
    using conn assms(8) by (simp add: handle_data_def buffered_size_def)
  with assms(5) show ?thesis
    by (simp add: assms(4) new_connection_def accepted_def conn_io_defs)
qed

theorem subscribe_overtakes_witness:
  "let ping = \<lparr>cmd_name = ''PING'', cmd_args = []\<rparr>; sub = \<lparr>cmd_name = ''SUBSCRIBE'', cmd_args = [''news'']\<rparr>
   in accepted (fst (handle_data (make_default (\<lambda>a b. []) True) (\<lambda>e. []) (\<lambda>n i. 0) (frames [ping, sub])
        (new_connection 1 False True [] 1000 0 1000, None, initial_ctx (initial_stats 0)))) =
      [make_subscribe_reply ''subscribe'' ''news'' 1, serialize (RespSimpleString ''PONG'')]"
proof -
  let ?ping = "\<lparr>cmd_name = ''PING'', cmd_args = []\<rparr>" and ?sub = "\<lparr>cmd_name = ''SUBSCRIBE'', cmd_args = [''news'']\<rparr>"
  let ?d = "make_default (\<lambda>a b. []) True" and ?x = "initial_ctx (initial_stats 0)"
  have ok: "command_ok ?ping" "command_ok ?sub"
    by (simp_all add: command_ok_eval)
  have "execute_logged ?d ?ping (\<lambda>i. 0) (None, ?x) = (Inr (RespSimpleString ''PONG''), None, ?x)"
    by (simp add: execute_logged_def dispatch_def make_default_table on_store_def cmd_ping_def)
  moreover have "fst (subscribe ''news'' 1 (1, ''news'') (ctx_broker ?x)) = 1"
    by (simp add: initial_ctx_def subscribe_def empty_broker_def)
  moreover have "length (make_subscribe_reply ''subscribe'' ''news'' 1) \<le> 100" and "length (frames [?ping, ?sub]) \<le> 100"
    by code_simp+
  ultimately show ?thesis
    using subscribe_overtakes [OF ok(1) _ _ refl, of ?d "\<lambda>n i. 0" None ?x "RespSimpleString ''PONG''" None ?x
        "''news''" 1 1000 ?sub 1000 "\<lambda>e. []" 0] ok(2)
    by (simp add: plain_def crlf_def)
qed

text \<open>
  C23: The connection and the registry never disagree about subscriptions. Whatever bytes arrive, if
  the connection's own list of channels was exactly what the broker has for it, it still is after
  the read; no other connection's subscriptions change; and destroying the connection removes
  all its subscriptions and nothing else.
\<close>

theorem subscriptions_agree:
  assumes "subs_agree conn (ctx_broker x)" and "conn_has_broker conn"
    and "handle_data (make_default double_div True) lib clks chunk (conn, a, x) = (conn', a', x')"
  shows "subs_agree conn' (ctx_broker x') \<and> others_kept (conn_id conn) (ctx_broker x) (ctx_broker x')
    \<and> subscriptions (ctx_broker (connection_destroyed conn x)) =
        {(ch, i) \<in> subscriptions (ctx_broker x). i \<noteq> conn_id conn}"
proof -
  have "subs_agree conn' (ctx_broker x') \<and> others_kept (conn_id conn) (ctx_broker x) (ctx_broker x')"
    using handle_data_agrees [of conn a x double_div True lib clks chunk] assms(1,3)
    by (simp add: step_agrees_def)
  moreover have "subscriptions (ctx_broker (connection_destroyed conn x)) =
      {(ch, i) \<in> subscriptions (ctx_broker x). i \<noteq> conn_id conn}"
    using assms(1,2)
    by (auto simp: connection_destroyed_def Let_def subs_agree_def subscriptions_unsubscribe_all)
  ultimately show ?thesis by blast
qed

theorem subscriptions_agree_witness:
  "let conn = (new_connection 7 True True [] 1000 0 1000)\<lparr>subscribed_channels := [''news'']\<rparr>;
       x = (initial_ctx (initial_stats 0))\<lparr>ctx_broker := two_subscribers\<rparr>
   in subscriptions (ctx_broker (connection_destroyed conn x)) = {(''news'', 8)}"
proof -
  let ?conn = "(new_connection 7 True True [] 1000 0 1000)\<lparr>subscribed_channels := [''news'']\<rparr>"
  let ?x = "(initial_ctx (initial_stats 0))\<lparr>ctx_broker := two_subscribers\<rparr>"
  obtain conn' a' x' where run: "handle_data (make_default (\<lambda>a b. []) True) (\<lambda>e. []) (\<lambda>n i. 0)
      (frames [\<lparr>cmd_name = ''UNSUBSCRIBE'', cmd_args = []\<rparr>]) (?conn, None, ?x) = (conn', a', x')"
    by (metis prod_cases3)
  have ctx: "ctx_broker ?x = two_subscribers" and conn: "conn_id ?conn = 7" "conn_has_broker ?conn"
      "subscribed_channels ?conn = [''news'']"
    by (simp_all add: new_connection_def)
  have "subs_agree ?conn (ctx_broker ?x)"
    unfolding subs_agree_def ctx conn using two_subscribers by (auto simp: us_ok_def)
  note subscriptions_agree [OF this conn(2) run, THEN conjunct2, THEN conjunct2]
  also have "{(ch, i) \<in> subscriptions (ctx_broker ?x). i \<noteq> conn_id ?conn} = {(''news'', 8)}"
    unfolding ctx conn(1) two_subscribers(3) by auto
  finally show ?thesis
    unfolding Let_def .
qed

end
