(* ===== verification/Config.thy ===== *)
theory Config
  imports Std_Strings
begin

text \<open>
  The configuration: \<^verbatim>\<open>utils/config.hpp\<close>, \<^verbatim>\<open>utils/config_loader.cpp\<close> and the command line of
  \<^verbatim>\<open>main.cpp\<close>. The TOML library is a parameter: \<open>parse_file\<close> maps a path to the description of
  a parse error or to a table, and a table is the three typed lookups the loader makes,
  \<^verbatim>\<open>tbl[section][key].value<T>()\<close>, each of which answers nothing when the section or the key is
  missing or has another type. Ports and sizes keep their width: a \<^verbatim>\<open>static_cast\<close> is
  \<^term>\<open>word_of_int\<close>.
\<close>

section \<open>Definitions\<close>

record config =
  port :: "16 word"
  aof_enabled :: bool
  aof_path :: string
  log_level :: string
  log_format :: string
  cfg_requirepass :: string
  cfg_max_request_bytes :: "64 word"
  cfg_idle_timeout_seconds :: "64 word"
  cfg_max_clients :: "64 word"
  cfg_max_pending_write_bytes :: "64 word"

definition default_config :: config where
  "default_config =
     \<lparr>port = 6379, aof_enabled = True, aof_path = ''vortek.aof'', log_level = ''info'',
      log_format = ''plain'', cfg_requirepass = [], cfg_max_request_bytes = 1024 * 1024,
      cfg_idle_timeout_seconds = 300, cfg_max_clients = 10000,
      cfg_max_pending_write_bytes = 1024 * 1024\<rparr>"

subsection \<open>The configuration file\<close>

record toml_table =
  toml_int :: "string \<Rightarrow> string \<Rightarrow> int option"
  toml_string :: "string \<Rightarrow> string \<Rightarrow> string option"
  toml_bool :: "string \<Rightarrow> string \<Rightarrow> bool option"

text \<open>\<open>set_if v f\<close> is \<^verbatim>\<open>if (auto v = ...) cfg.field = *v;\<close>.\<close>

definition set_if :: "'v option \<Rightarrow> ('v \<Rightarrow> config \<Rightarrow> config) \<Rightarrow> config \<Rightarrow> config" where
  "set_if v f cfg = (case v of None \<Rightarrow> cfg | Some x \<Rightarrow> f x cfg)"

definition load_config_file ::
  "(string \<Rightarrow> string + toml_table) \<Rightarrow> string \<Rightarrow> config \<Rightarrow> cpp_exn + config" where
  "load_config_file parse_file path base =
     (case parse_file path of
        Inl description \<Rightarrow>
          Inl (RuntimeError (''TOML parse error in '' @ [CHR 0x27] @ path @ [CHR 0x27] @ '': '' @ description))
      | Inr tbl \<Rightarrow>
          let c1 = set_if (toml_int tbl ''server'' ''port'') (\<lambda>v c. c\<lparr>port := word_of_int v\<rparr>) base;
              c2 = set_if (toml_string tbl ''server'' ''log_level'') (\<lambda>v c. c\<lparr>log_level := v\<rparr>) c1;
              c3 = set_if (toml_string tbl ''server'' ''log_format'') (\<lambda>v c. c\<lparr>log_format := v\<rparr>) c2;
              c4 = set_if (toml_int tbl ''server'' ''max_request_bytes'')
                     (\<lambda>v c. c\<lparr>cfg_max_request_bytes := word_of_int v\<rparr>) c3;
              c5 = set_if (toml_int tbl ''server'' ''idle_timeout_seconds'')
                     (\<lambda>v c. c\<lparr>cfg_idle_timeout_seconds := word_of_int v\<rparr>) c4;
              c6 = set_if (toml_int tbl ''server'' ''max_clients'')
                     (\<lambda>v c. c\<lparr>cfg_max_clients := word_of_int v\<rparr>) c5;
              c7 = set_if (toml_int tbl ''server'' ''max_pending_write_bytes'')
                     (\<lambda>v c. c\<lparr>cfg_max_pending_write_bytes := word_of_int v\<rparr>) c6;
              c8 = set_if (toml_string tbl ''security'' ''requirepass'') (\<lambda>v c. c\<lparr>cfg_requirepass := v\<rparr>) c7;
              c9 = set_if (toml_bool tbl ''persistence'' ''aof_enabled'') (\<lambda>v c. c\<lparr>aof_enabled := v\<rparr>) c8
          in Inr (set_if (toml_string tbl ''persistence'' ''aof_path'') (\<lambda>v c. c\<lparr>aof_path := v\<rparr>) c9))"

subsection \<open>Numbers on the command line\<close>

text \<open>
  \<^verbatim>\<open>std::stoi\<close> and \<^verbatim>\<open>std::stoull\<close> in base 10: white space, an optional sign, then the longest
  run of digits; what follows is ignored. \<^verbatim>\<open>stoull\<close> accepts a minus sign and negates modulo
  \<open>2 ^ 64\<close>, as \<^verbatim>\<open>strtoull\<close> does.
\<close>

definition is_space :: "char \<Rightarrow> bool" where
  "is_space c \<longleftrightarrow> c = CHR '' '' \<or> (9 \<le> (of_char c :: nat) \<and> (of_char c :: nat) \<le> 13)"

definition scan_number :: "string \<Rightarrow> bool \<times> string" where
  "scan_number s =
     (let t = dropWhile is_space s;
          neg = (t \<noteq> [] \<and> hd t = CHR ''-'');
          body = (if t \<noteq> [] \<and> (hd t = CHR ''-'' \<or> hd t = CHR ''+'') then tl t else t)
      in (neg, takeWhile is_digit body))"

definition stoi :: "string \<Rightarrow> cpp_exn + int" where
  "stoi s =
     (case scan_number s of (neg, ds) \<Rightarrow>
        let v = (if neg then - int (digits_val ds) else int (digits_val ds))
        in if ds = [] then Inl (StdExn InvalidArgument)
           else if v < - 2147483648 \<or> v > 2147483647 then Inl (StdExn OutOfRange)
           else Inr v)"

definition stoull :: "string \<Rightarrow> cpp_exn + 64 word" where
  "stoull s =
     (case scan_number s of (neg, ds) \<Rightarrow>
        if ds = [] then Inl (StdExn InvalidArgument)
        else if digits_val ds > 18446744073709551615 then Inl (StdExn OutOfRange)
        else Inr (if neg then - word_of_nat (digits_val ds) else word_of_nat (digits_val ds)))"

subsection \<open>The command line\<close>

text \<open>
  The options that take an argument: \<open>takes_value\<close> are the branches that call \<^verbatim>\<open>need_next\<close>,
  \<open>set_option\<close> what they do with the argument.
\<close>

definition takes_value :: "string \<Rightarrow> bool" where
  "takes_value arg \<longleftrightarrow> arg \<in> set [''--port'', ''--aof'', ''--requirepass'', ''--log-level'', ''--log-format'',
     ''--max-request-bytes'', ''--idle-timeout-seconds'', ''--max-clients'', ''--max-pending-write-bytes'']"

definition set_size ::
  "(64 word \<Rightarrow> config \<Rightarrow> config) \<Rightarrow> string \<Rightarrow> config \<Rightarrow> cpp_exn + config" where
  "set_size f v cfg = (case stoull v of Inl ex \<Rightarrow> Inl ex | Inr n \<Rightarrow> Inr (f n cfg))"

definition set_option :: "string \<Rightarrow> string \<Rightarrow> config \<Rightarrow> cpp_exn + config" where
  "set_option arg v cfg =
     (if arg = ''--port'' then
        (case stoi v of Inl ex \<Rightarrow> Inl ex | Inr n \<Rightarrow> Inr (cfg\<lparr>port := word_of_int n\<rparr>))
      else if arg = ''--aof'' then Inr (cfg\<lparr>aof_path := v, aof_enabled := True\<rparr>)
      else if arg = ''--requirepass'' then Inr (cfg\<lparr>cfg_requirepass := v\<rparr>)
      else if arg = ''--log-level'' then Inr (cfg\<lparr>log_level := v\<rparr>)
      else if arg = ''--log-format'' then Inr (cfg\<lparr>log_format := v\<rparr>)
      else if arg = ''--max-request-bytes'' then
        set_size (\<lambda>n c. c\<lparr>cfg_max_request_bytes := n\<rparr>) v cfg
      else if arg = ''--idle-timeout-seconds'' then
        set_size (\<lambda>n c. c\<lparr>cfg_idle_timeout_seconds := n\<rparr>) v cfg
      else if arg = ''--max-clients'' then set_size (\<lambda>n c. c\<lparr>cfg_max_clients := n\<rparr>) v cfg
      else set_size (\<lambda>n c. c\<lparr>cfg_max_pending_write_bytes := n\<rparr>) v cfg)"

datatype parse_outcome = Parsed config | ExitZero | Threw cpp_exn

text \<open>The first pass looks for \<^verbatim>\<open>--config\<close>; the last one wins.\<close>

fun find_config :: "string list \<Rightarrow> string option \<Rightarrow> string option" where
  "find_config (arg # v # rest) config_path =
     (if arg = ''--config'' then find_config rest (Some v) else find_config (v # rest) config_path)"
| "find_config _ config_path = config_path"

text \<open>The second pass applies the options.\<close>

fun apply_args :: "string list \<Rightarrow> config \<Rightarrow> parse_outcome" where
  "apply_args [] cfg = Parsed cfg"
| "apply_args (arg # rest) cfg =
     (if arg = ''--config'' then (case rest of [] \<Rightarrow> Parsed cfg | v # rest' \<Rightarrow> apply_args rest' cfg)
      else if takes_value arg then
        (case rest of
           [] \<Rightarrow> Threw (RuntimeError (arg @ '' requires an argument''))
         | v # rest' \<Rightarrow>
             (case set_option arg v cfg of Inl ex \<Rightarrow> Threw ex | Inr cfg' \<Rightarrow> apply_args rest' cfg'))
      else if arg = ''--no-aof'' then apply_args rest (cfg\<lparr>aof_enabled := False\<rparr>)
      else if arg = ''--help'' \<or> arg = ''-h'' then ExitZero
      else Threw (RuntimeError (''unknown option: '' @ arg)))"

text \<open>\<open>args\<close> is \<^verbatim>\<open>argv\<close> without the program's name.\<close>

definition parse_args :: "(string \<Rightarrow> string + toml_table) \<Rightarrow> string list \<Rightarrow> parse_outcome" where
  "parse_args parse_file args =
     (case find_config args None of
        None \<Rightarrow> apply_args args default_config
      | Some path \<Rightarrow>
          (case load_config_file parse_file path default_config of
             Inl ex \<Rightarrow> Threw ex
           | Inr cfg \<Rightarrow> apply_args args cfg))"

section \<open>Numbers\<close>

lemma digit_not_space: "is_digit c \<Longrightarrow> \<not> is_space c \<and> c \<noteq> CHR ''-'' \<and> c \<noteq> CHR ''+''"
  by (auto simp: is_digit_def is_space_def)

lemma hd_nat_to_string_digit: "is_digit (hd (nat_to_string n))"
  by (rule nat_to_string_digits [of _ n]) simp

lemma dropWhile_space_number [simp]: "dropWhile is_space (nat_to_string n) = nat_to_string n"
  using digit_not_space [OF hd_nat_to_string_digit [of n]]
  by (cases "nat_to_string n") auto

lemma scan_number_to_string:
  "scan_number (to_string n) = (n < 0, nat_to_string (nat \<bar>n\<bar>))"
  using digit_not_space [OF hd_nat_to_string_digit [of "nat n"]]
  by (auto simp: scan_number_def to_string_def Let_def is_space_def)

lemma stoi_to_string: "- 2147483648 \<le> n \<Longrightarrow> n \<le> 2147483647 \<Longrightarrow> stoi (to_string n) = Inr n"
  by (auto simp: stoi_def scan_number_to_string Let_def)

section \<open>Properties\<close>

text \<open>
  C40: The port is taken modulo \<open>2 ^ 16\<close>: any number that fits an \<^verbatim>\<open>int\<close> is accepted for
  \<^verbatim>\<open>--port\<close>, also a negative one, and the server listens on its low 16 bits.
\<close>

theorem port_truncated:
  assumes "- 2147483648 \<le> n" and "n \<le> 2147483647"
  shows "\<exists>cfg. parse_args parse_file [''--port'', to_string n] = Parsed cfg \<and> uint (port cfg) = n mod 65536"
  using stoi_to_string [OF assms]
  by (simp add: parse_args_def takes_value_def set_option_def uint_word_of_int)

theorem port_truncated_witness:
  "\<exists>cfg. parse_args (\<lambda>p. Inl []) [''--port'', to_string 70000] = Parsed cfg \<and> uint (port cfg) = 70000 mod 65536"
  by (rule port_truncated) simp_all

text \<open>
  What a command line says, independently of how it is applied: the options in order, each with
  its argument, and the last of those that name a given setting.
\<close>

fun cli_settings :: "string list \<Rightarrow> (string \<times> string) list" where
  "cli_settings [] = []"
| "cli_settings (arg # rest) =
     (if arg = ''--no-aof'' then (arg, []) # cli_settings rest
      else case rest of [] \<Rightarrow> [] | v # rest' \<Rightarrow> (arg, v) # cli_settings rest')"

definition last_given :: "string list \<Rightarrow> (string \<times> string) list \<Rightarrow> (string \<times> string) option" where
  "last_given opts ps = find (\<lambda>(arg, v). arg \<in> set opts) (rev ps)"

text \<open>
  \<open>overridden ps cfg cfg'\<close>: every setting has the value of the last option that names it, read as
  its type demands, and its old value if there is none.
\<close>

definition takes_last ::
  "string list \<Rightarrow> (string \<times> string \<Rightarrow> 'f option) \<Rightarrow> (string \<times> string) list \<Rightarrow> 'f \<Rightarrow> 'f \<Rightarrow> bool" where
  "takes_last opts reads ps old new \<longleftrightarrow>
     Some new = (case last_given opts ps of None \<Rightarrow> Some old | Some p \<Rightarrow> reads p)"

definition reads_text :: "string \<times> string \<Rightarrow> string option" where
  "reads_text p = Some (snd p)"

definition reads_port :: "string \<times> string \<Rightarrow> 16 word option" where
  "reads_port p = (case stoi (snd p) of Inl ex \<Rightarrow> None | Inr n \<Rightarrow> Some (word_of_int n))"

definition reads_size :: "string \<times> string \<Rightarrow> 64 word option" where
  "reads_size p = (case stoull (snd p) of Inl ex \<Rightarrow> None | Inr n \<Rightarrow> Some n)"

definition reads_switch :: "string \<times> string \<Rightarrow> bool option" where
  "reads_switch p = Some (fst p = ''--aof'')"

definition overridden :: "(string \<times> string) list \<Rightarrow> config \<Rightarrow> config \<Rightarrow> bool" where
  "overridden ps cfg cfg' \<longleftrightarrow>
     takes_last [''--port''] reads_port ps (port cfg) (port cfg')
     \<and> takes_last [''--aof''] reads_text ps (aof_path cfg) (aof_path cfg')
     \<and> takes_last [''--aof'', ''--no-aof''] reads_switch ps (aof_enabled cfg) (aof_enabled cfg')
     \<and> takes_last [''--requirepass''] reads_text ps (cfg_requirepass cfg) (cfg_requirepass cfg')
     \<and> takes_last [''--log-level''] reads_text ps (log_level cfg) (log_level cfg')
     \<and> takes_last [''--log-format''] reads_text ps (log_format cfg) (log_format cfg')
     \<and> takes_last [''--max-request-bytes''] reads_size ps (cfg_max_request_bytes cfg) (cfg_max_request_bytes cfg')
     \<and> takes_last [''--idle-timeout-seconds''] reads_size ps
         (cfg_idle_timeout_seconds cfg) (cfg_idle_timeout_seconds cfg')
     \<and> takes_last [''--max-clients''] reads_size ps (cfg_max_clients cfg) (cfg_max_clients cfg')
     \<and> takes_last [''--max-pending-write-bytes''] reads_size ps
         (cfg_max_pending_write_bytes cfg) (cfg_max_pending_write_bytes cfg')"

lemma find_append: "find P (xs @ ys) = (case find P xs of None \<Rightarrow> find P ys | Some x \<Rightarrow> Some x)"
  by (induction xs) auto

lemma last_given_Nil [simp]: "last_given opts [] = None"
  by (simp add: last_given_def)

lemma last_given_Cons:
  "last_given opts (p # ps) =
     (case last_given opts ps of
        None \<Rightarrow> (if fst p \<in> set opts then Some p else None)
      | Some q \<Rightarrow> Some q)"
  by (simp add: last_given_def find_append split_def split: option.split)

lemma takes_last_Cons:
  "takes_last opts reads [p] a b \<Longrightarrow> takes_last opts reads ps b c \<Longrightarrow> takes_last opts reads (p # ps) a c"
  by (auto simp: takes_last_def last_given_Cons split: option.splits if_splits)

lemma overridden_Cons: "overridden [p] a b \<Longrightarrow> overridden ps b c \<Longrightarrow> overridden (p # ps) a c"
  unfolding overridden_def by (elim conjE, intro conjI) (erule (1) takes_last_Cons)+

lemma overridden_Nil: "overridden [] cfg cfg"
  by (simp add: overridden_def takes_last_def)

lemmas overridden_defs = overridden_def takes_last_def last_given_Cons reads_text_def reads_port_def
  reads_size_def reads_switch_def

lemma set_option_overrides:
  assumes "set_option arg v cfg = Inr cfg'" and "takes_value arg"
  shows "overridden [(arg, v)] cfg cfg'"
proof -
  have "arg \<in> set [''--port'', ''--aof'', ''--requirepass'', ''--log-level'', ''--log-format'',
      ''--max-request-bytes'', ''--idle-timeout-seconds'', ''--max-clients'', ''--max-pending-write-bytes'']"
    using assms(2) unfolding takes_value_def .
  with assms(1) show ?thesis
    unfolding list.set insert_iff empty_iff
    by (elim disjE FalseE) (auto simp: set_option_def set_size_def overridden_defs split: sum.splits)
qed

lemma apply_args_overrides: "apply_args args cfg = Parsed cfg' \<Longrightarrow> overridden (cli_settings args) cfg cfg'"
proof (induction args cfg rule: apply_args.induct)
  case (1 cfg)
  then show ?case by (simp add: overridden_Nil)
next
  case (2 arg rest cfg)
  consider (conf) "arg = ''--config''" | (valued) "arg \<noteq> ''--config''" "takes_value arg"
    | (no_aof) "arg \<noteq> ''--config''" "\<not> takes_value arg" "arg = ''--no-aof''"
    using "2.prems" by (fastforce split: if_splits)
  then show ?case
  proof cases
    case conf
    have "overridden [(''--config'', v)] cfg cfg" for v
      by (simp add: overridden_defs)
    with conf 2 show ?thesis
      by (cases rest) (auto simp: overridden_Nil intro: overridden_Cons)
  next
    case valued
    with "2.prems" obtain v rest' cfg1
      where rest: "rest = v # rest'" and set: "set_option arg v cfg = Inr cfg1"
        and parsed: "apply_args rest' cfg1 = Parsed cfg'"
      by (auto split: list.splits sum.splits)
    have "overridden (cli_settings rest') cfg1 cfg'"
      using valued "2.IH"(2) rest set parsed by blast
    moreover have "arg \<noteq> ''--no-aof''"
      using valued(2) by (auto simp: takes_value_def)
    ultimately show ?thesis
      using overridden_Cons [OF set_option_overrides [OF set valued(2)]] rest by simp
  next
    case no_aof
    then have "overridden [(arg, [])] cfg (cfg\<lparr>aof_enabled := False\<rparr>)"
      by (simp add: overridden_defs)
    moreover have "apply_args rest (cfg\<lparr>aof_enabled := False\<rparr>) = Parsed cfg'"
      using no_aof "2.prems" by simp
    then have "overridden (cli_settings rest) (cfg\<lparr>aof_enabled := False\<rparr>) cfg'"
      by (rule "2.IH"(3) [OF no_aof])
    ultimately show ?thesis
      using no_aof(3) by (simp add: overridden_Cons)
  qed
qed

text \<open>
  C39: Command line options override exactly what they name: whenever the arguments are accepted,
  every setting ends with the value of the last option that names it, and a setting that no option
  names keeps its value from the configuration file, or its default if there is no such file.
\<close>

theorem cli_overrides_exactly:
  assumes "parse_args parse_file args = Parsed cfg'"
  shows "\<exists>cfg. (case find_config args None of
                 None \<Rightarrow> cfg = default_config
               | Some path \<Rightarrow> load_config_file parse_file path default_config = Inr cfg)
      \<and> overridden (cli_settings args) cfg cfg'"
  using assms by (auto simp: parse_args_def dest: apply_args_overrides split: option.splits sum.splits)

theorem cli_overrides_exactly_witness:
  "\<exists>cfg. cfg = default_config
     \<and> overridden [(''--port'', ''7000''), (''--no-aof'', []), (''--port'', ''7001'')] cfg
         (default_config\<lparr>port := 7001, aof_enabled := False\<rparr>)"
proof -
  have "stoi ''7000'' = Inr 7000" and "stoi ''7001'' = Inr 7001"
    by code_simp+
  then show ?thesis
    using cli_overrides_exactly [of "\<lambda>p. Inl []" "[''--port'', ''7000'', ''--no-aof'', ''--port'', ''7001'']"
        "default_config\<lparr>port := 7001, aof_enabled := False\<rparr>"]
    by (simp add: parse_args_def takes_value_def set_option_def)
qed

end
