(* ===== verification/Server.thy ===== *)
theory Server
  imports Connection Config
begin

text \<open>
  \<^verbatim>\<open>server/server.cpp\<close> and the event loop. The handlers of the server and of its connections run
  one after the other on a single thread, so the running server is a step relation: each step is one
  completion handler, one posted write, a signal, a sweep of the expiry thread or the destruction of
  a connection nothing refers to. What the network and the operating system decide (which
  operation completes, with which bytes or which error, at which time) is chosen freely by the step.
\<close>

section \<open>Definitions\<close>

record server =
  stopping :: bool
  accept_pending :: bool
  poll_armed :: bool
  io_stopped :: bool
  crashed :: bool
  last_signal :: int
  srv_requirepass :: string
  srv_max_request_bytes :: nat
  srv_idle_timeout :: nat
  srv_max_clients :: "64 word"
  srv_max_pending :: nat
  srv_has_stats :: bool
  srv_has_broker :: bool
  srv_aof :: "aof option"
  srv_ctx :: server_ctx
  srv_conns :: "(nat, connection) unordered_map"
  srv_next_id :: nat
  rejected :: nat

text \<open>The signal handler \<^verbatim>\<open>setup_signal_handlers\<close> installs for \<^verbatim>\<open>SIGINT\<close> and \<^verbatim>\<open>SIGTERM\<close>.\<close>

definition handled_signals :: "int list" where
  "handled_signals = [2, 15]"

definition vortek_signal_handler :: "int \<Rightarrow> server \<Rightarrow> server" where
  "vortek_signal_handler signal_number s = s\<lparr>last_signal := signal_number\<rparr>"

text \<open>
  The constructor. \<open>srv_conns\<close> holds the connection objects that exist, by address; addresses are
  taken from a counter, since live objects never share one.
\<close>

definition new_server :: "config \<Rightarrow> bool \<Rightarrow> bool \<Rightarrow> aof option \<Rightarrow> server_ctx \<Rightarrow> server" where
  "new_server cfg has_stats has_broker a x =
     \<lparr>stopping = False, accept_pending = False, poll_armed = False, io_stopped = False, crashed = False,
      last_signal = 0, srv_requirepass = cfg_requirepass cfg,
      srv_max_request_bytes = unat (cfg_max_request_bytes cfg),
      srv_idle_timeout = unat (cfg_idle_timeout_seconds cfg), srv_max_clients = cfg_max_clients cfg,
      srv_max_pending = unat (cfg_max_pending_write_bytes cfg), srv_has_stats = has_stats,
      srv_has_broker = has_broker, srv_aof = a, srv_ctx = x, srv_conns = [], srv_next_id = 0,
      rejected = 0\<rparr>"

definition set_ready :: "bool \<Rightarrow> server \<Rightarrow> server" where
  "set_ready b s =
     (if srv_has_stats s
      then s\<lparr>srv_ctx := (srv_ctx s)\<lparr>ctx_stats := (ctx_stats (srv_ctx s))\<lparr>ready := b\<rparr>\<rparr>\<rparr> else s)"

definition server_stop :: "server \<Rightarrow> server" where
  "server_stop s =
     (if stopping s then s
      else (set_ready False (s\<lparr>stopping := True\<rparr>))\<lparr>poll_armed := False, io_stopped := True\<rparr>)"

definition poll_signal_flag :: "server \<Rightarrow> server" where
  "poll_signal_flag s =
     (if stopping s then s
      else if last_signal s \<noteq> 0 then server_stop s
      else s\<lparr>poll_armed := True\<rparr>)"

text \<open>The completion handler of the poll timer.\<close>

definition on_poll_timer :: "bool \<Rightarrow> bool \<Rightarrow> server \<Rightarrow> server" where
  "on_poll_timer aborted ec s =
     (let s' = s\<lparr>poll_armed := False\<rparr>
      in if aborted \<or> stopping s' then s' else if ec then s' else poll_signal_flag s')"

definition setup_signal_handlers :: "server \<Rightarrow> server" where
  "setup_signal_handlers s = poll_signal_flag (s\<lparr>last_signal := 0\<rparr>)"

definition server_do_accept :: "server \<Rightarrow> server" where
  "server_do_accept s = s\<lparr>accept_pending := True\<rparr>"

text \<open>\<^verbatim>\<open>run()\<close> up to the event loop.\<close>

definition server_run :: "server \<Rightarrow> server" where
  "server_run s = server_do_accept (setup_signal_handlers (set_ready True s))"

text \<open>
  The completion handler of \<^verbatim>\<open>async_accept\<close>. \<open>peer_known\<close> says whether the new socket still has
  a remote end: \<^verbatim>\<open>socket.remote_endpoint()\<close> throws when it has not, and nothing catches the
  exception on its way through \<^verbatim>\<open>io_ctx_.run()\<close> and \<^verbatim>\<open>main\<close>.
\<close>

datatype accept_result = Accepted (peer_known: bool) | AcceptAborted | AcceptFailed

definition create_connection :: "server \<Rightarrow> server" where
  "create_connection s =
     (let conn = create (srv_next_id s) (srv_has_stats s) (srv_has_broker s) (srv_requirepass s)
                   (srv_max_request_bytes s) (srv_idle_timeout s) (srv_max_pending s)
      in s\<lparr>srv_conns := AList.update (srv_next_id s) (start conn) (srv_conns s),
           srv_next_id := Suc (srv_next_id s),
           srv_ctx := (srv_ctx s)\<lparr>ctx_stats := connection_constructed conn (ctx_stats (srv_ctx s))\<rparr>\<rparr>)"

definition on_accept :: "accept_result \<Rightarrow> server \<Rightarrow> server" where
  "on_accept res s =
     (let s0 = s\<lparr>accept_pending := False\<rparr> in
      case res of
        Accepted peer \<Rightarrow>
          let current_clients = (if srv_has_stats s0 then connected_clients (ctx_stats (srv_ctx s0)) else 0)
          in if srv_has_stats s0 \<and> current_clients \<ge> sint (srv_max_clients s0)
             then server_do_accept (s0\<lparr>rejected := Suc (rejected s0)\<rparr>)
             else if \<not> peer then s0\<lparr>crashed := True\<rparr>
             else server_do_accept (create_connection s0)
      | AcceptAborted \<Rightarrow> s0
      | AcceptFailed \<Rightarrow> if stopping s0 then s0 else server_do_accept s0)"

text \<open>
  A connection object lives as long as something owns it: a pending operation or timer, a posted
  write, or a callback in the broker.
\<close>

definition unreferenced :: "nat \<Rightarrow> connection \<Rightarrow> server \<Rightarrow> bool" where
  "unreferenced cid conn s \<longleftrightarrow>
     \<not> read_in_progress conn \<and> \<not> idle_armed conn \<and> (\<not> write_in_progress conn \<or> \<not> socket_open conn)
     \<and> cid \<notin> fst ` set (ctx_posted (srv_ctx s))
     \<and> list_all (\<lambda>(ch, subs). list_all (\<lambda>sub. sub_id sub \<noteq> cid) subs) (channels (ctx_broker (srv_ctx s)))"

definition running :: "server \<Rightarrow> bool" where
  "running s \<longleftrightarrow> \<not> io_stopped s \<and> \<not> crashed s"

definition put_conn :: "nat \<Rightarrow> connection \<Rightarrow> aof option \<Rightarrow> server_ctx \<Rightarrow> server \<Rightarrow> server" where
  "put_conn cid conn a x s = s\<lparr>srv_conns := AList.update cid conn (srv_conns s), srv_aof := a, srv_ctx := x\<rparr>"

inductive server_step :: "dispatcher \<Rightarrow> (std_exn \<Rightarrow> string) \<Rightarrow> server \<Rightarrow> server \<Rightarrow> bool"
  for d lib where
  accept_done: "running s \<Longrightarrow> accept_pending s \<Longrightarrow> (res = AcceptAborted \<Longrightarrow> stopping s) \<Longrightarrow>
    server_step d lib s (on_accept res s)"
| read_done: "running s \<Longrightarrow> um_find (srv_conns s) cid = Some conn \<Longrightarrow> read_in_progress conn \<Longrightarrow> length chunk \<le> 4096 \<Longrightarrow>
    on_read_complete d lib clks ec chunk (conn, srv_aof s, srv_ctx s) = (conn', a', x') \<Longrightarrow>
    server_step d lib s (put_conn cid conn' a' x' s)"
| write_done: "running s \<Longrightarrow> um_find (srv_conns s) cid = Some conn \<Longrightarrow> write_in_progress conn \<Longrightarrow>
    server_step d lib s (put_conn cid (on_write_complete ec (length (write_buf conn)) conn) (srv_aof s) (srv_ctx s) s)"
| idle_fired: "running s \<Longrightarrow> um_find (srv_conns s) cid = Some conn \<Longrightarrow> idle_armed conn \<Longrightarrow>
    server_step d lib s (put_conn cid (on_idle_timer aborted ec conn) (srv_aof s) (srv_ctx s) s)"
| posted_write: "running s \<Longrightarrow> ctx_posted (srv_ctx s) = (cid, frame) # rest \<Longrightarrow> um_find (srv_conns s) cid = Some conn \<Longrightarrow>
    server_step d lib s (put_conn cid (do_write frame conn) (srv_aof s) ((srv_ctx s)\<lparr>ctx_posted := rest\<rparr>) s)"
| poll_fired: "running s \<Longrightarrow> poll_armed s \<Longrightarrow> server_step d lib s (on_poll_timer aborted ec s)"
| signal_raised: "n \<in> set handled_signals \<Longrightarrow> server_step d lib s (vortek_signal_handler n s)"
| expiry_sweep: "server_step d lib s (s\<lparr>srv_ctx := (srv_ctx s)\<lparr>ctx_store := sweep now (ctx_store (srv_ctx s))\<rparr>\<rparr>)"
| conn_destroyed: "running s \<Longrightarrow> um_find (srv_conns s) cid = Some conn \<Longrightarrow> unreferenced cid conn s \<Longrightarrow>
    server_step d lib s
      (s\<lparr>srv_conns := AList.delete cid (srv_conns s), srv_ctx := connection_destroyed conn (srv_ctx s)\<rparr>)"

abbreviation reachable :: "dispatcher \<Rightarrow> (std_exn \<Rightarrow> string) \<Rightarrow> server \<Rightarrow> server \<Rightarrow> bool" where
  "reachable d lib \<equiv> (server_step d lib)\<^sup>*\<^sup>*"

text \<open>
  \<^verbatim>\<open>main\<close>: the configuration, the shared objects, the log and its replay, the server. \<open>Inl\<close> is a
  run that never serves a client: it ends with an exit code, or it is terminated because the
  constructor of the server cannot bind its port, which throws and which nothing catches; by
  then the log has been replayed and, if need be, cut. \<open>disk\<close> is the file system, \<open>can_open\<close>,
  \<open>can_read\<close>, \<open>can_resize\<close> and \<open>can_reopen\<close> what it permits for the log, \<open>can_bind\<close> whether the port is free,
  \<open>now\<close> and \<open>clks\<close> the clock.
\<close>

datatype no_server = ExitCode int | Terminated "aof option"

definition main_boot ::
  "(string \<Rightarrow> string + toml_table) \<Rightarrow> (string \<Rightarrow> string option) \<Rightarrow> bool \<Rightarrow> bool \<Rightarrow> bool \<Rightarrow> bool \<Rightarrow> bool \<Rightarrow>
     dispatcher \<Rightarrow> time_point \<Rightarrow> (nat \<Rightarrow> clock) \<Rightarrow> string list \<Rightarrow> no_server + server" where
  "main_boot parse_file disk can_open can_read can_resize can_reopen can_bind d now clks args =
     (case parse_args parse_file args of
        Threw ex \<Rightarrow> Inl (ExitCode 1)
      | ExitZero \<Rightarrow> Inl (ExitCode 0)
      | Parsed cfg \<Rightarrow>
          let stats = (initial_stats now)\<lparr>stats_port := port cfg, stats_aof_enabled := aof_enabled cfg\<rparr>;
              x = initial_ctx stats;
              f = aof_new can_open (disk (aof_path cfg));
              (a, x') =
                (if aof_enabled cfg \<and> is_open f
                 then (case replay can_read can_resize can_reopen d clks f x of (n, f', x') \<Rightarrow> (Some f', x'))
                 else (None, x))
          in if can_bind then Inr (server_run (new_server cfg True True a x')) else Inl (Terminated a))"

section \<open>The invariant of the running server\<close>

text \<open>
  Every connection is in order, knows its own address and agrees with the broker; the shared objects
  are in order and refer only to connections that exist; the client counter is the number of
  connections and within the limit; the server is ready exactly while it is not stopping, and as
  long as it runs it waits for the next client.
\<close>

definition live_ids :: "server \<Rightarrow> nat set" where
  "live_ids s = fst ` set (srv_conns s)"

definition conn_entry_ok :: "server \<Rightarrow> nat \<Rightarrow> connection \<Rightarrow> bool" where
  "conn_entry_ok s cid conn \<longleftrightarrow> conn_id conn = cid \<and> cid < srv_next_id s \<and> conn_inv conn
     \<and> subs_agree conn (ctx_broker (srv_ctx s)) \<and> conn_has_stats conn \<and> conn_has_broker conn
     \<and> max_request_bytes conn = srv_max_request_bytes s"

definition server_inv :: "server \<Rightarrow> bool" where
  "server_inv s \<longleftrightarrow> srv_has_stats s \<and> srv_has_broker s \<and> um_ok (srv_conns s)
     \<and> (\<forall>(cid, conn)\<in>set (srv_conns s). conn_entry_ok s cid conn)
     \<and> ctx_inv (live_ids s) (int (length (srv_conns s))) (\<not> stopping s) (srv_ctx s)
     \<and> int (length (srv_conns s)) \<le> max 0 (sint (srv_max_clients s))
     \<and> (stopping s \<or> crashed s \<or> accept_pending s)
     \<and> (stopping s \<longleftrightarrow> io_stopped s)"

lemma server_inv_entry:
  "server_inv s \<Longrightarrow> um_find (srv_conns s) cid = Some conn \<Longrightarrow> conn_entry_ok s cid conn \<and> cid \<in> live_ids s"
  by (force simp: server_inv_def live_ids_def dest!: map_of_SomeD)

lemma update_existing:
  assumes "um_ok m" and "um_find m k = Some v"
  shows "fst ` set (AList.update k w m) = fst ` set m" and "length (AList.update k w m) = length m"
proof -
  show "fst ` set (AList.update k w m) = fst ` set m"
    using assms(2) by (force simp: dom_update dest: map_of_SomeD)
  show "length (AList.update k w m) = length m"
    using assms by (simp add: um.size_assign)
qed

text \<open>One connection changes, with the shared objects.\<close>

lemma server_inv_put:
  assumes inv: "server_inv s" and find: "um_find (srv_conns s) cid = Some conn"
    and conn: "conn_inv conn'" "same_setup conn conn'"
    and joint: "joint_inv (live_ids s) (int (length (srv_conns s))) (\<not> stopping s) (conn', a', x')"
    and kept: "others_kept cid (ctx_broker (srv_ctx s)) (ctx_broker x')"
  shows "server_inv (put_conn cid conn' a' x' s)"
proof -
  have ok: "um_ok (srv_conns s)"
    using inv by (simp add: server_inv_def)
  note entry = server_inv_entry [OF inv find]
  have "conn_entry_ok (put_conn cid conn' a' x' s) c e"
    if "(c, e) \<in> set (AList.update cid conn' (srv_conns s))" for c e
  proof (cases "c = cid")
    case True
    then have "e = conn'"
      using that ok map_of_is_SomeI [of "AList.update cid conn' (srv_conns s)" c e]
      by (simp add: um_ok_def distinct_update)
    with True entry conn joint show ?thesis
      by (auto simp: conn_entry_ok_def put_conn_def same_setup_def joint_inv_def)
  next
    case False
    with that have "(c, e) \<in> set (srv_conns s)"
      using set_update_subset by fastforce
    then have "conn_entry_ok s c e"
      using inv by (auto simp: server_inv_def)
    with False kept joint show ?thesis
      by (auto simp: conn_entry_ok_def put_conn_def subs_agree_def others_kept_def joint_inv_def)
  qed
  with inv joint update_existing [OF ok find, of conn'] show ?thesis
    by (auto simp: server_inv_def live_ids_def put_conn_def joint_inv_def um.invar_assign)
qed

lemma server_inv_joint:
  assumes "server_inv s" and "um_find (srv_conns s) cid = Some conn"
  shows "joint_inv (live_ids s) (int (length (srv_conns s))) (\<not> stopping s) (conn, a, srv_ctx s)"
    and "conn_inv conn" and "conn_id conn = cid"
  using server_inv_entry [OF assms] assms(1)
  by (auto simp: joint_inv_def conn_entry_ok_def server_inv_def)

inductive_cases server_stepE: "server_step d lib s s'"

lemma set_ready_inv:
  "server_inv s \<Longrightarrow> ctx_inv K n b (srv_ctx (set_ready b s)) = ctx_inv K n (\<not> stopping s) (srv_ctx s)"
  by (auto simp: server_inv_def set_ready_def ctx_inv_def)

lemma server_stop_inv: "server_inv s \<Longrightarrow> server_inv (server_stop s)"
  by (auto simp: server_inv_def server_stop_def set_ready_def ctx_inv_def live_ids_def conn_entry_ok_def)

lemma server_inv_poll_armed [simp]: "server_inv (s\<lparr>poll_armed := b\<rparr>) = server_inv s"
  by (simp add: server_inv_def live_ids_def conn_entry_ok_def)

lemma server_inv_signal [simp]: "server_inv (s\<lparr>last_signal := n\<rparr>) = server_inv s"
  by (simp add: server_inv_def live_ids_def conn_entry_ok_def)

lemma on_poll_timer_inv: "server_inv s \<Longrightarrow> server_inv (on_poll_timer aborted ec s)"
  by (simp add: on_poll_timer_def poll_signal_flag_def Let_def server_stop_inv)

lemma sweep_inv:
  "server_inv s \<Longrightarrow> server_inv (s\<lparr>srv_ctx := (srv_ctx s)\<lparr>ctx_store := sweep now (ctx_store (srv_ctx s))\<rparr>\<rparr>)"
  by (auto simp: server_inv_def live_ids_def conn_entry_ok_def ctx_inv_def kv.inv_sweep kv_tidy_sweep)

lemma create_connection_ctx:
  assumes "ctx_inv K n r x" and "n < sint (m :: 64 word)" and "0 \<le> n"
  shows "ctx_inv (insert k K) (n + 1) r (x\<lparr>ctx_stats := (ctx_stats x)\<lparr>connected_clients := wrap64 (n + 1)\<rparr>\<rparr>)"
proof -
  have "sint m < 2 ^ 63"
    using sint_less [of m] by simp
  with assms(2,3) have "wrap64 (n + 1) = n + 1"
    by (intro wrap64_fits) (simp add: int64_defs)
  with assms(1) show ?thesis
    by (auto simp: ctx_inv_def)
qed

lemma create_connection_inv:
  assumes inv: "server_inv (s\<lparr>accept_pending := True\<rparr>)"
    and room: "connected_clients (ctx_stats (srv_ctx s)) < sint (srv_max_clients s)"
  shows "server_inv (server_do_accept (create_connection s))"
proof -
  let ?n = "int (length (srv_conns s))" and ?next = "srv_next_id s"
  have ctx: "ctx_inv (live_ids s) ?n (\<not> stopping s) (srv_ctx s)" and ok: "um_ok (srv_conns s)"
    and entries: "\<forall>(cid, conn)\<in>set (srv_conns s). conn_entry_ok s cid conn"
    and stats: "srv_has_stats s" "srv_has_broker s"
    using inv unfolding server_inv_def live_ids_def conn_entry_ok_def by auto
  then have fresh: "?next \<notin> live_ids s"
    by (auto simp: live_ids_def conn_entry_ok_def)
  then have none: "um_find (srv_conns s) ?next = None"
    by (simp add: live_ids_def map_of_eq_None_iff)
  have n: "connected_clients (ctx_stats (srv_ctx s)) = ?n"
    using ctx by (simp add: ctx_inv_def)
  note ctx' = create_connection_ctx [OF ctx room [unfolded n], of ?next, simplified]
  let ?conn = "start (new_connection ?next True True (srv_requirepass s) (srv_max_request_bytes s)
      (srv_idle_timeout s) (srv_max_pending s))"
  define s' where "s' = server_do_accept (create_connection s)"
  have s': "srv_conns s' = AList.update ?next ?conn (srv_conns s)" "srv_next_id s' = Suc ?next"
    "srv_ctx s' = (srv_ctx s)\<lparr>ctx_stats := (ctx_stats (srv_ctx s))\<lparr>connected_clients := wrap64 (?n + 1)\<rparr>\<rparr>"
    "accept_pending s'" "stopping s' = stopping s" "io_stopped s' = io_stopped s" "srv_has_stats s'" "srv_has_broker s'"
    "srv_max_clients s' = srv_max_clients s" "srv_max_request_bytes s' = srv_max_request_bytes s"
    using stats n by (simp_all add: s'_def server_do_accept_def create_connection_def Let_def
        connection_constructed_def) (simp add: new_connection_def)
  have "subs_agree ?conn (ctx_broker (srv_ctx s))"
    using ctx fresh by (force simp: start_new_conn ctx_inv_def)
  then have new: "conn_entry_ok s' ?next ?conn"
    by (simp add: conn_entry_ok_def s' start_new_conn)
  have "conn_entry_ok s' c e" if "(c, e) \<in> set (srv_conns s')" for c e
  proof (cases "(c, e) = (?next, ?conn)")
    case False
    with that have "conn_entry_ok s c e"
      using entries set_update_subset [of ?next ?conn "srv_conns s"] by (auto simp: s')
    then show ?thesis by (simp add: conn_entry_ok_def s')
  qed (use new in simp)
  moreover have "live_ids s' = insert ?next (live_ids s)" and "int (length (srv_conns s')) = ?n + 1"
    and "um_ok (srv_conns s')"
    using none ok by (simp_all add: live_ids_def s' dom_update um.size_assign um.invar_assign)
  moreover have "stopping s' = io_stopped s'"
    using inv by (simp add: server_inv_def s')
  ultimately show ?thesis
    using ctx' room n unfolding s'_def [symmetric] by (auto simp: server_inv_def s')
qed

text \<open>A connection nothing refers to has no subscription, so its end removes only itself.\<close>

lemma unreferenced_subs:
  assumes "unreferenced cid conn s"
  shows "(ch, cid) \<notin> subscriptions (ctx_broker (srv_ctx s))"
proof (cases "um_find (channels (ctx_broker (srv_ctx s))) ch")
  case None
  then show ?thesis by (simp add: subscriptions_def subs_of_def)
next
  case (Some subs)
  from map_of_SomeD [OF this] assms have "list_all (\<lambda>sub. sub_id sub \<noteq> cid) subs"
    unfolding unreferenced_def list_all_iff [of _ "channels _"] by blast
  with Some show ?thesis by (auto simp: subscriptions_def subs_of_def list_all_iff)
qed

lemma conn_destroyed_ctx:
  assumes ctx: "ctx_inv (live_ids s) n r (srv_ctx s)" and unref: "unreferenced cid conn s"
    and n: "wrap64 (n - 1) = n - 1"
  shows "ctx_inv (live_ids s - {cid}) (n - 1) r
    ((srv_ctx s)\<lparr>ctx_stats := (ctx_stats (srv_ctx s))\<lparr>connected_clients := wrap64 (n - 1)\<rparr>\<rparr>)"
proof -
  have "snd ` subscriptions (ctx_broker (srv_ctx s)) \<subseteq> live_ids s - {cid}"
  proof (intro subsetI)
    fix c assume "c \<in> snd ` subscriptions (ctx_broker (srv_ctx s))"
    then obtain ch where sub: "(ch, c) \<in> subscriptions (ctx_broker (srv_ctx s))"
      by force
    with ctx have "c \<in> live_ids s"
      unfolding ctx_inv_def by force
    with sub unreferenced_subs [OF unref] show "c \<in> live_ids s - {cid}" by auto
  qed
  moreover have "fst ` set (ctx_posted (srv_ctx s)) \<subseteq> live_ids s - {cid}"
    using ctx unref by (auto simp: ctx_inv_def unreferenced_def)
  ultimately show ?thesis
    using ctx n by (simp add: ctx_inv_def)
qed

lemma conn_destroyed_inv:
  assumes inv: "server_inv s" and find: "um_find (srv_conns s) cid = Some conn" and unref: "unreferenced cid conn s"
  shows "server_inv (s\<lparr>srv_conns := AList.delete cid (srv_conns s), srv_ctx := connection_destroyed conn (srv_ctx s)\<rparr>)"
    (is "server_inv ?s'")
proof -
  let ?n = "int (length (srv_conns s))"
  have ctx: "ctx_inv (live_ids s) ?n (\<not> stopping s) (srv_ctx s)" and ok: "um_ok (srv_conns s)"
    and entries: "\<forall>(cid, conn)\<in>set (srv_conns s). conn_entry_ok s cid conn"
    and max: "?n \<le> max 0 (sint (srv_max_clients s))"
    using inv unfolding server_inv_def by blast+
  have entry: "conn_entry_ok s cid conn"
    using server_inv_entry [OF inv find] ..
  have "set (subscribed_channels conn) = {}"
    using entry unreferenced_subs [OF unref] by (auto simp: conn_entry_ok_def subs_agree_def)
  then have destroyed: "connection_destroyed conn (srv_ctx s) =
      (srv_ctx s)\<lparr>ctx_stats := (ctx_stats (srv_ctx s))\<lparr>connected_clients := wrap64 (?n - 1)\<rparr>\<rparr>"
    using entry ctx by (simp add: connection_destroyed_def conn_entry_ok_def ctx_inv_def)
  have "sint (srv_max_clients s) < 2 ^ 63"
    using sint_less [of "srv_max_clients s"] by simp
  with max have n: "wrap64 (?n - 1) = ?n - 1"
    by (intro wrap64_fits) (auto simp: int64_defs)
  have "0 < length (srv_conns s)"
    using find by auto
  moreover have "length (AList.delete cid (srv_conns s)) = length (srv_conns s) - 1"
    using um.size_erase [OF ok, of cid] find by simp
  ultimately have len: "int (length (AList.delete cid (srv_conns s))) = ?n - 1"
    by linarith
  have ids: "live_ids ?s' = live_ids s - {cid}"
    by (auto simp: live_ids_def AList.delete_eq)
  have "conn_entry_ok ?s' c e" if "(c, e) \<in> set (AList.delete cid (srv_conns s))" for c e
  proof -
    have "conn_entry_ok s c e"
      using that entries set_delete_subset [of cid "srv_conns s"] by blast
    then show ?thesis by (simp add: conn_entry_ok_def destroyed)
  qed
  then have "\<forall>(c, e)\<in>set (srv_conns ?s'). conn_entry_ok ?s' c e"
    by (simp add: split_def)
  moreover have "ctx_inv (live_ids ?s') (int (length (srv_conns ?s'))) (\<not> stopping ?s') (srv_ctx ?s')"
    using conn_destroyed_ctx [OF ctx unref n] unfolding ids by (simp add: len destroyed)
  moreover have "um_ok (srv_conns ?s')"
    using ok by (simp add: um.invar_erase)
  moreover have "int (length (srv_conns ?s')) \<le> max 0 (sint (srv_max_clients ?s'))"
    using max len by simp
  moreover have "srv_has_stats ?s'" "srv_has_broker ?s'" "stopping ?s' \<or> crashed ?s' \<or> accept_pending ?s'"
    "stopping ?s' = io_stopped ?s'"
    using inv by (auto simp: server_inv_def)
  ultimately show ?thesis
    unfolding server_inv_def by blast
qed

lemma on_accept_inv:
  assumes "server_inv s" and "\<not> stopping s" and "res \<noteq> AcceptAborted"
  shows "server_inv (on_accept res s)"
proof -
  have pending: "server_inv (s\<lparr>accept_pending := True\<rparr>)"
    using assms(1) by (auto simp: server_inv_def live_ids_def conn_entry_ok_def)
  then have "server_inv (s\<lparr>rejected := k, accept_pending := True\<rparr>)"
    and "server_inv (s\<lparr>accept_pending := False, crashed := True\<rparr>)" and "srv_has_stats s" for k
    by (auto simp: server_inv_def live_ids_def conn_entry_ok_def)
  with pending assms(2,3) create_connection_inv [of "s\<lparr>accept_pending := False\<rparr>"] show ?thesis
    by (cases res) (simp_all add: on_accept_def server_do_accept_def Let_def)
qed

text \<open>The completion of a read, the step that can change everything.\<close>

lemma read_done_inv:
  assumes inv: "server_inv s" and find: "um_find (srv_conns s) cid = Some conn"
    and read: "on_read_complete (make_default double_div True) lib clks ec chunk (conn, srv_aof s, srv_ctx s) = (conn', a', x')"
  shows "server_inv (put_conn cid conn' a' x' s)"
proof -
  note old = server_inv_joint [OF inv find]
  have "joint_inv (live_ids s) (int (length (srv_conns s))) (\<not> stopping s) (conn', a', x')"
    using on_read_complete_joint [OF old(1)] read by metis
  moreover have "conn_inv conn'" and "same_setup conn conn'"
    using on_read_complete_conn [OF old(2)] read by (metis fst_conv)+
  moreover have "others_kept cid (ctx_broker (srv_ctx s)) (ctx_broker x')"
    using on_read_complete_agrees [of conn "srv_aof s" "srv_ctx s" double_div True lib clks ec chunk] old
    by (simp add: read step_agrees_def joint_inv_def)
  ultimately show ?thesis
    by (intro server_inv_put [OF inv find])
qed

lemma server_step_inv:
  assumes step: "server_step (make_default double_div True) lib s s'" and inv: "server_inv s"
  shows "server_inv s'"
  using step
proof cases
  case (accept_done res)
  then have "\<not> stopping s"
    using inv by (auto simp: running_def server_inv_def)
  with accept_done inv show ?thesis by (auto intro: on_accept_inv)
next
  case (read_done cid conn chunk clks ec conn' a' x')
  then show ?thesis using inv read_done_inv by blast
next
  case (write_done cid conn ec)
  note old = server_inv_joint [OF inv write_done(3)]
  show ?thesis
    unfolding write_done(1)
    using on_write_complete_conn [OF old(2) write_done(4), of ec]
    by (intro server_inv_put [OF inv write_done(3)] joint_inv_keep [OF old(1)]) auto
next
  case (idle_fired cid conn aborted ec)
  note old = server_inv_joint [OF inv idle_fired(3)]
  have "conn_inv (on_idle_timer aborted ec conn)" "same_setup conn (on_idle_timer aborted ec conn)"
    "subscribed_channels (on_idle_timer aborted ec conn) = subscribed_channels conn"
    using on_idle_timer_conn [OF old(2)] by auto
  then show ?thesis
    unfolding idle_fired(1)
    by (intro server_inv_put [OF inv idle_fired(3)] joint_inv_keep [OF old(1)]) (auto simp: same_setup_def)
next
  case (posted_write cid frame rest conn)
  note old = server_inv_joint [OF inv posted_write(4)]
  have posted: "joint_inv (live_ids s) (int (length (srv_conns s))) (\<not> stopping s)
      (conn, srv_aof s, (srv_ctx s)\<lparr>ctx_posted := rest\<rparr>)"
    using old(1) posted_write(3) by (auto simp: joint_inv_def ctx_inv_def)
  show ?thesis
    unfolding posted_write(1) using do_write_conn [OF old(2), of frame]
    by (intro server_inv_put [OF inv posted_write(4)] joint_inv_keep [OF posted]) auto
next
  case (poll_fired aborted ec)
  then show ?thesis using inv by (simp add: on_poll_timer_inv)
next
  case (signal_raised n)
  then show ?thesis using inv by (simp add: vortek_signal_handler_def)
next
  case (expiry_sweep now)
  then show ?thesis using inv by (simp add: sweep_inv)
next
  case (conn_destroyed cid conn)
  then show ?thesis using inv by (simp add: conn_destroyed_inv)
qed

interpretation srv: preserved "server_step (make_default double_div True) lib" server_inv for double_div lib
  by unfold_locales (rule server_step_inv)

text \<open>The server that \<^verbatim>\<open>main\<close> starts satisfies the invariant, after any replay.\<close>

lemma initial_ctx_inv:
  "connected_clients st = 0 \<Longrightarrow> \<not> ready st \<Longrightarrow> ctx_inv {} 0 False (initial_ctx st)"
  by (simp add: ctx_inv_def initial_ctx_def broker_ok_def callbacks_ok_def subs_of_def subscriptions_def
      empty_broker_def um_ok_def)

lemma run_commands_inv:
  "ctx_inv K n r x \<Longrightarrow> ctx_inv K n r (run_commands (make_default double_div True) clks i cs x)"
  by (induction cs arbitrary: i x) (simp_all add: dispatch_ctx_inv)

lemma replay_inv:
  "ctx_inv K n r x \<Longrightarrow> ctx_inv K n r (snd (snd (replay can_read can_resize can_open (make_default double_div True) clks a x)))"
  by (auto simp: replay_def replay_loop_eq Let_def run_commands_inv split: option.split prod.split)

lemma server_run_inv:
  "ctx_inv {} 0 False x \<Longrightarrow> server_inv (server_run (new_server cfg True True a x))"
  by (simp add: server_run_def new_server_def set_ready_def setup_signal_handlers_def poll_signal_flag_def
      server_do_accept_def server_inv_def live_ids_def ctx_inv_def um_ok_def)

lemma main_boot_inv:
  assumes "main_boot parse_file disk can_open can_read can_resize can_reopen can_bind (make_default double_div True) now clks args = Inr s"
  shows "server_inv s"
proof -
  have init: "ctx_inv {} 0 False (initial_ctx ((initial_stats now)\<lparr>stats_port := p, stats_aof_enabled := e\<rparr>))" for p e
    by (rule initial_ctx_inv) (simp_all add: initial_stats_def)
  have "ctx_inv {} 0 False (snd (snd (replay can_read can_resize can_reopen (make_default double_div True) clks f
      (initial_ctx ((initial_stats now)\<lparr>stats_port := p, stats_aof_enabled := e\<rparr>)))))" for f p e
    by (rule replay_inv [OF init])
  with assms init show ?thesis
    by (auto simp: main_boot_def Let_def split_def intro!: server_run_inv split: parse_outcome.splits if_splits)
qed

end
