(* ===== verification/Server_Runs.thy ===== *)
theory Server_Runs
  imports Server
begin

text \<open>
  Runs of the event loop of \<open>Server\<close>: what holds at every moment of a run, how a run ends, and what
  becomes of a connection whose client has left.
\<close>

section \<open>What no step undoes\<close>

lemmas server_update_defs = on_accept_def server_do_accept_def create_connection_def put_conn_def
  on_poll_timer_def poll_signal_flag_def server_stop_def set_ready_def vortek_signal_handler_def Let_def

lemma step_settings:
  "server_step d lib s s' \<Longrightarrow>
     srv_max_clients s' = srv_max_clients s \<and> srv_requirepass s' = srv_requirepass s
     \<and> srv_max_request_bytes s' = srv_max_request_bytes s \<and> srv_max_pending s' = srv_max_pending s"
  by (erule server_stepE) (auto simp: server_update_defs split: accept_result.split)

text \<open>After the loop has ended only the expiry thread and the signal handler still run.\<close>

definition halted :: "aof option \<Rightarrow> (nat, connection) unordered_map \<Rightarrow> server \<Rightarrow> bool" where
  "halted a cs s \<longleftrightarrow> \<not> running s \<and> srv_aof s = a \<and> srv_conns s = cs"

lemma step_halted: "server_step d lib s s' \<Longrightarrow> halted a cs s \<Longrightarrow> halted a cs s'"
  by (erule server_stepE) (auto simp: halted_def running_def vortek_signal_handler_def)

interpretation halt: preserved "server_step d lib" "halted a cs" for d lib a cs
  by unfold_locales (rule step_halted)

text \<open>A signal that was noticed is not forgotten, as no step clears the flag.\<close>

definition signalled :: "server \<Rightarrow> bool" where
  "signalled s \<longleftrightarrow> last_signal s \<noteq> 0"

lemma step_signalled: "server_step d lib s s' \<Longrightarrow> signalled s \<Longrightarrow> signalled s'"
  by (erule server_stepE)
    (auto simp: signalled_def server_update_defs handled_signals_def split: accept_result.split)

interpretation sig: preserved "server_step d lib" signalled for d lib
  by unfold_locales (rule step_signalled)

section \<open>Connections whose client has left\<close>

text \<open>
  The object of a closed connection that still has subscriptions: the callbacks in the broker own
  it, and only its destructor would remove them.
\<close>

definition lingering :: "nat \<Rightarrow> string list \<Rightarrow> server \<Rightarrow> bool" where
  "lingering cid chs s \<longleftrightarrow> server_inv s \<and> chs \<noteq> []
     \<and> (\<exists>conn. um_find (srv_conns s) cid = Some conn \<and> \<not> socket_open conn \<and> \<not> read_in_progress conn
          \<and> subscribed_channels conn = chs)"

lemma closed_stays:
  assumes "\<not> socket_open conn" and "\<not> read_in_progress conn"
  shows "\<not> socket_open (do_write w conn)" "\<not> read_in_progress (do_write w conn)"
    "\<not> socket_open (on_write_complete ec n conn)" "\<not> read_in_progress (on_write_complete ec n conn)"
    "\<not> socket_open (on_idle_timer ab ec conn)" "\<not> read_in_progress (on_idle_timer ab ec conn)"
  using assms by (auto simp: conn_io_defs)

lemma lingering_put:
  assumes "lingering cid chs s" and "um_find (srv_conns s) c = Some conn"
    and "c = cid \<Longrightarrow> \<not> socket_open conn' \<and> \<not> read_in_progress conn' \<and> subscribed_channels conn' = subscribed_channels conn"
    and "server_inv (put_conn c conn' a' x' s)"
  shows "lingering cid chs (put_conn c conn' a' x' s)"
  using assms by (cases "c = cid") (auto simp: lingering_def put_conn_def update_conv)

lemma lingering_conns:
  assumes "lingering cid chs s" and "um_find (srv_conns s') cid = um_find (srv_conns s) cid" and "server_inv s'"
  shows "lingering cid chs s'"
  using assms by (auto simp: lingering_def)

lemma lingering_referenced:
  assumes "lingering cid chs s" and "unreferenced c conn s" and "um_find (srv_conns s) c = Some conn"
  shows "c \<noteq> cid"
proof
  assume "c = cid"
  with assms have inv: "server_inv s" and "subscribed_channels conn \<noteq> []"
    by (auto simp: lingering_def)
  moreover have "subs_agree conn (ctx_broker (srv_ctx s))" and "conn_id conn = c"
    using server_inv_entry [OF inv assms(3)] by (simp_all add: conn_entry_ok_def)
  ultimately show False
    using unreferenced_subs [OF assms(2)] by (auto simp: subs_agree_def)
qed

lemma on_accept_conns:
  "cid < srv_next_id s \<Longrightarrow> um_find (srv_conns (on_accept res s)) cid = um_find (srv_conns s) cid"
  by (auto simp: server_update_defs update_conv split: accept_result.split)

lemma on_poll_timer_conns: "srv_conns (on_poll_timer aborted ec s) = srv_conns s"
  by (simp add: server_update_defs)

lemma step_lingering:
  assumes step: "server_step (make_default double_div True) lib s s'" and old: "lingering cid chs s"
  shows "lingering cid chs s'"
proof -
  have inv: "server_inv s'"
    using srv.step_keeps [OF step] old by (simp add: lingering_def)
  obtain conn where conn: "um_find (srv_conns s) cid = Some conn" "\<not> socket_open conn" "\<not> read_in_progress conn"
    using old by (auto simp: lingering_def)
  have "cid < srv_next_id s"
    using server_inv_entry [OF _ conn(1)] old by (simp add: lingering_def conn_entry_ok_def)
  note keep = lingering_conns [OF old _ inv]
  from step show ?thesis
  proof cases
    case (accept_done res)
    then show ?thesis using keep on_accept_conns \<open>cid < srv_next_id s\<close> by simp
  next
    case (read_done c conn1 chunk clks ec conn' a' x')
    then have "c \<noteq> cid"
      using conn by auto
    then show ?thesis using lingering_put [OF old read_done(3)] read_done(1) inv by auto
  next
    case (write_done c conn1 ec)
    show ?thesis
      unfolding write_done(1) by (rule lingering_put [OF old write_done(3)]) (use write_done inv conn in \<open>auto simp: closed_stays\<close>)
  next
    case (idle_fired c conn1 aborted ec)
    have "subscribed_channels (on_idle_timer aborted ec conn1) = subscribed_channels conn1"
      by (simp add: conn_io_defs)
    then show ?thesis
      unfolding idle_fired(1)
      by (intro lingering_put [OF old idle_fired(3)]) (use idle_fired inv conn in \<open>auto simp: closed_stays\<close>)
  next
    case (posted_write c frame rest conn1)
    show ?thesis
      unfolding posted_write(1) by (rule lingering_put [OF old posted_write(4)]) (use posted_write inv conn in \<open>auto simp: closed_stays\<close>)
  next
    case (poll_fired aborted ec)
    then show ?thesis using keep on_poll_timer_conns by simp
  next
    case (conn_destroyed c conn1)
    then have "c \<noteq> cid"
      using lingering_referenced [OF old] by blast
    with conn_destroyed show ?thesis by (intro keep) (simp add: delete_conv')
  qed (rule keep, simp add: vortek_signal_handler_def)+
qed

interpretation linger: preserved "server_step (make_default double_div True) lib" "lingering cid chs"
  for double_div lib cid chs
  by unfold_locales (rule step_lingering)

section \<open>The end of a run\<close>

text \<open>
  An infinite run, and what the timer promises in it: a wait that was started completes without an
  error as long as the loop runs.
\<close>

definition server_trace :: "dispatcher \<Rightarrow> (std_exn \<Rightarrow> string) \<Rightarrow> (nat \<Rightarrow> server) \<Rightarrow> bool" where
  "server_trace d lib f \<longleftrightarrow> (\<forall>i. server_step d lib (f i) (f (Suc i)))"

definition waits_complete :: "(nat \<Rightarrow> server) \<Rightarrow> bool" where
  "waits_complete f \<longleftrightarrow> (\<forall>i. running (f i) \<longrightarrow> poll_armed (f i) \<longrightarrow>
     (\<exists>j\<ge>i. \<not> running (f j) \<or> f (Suc j) = on_poll_timer False False (f j)))"

lemma server_inv_stopping: "server_inv s \<Longrightarrow> stopping s = io_stopped s"
  by (simp add: server_inv_def)

lemma poll_outcome:
  assumes "server_inv s"
  shows "running (on_poll_timer False False s) \<Longrightarrow> poll_armed (on_poll_timer False False s)"
    and "signalled s \<Longrightarrow> \<not> running (on_poll_timer False False s)"
  using server_inv_stopping [OF assms]
  by (cases "stopping s"; cases "last_signal s = 0"; simp add: server_update_defs running_def signalled_def)+

lemma polled_again:
  assumes trace: "server_trace (make_default double_div True) lib f" and inv: "server_inv (f 0)"
    and waits: "waits_complete f" and armed: "poll_armed (f 0)"
  shows "\<exists>j\<ge>n. \<not> running (f j) \<or> f (Suc j) = on_poll_timer False False (f j)"
proof (induction n)
  case 0
  show ?case
    using waits armed by (cases "running (f 0)") (auto simp: waits_complete_def)
next
  case (Suc n)
  have steps: "server_step (make_default double_div True) lib (f k) (f (Suc k))" for k
    using trace by (simp add: server_trace_def)
  then have "server_inv (f k)" for k
    using srv.trace_keeps [of 0 k _ _ f] inv by blast
  note rearmed = poll_outcome(1) [OF this]
  obtain j where j: "j \<ge> n" "\<not> running (f j) \<or> f (Suc j) = on_poll_timer False False (f j)"
    using Suc by blast
  show ?case
  proof (cases "running (f (Suc j))")
    case True
    then have "running (f j)"
      using step_halted [OF steps] by (auto simp: halted_def)
    with True j rearmed have "poll_armed (f (Suc j))" by metis
    with True waits obtain k where "k \<ge> Suc j" "\<not> running (f k) \<or> f (Suc k) = on_poll_timer False False (f k)"
      unfolding waits_complete_def by blast
    with \<open>j \<ge> n\<close> show ?thesis by (meson Suc_leD Suc_le_mono le_trans)
  next
    case False
    with \<open>j \<ge> n\<close> show ?thesis by (intro exI [of _ "Suc j"]) simp
  qed
qed

lemma server_run_armed: "poll_armed (server_run (new_server cfg has_stats has_broker a x))"
  by (simp add: server_run_def new_server_def setup_signal_handlers_def server_update_defs)

lemma main_boot_armed:
  "main_boot parse_file disk can_open can_read can_resize can_reopen can_bind d now clks args = Inr s \<Longrightarrow> poll_armed s"
  by (auto simp: main_boot_def Let_def split_def server_run_armed split: parse_outcome.splits if_splits)

lemma main_boot_conns:
  "main_boot parse_file disk can_open can_read can_resize can_reopen can_bind d now clks args = Inr s \<Longrightarrow> srv_conns s = []"
  by (auto simp: main_boot_def server_run_def new_server_def setup_signal_handlers_def server_update_defs split_def
      split: parse_outcome.splits if_splits)

section \<open>A run\<close>

text \<open>
  A server without a log that a client joins, subscribes on and leaves: the states of this run are
  the concrete inputs of the examples below.
\<close>

definition example_boot :: server where
  "example_boot = server_run (new_server (default_config\<lparr>aof_enabled := False\<rparr>) True True None
     (initial_ctx ((initial_stats 0)\<lparr>stats_port := 6379, stats_aof_enabled := False\<rparr>)))"

definition example_joined :: server where
  "example_joined = on_accept (Accepted True) example_boot"

abbreviation example_table :: dispatcher where
  "example_table \<equiv> make_default (\<lambda>a b. []) True"

lemma example_boot:
  "main_boot (\<lambda>p. Inl []) (\<lambda>p. None) True True True True True example_table 0 (\<lambda>n i. 0) [''--no-aof''] = Inr example_boot"
  by (simp add: main_boot_def parse_args_def takes_value_def example_boot_def default_config_def)

lemma example_boot_fields:
  "running example_boot" "accept_pending example_boot" "poll_armed example_boot" "srv_conns example_boot = []"
  "srv_next_id example_boot = 0" "\<not> stopping example_boot" "last_signal example_boot = 0"
  "srv_max_clients example_boot = 10000" "connected_clients (ctx_stats (srv_ctx example_boot)) = 0"
  "srv_has_stats example_boot" "srv_has_broker example_boot" "srv_aof example_boot = None"
  by (simp_all add: example_boot_def server_run_def new_server_def setup_signal_handlers_def server_update_defs
      running_def default_config_def initial_ctx_def initial_stats_def)

lemma example_joined: "server_step example_table lib example_boot example_joined"
  unfolding example_joined_def by (rule accept_done) (simp_all add: example_boot_fields)

lemma read_subscribe:
  assumes "parser_buf conn = []" and "authenticated conn" and "conn_has_broker conn"
    and "sub = \<lparr>cmd_name = ''SUBSCRIBE'', cmd_args = [ch]\<rparr>" and "command_ok sub"
    and "length (frames [sub]) \<le> max_request_bytes conn"
  shows "handle_data d lib clks (frames [sub]) (conn, a, x) =
    (let (count, b) = subscribe ch (conn_id conn) (conn_id conn, ch) (ctx_broker x) in
      (do_read ((do_write (make_subscribe_reply ''subscribe'' ch count)
          (conn\<lparr>subscribed_channels := fst (us_insert ch (subscribed_channels conn))\<rparr>))\<lparr>parser_buf := []\<rparr>),
       a, x\<lparr>ctx_broker := b\<rparr>))"
proof -
  have "feed [] (frames [sub]) = (Inr (Some (command_frame sub)), [])"
    by (simp add: feed_frame assms(5))
  from handle_loop_round [OF this] assms(2-5) show ?thesis
    using assms(1,6)
    by (simp add: handle_data_def buffered_size_def parse_command_frame handle_command_def handle_subscribe_def
        handle_loop_stop split_def Let_def del: frames_simps)
qed

definition example_read :: "bool \<Rightarrow> string \<Rightarrow> server \<Rightarrow> server" where
  "example_read ec chunk s =
     (case on_read_complete example_table (\<lambda>e. []) (\<lambda>n i. 0) ec chunk (the (um_find (srv_conns s) 0), srv_aof s, srv_ctx s) of
        (conn, a, x) \<Rightarrow> put_conn 0 conn a x s)"

definition example_subscribed :: server where
  "example_subscribed = example_read False (frames [\<lparr>cmd_name = ''SUBSCRIBE'', cmd_args = [''news'']\<rparr>]) example_joined"

definition example_left :: server where
  "example_left = example_read True [] example_subscribed"

lemma example_read_step:
  assumes "running s" and "um_find (srv_conns s) 0 = Some conn" and "read_in_progress conn" and "length chunk \<le> 4096"
  shows "server_step example_table (\<lambda>e. []) s (example_read ec chunk s)"
  unfolding example_read_def using assms by (auto intro: read_done split: prod.split)

lemma example_joined_fields:
  "running example_joined" "srv_aof example_joined = None"
  "um_find (srv_conns example_joined) 0 = Some (start (new_connection 0 True True [] 1048576 300 1048576))"
  "subs_of (ctx_broker (srv_ctx example_joined)) ch = []"
  by (simp_all add: example_joined_def on_accept_def create_connection_def server_do_accept_def example_boot_fields)
     (simp_all add: example_boot_def server_run_def new_server_def setup_signal_handlers_def server_update_defs
      running_def default_config_def initial_ctx_def empty_broker_def subs_of_def)

lemma example_subscribe_ok:
  "command_ok \<lparr>cmd_name = ''SUBSCRIBE'', cmd_args = [''news'']\<rparr>"
  "length (frames [\<lparr>cmd_name = ''SUBSCRIBE'', cmd_args = [''news'']\<rparr>]) \<le> 100"
  "length (make_subscribe_reply ''subscribe'' ''news'' 1) \<le> 100"
  by (simp add: command_ok_eval) code_simp+

definition example_conn :: connection where
  "example_conn = reset_idle_timer ((start (new_connection 0 True True [] 1048576 300 1048576))\<lparr>read_in_progress := False\<rparr>)"

lemma example_conn_fields:
  "parser_buf example_conn = []" "authenticated example_conn" "conn_has_broker example_conn"
  "max_request_bytes example_conn = 1048576" "socket_open example_conn" "subscribed_channels example_conn = []"
  "conn_id example_conn = 0" "\<not> write_in_progress example_conn" "pending_write_bytes example_conn = 0"
  "max_pending_write_bytes example_conn = 1048576" "\<not> read_in_progress example_conn"
  "write_queue example_conn = []" "async_writes example_conn = []"
  by (simp_all add: example_conn_def new_connection_def conn_io_defs)

lemma example_subscribed_eq:
  "example_subscribed =
     put_conn 0
       (do_read ((do_write (make_subscribe_reply ''subscribe'' ''news'' 1)
          (example_conn\<lparr>subscribed_channels := [''news'']\<rparr>))\<lparr>parser_buf := []\<rparr>))
       None
       ((srv_ctx example_joined)\<lparr>ctx_broker :=
          snd (subscribe ''news'' 0 (0, ''news'') (ctx_broker (srv_ctx example_joined)))\<rparr>)
       example_joined"
proof -
  have "fst (subscribe ''news'' 0 (0, ''news'') (ctx_broker (srv_ctx example_joined))) = 1"
    using example_joined_fields(4) [of "''news''"]
    by (auto simp: subscribe_def subs_of_def split: option.splits)
  with read_subscribe [OF example_conn_fields(1-3) refl example_subscribe_ok(1), of example_table "\<lambda>e. []" "\<lambda>n i. 0" None "srv_ctx example_joined"]
  show ?thesis
    using example_subscribe_ok(2) example_conn_fields(4,6,7)
    by (simp add: example_subscribed_def example_read_def on_read_complete_def example_joined_fields
        split_def us_insert_def Let_def del: frames_simps flip: example_conn_def)
qed

lemma example_subscribed_conn:
  "\<exists>conn. um_find (srv_conns example_subscribed) 0 = Some conn \<and> read_in_progress conn
    \<and> subscribed_channels conn = [''news''] \<and> write_in_progress conn
    \<and> accepted conn = [make_subscribe_reply ''subscribe'' ''news'' 1]"
  using example_subscribe_ok(3) example_conn_fields
  by (simp add: example_subscribed_eq put_conn_def do_read_def do_write_def flush_write_queue_def accepted_def Let_def)

lemma example_subscribed_step: "server_step example_table (\<lambda>e. []) example_joined example_subscribed"
  unfolding example_subscribed_def
  by (rule example_read_step [OF example_joined_fields(1,3)])
     (use example_subscribe_ok(2) in \<open>simp_all add: new_connection_def conn_io_defs del: frames_simps\<close>)

lemma example_steps:
  "reachable example_table (\<lambda>e. []) example_boot example_subscribed"
  "server_step example_table (\<lambda>e. []) example_subscribed example_left"
proof -
  show "reachable example_table (\<lambda>e. []) example_boot example_subscribed"
    using example_joined example_subscribed_step by (meson rtranclp.rtrancl_into_rtrancl rtranclp.rtrancl_refl)
  obtain conn where "um_find (srv_conns example_subscribed) 0 = Some conn" "read_in_progress conn"
    using example_subscribed_conn by blast
  moreover have "running example_subscribed"
    using example_joined_fields(1)
    by (simp add: example_subscribed_def example_read_def running_def put_conn_def split_def)
  ultimately show "server_step example_table (\<lambda>e. []) example_subscribed example_left"
    unfolding example_left_def by (intro example_read_step) simp_all
qed

lemma example_left:
  "reachable example_table (\<lambda>e. []) example_boot example_left"
  "\<exists>conn. um_find (srv_conns example_left) 0 = Some conn \<and> \<not> socket_open conn \<and> \<not> read_in_progress conn
    \<and> ''news'' \<in> set (subscribed_channels conn)"
proof -
  show "reachable example_table (\<lambda>e. []) example_boot example_left"
    using example_steps by (rule rtranclp.rtrancl_into_rtrancl)
  show "\<exists>conn. um_find (srv_conns example_left) 0 = Some conn \<and> \<not> socket_open conn \<and> \<not> read_in_progress conn
    \<and> ''news'' \<in> set (subscribed_channels conn)"
    using example_subscribed_conn
    by (auto simp: example_left_def example_read_def on_read_complete_def put_conn_def update_conv close_socket_def)
qed

section \<open>Properties\<close>

text \<open>
  C8: The invariant of the server. However clients, timers, signals and the expiry thread
  interleave after \<^verbatim>\<open>main\<close> has started it with any options, configuration file and log, the store
  is well formed and free of empty collections; registry and connections agree on who is subscribed
  to what; messages wait only for connections that exist; the client counter is the number of
  connections and within the limit; every connection respects its limits for buffered requests and
  replies and, while its socket is open, waits for data or writes; the readiness flag is set exactly
  while the server is not stopping, and until it stops or dies it waits for the next client.
\<close>

theorem server_invariant:
  assumes "main_boot parse_file disk can_open can_read can_resize can_reopen can_bind (make_default double_div True) now clks args = Inr s0"
    and "reachable (make_default double_div True) lib s0 s"
  shows "server_inv s"
  using srv.run_keeps [OF assms(2) main_boot_inv [OF assms(1)]] .

theorem server_invariant_witness: "server_inv example_left"
  using server_invariant [OF example_boot example_left(1)] .

text \<open>
  C24: A subscriber that leaves is never forgotten. Once a client with a subscription has gone (its
  socket is closed and the read that noticed it is over), its connection object stays for as long as
  the server lives, stays subscribed to its channels, so every \<^verbatim>\<open>PUBLISH\<close> counts it as a receiver, and
  keeps its place among the connected clients.
\<close>

theorem dead_subscriber_lingers:
  assumes "main_boot parse_file disk can_open can_read can_resize can_reopen can_bind (make_default double_div True) now clks args = Inr s0"
    and "reachable (make_default double_div True) lib s0 s"
    and "um_find (srv_conns s) cid = Some conn" and "\<not> socket_open conn" and "\<not> read_in_progress conn"
    and "ch \<in> set (subscribed_channels conn)"
    and "reachable (make_default double_div True) lib s s'"
  shows "(\<exists>conn'. um_find (srv_conns s') cid = Some conn' \<and> \<not> socket_open conn')
    \<and> (ch, cid) \<in> subscriptions (ctx_broker (srv_ctx s')) \<and> connected_clients (ctx_stats (srv_ctx s')) > 0"
proof -
  have "lingering cid (subscribed_channels conn) s"
    using srv.run_keeps [OF assms(2) main_boot_inv [OF assms(1)]] assms(3-6) by (auto simp: lingering_def)
  from linger.run_keeps [OF assms(7) this] obtain conn' where inv: "server_inv s'"
    and conn': "um_find (srv_conns s') cid = Some conn'" "\<not> socket_open conn'"
      "subscribed_channels conn' = subscribed_channels conn"
    unfolding lingering_def by blast
  have "subs_agree conn' (ctx_broker (srv_ctx s'))" "conn_id conn' = cid"
    using server_inv_entry [OF inv conn'(1)] by (simp_all add: conn_entry_ok_def)
  then have "(ch, cid) \<in> subscriptions (ctx_broker (srv_ctx s'))"
    using assms(6) conn'(3) by (auto simp: subs_agree_def)
  moreover have "connected_clients (ctx_stats (srv_ctx s')) = int (length (srv_conns s'))"
    using inv by (simp add: server_inv_def ctx_inv_def)
  moreover have "srv_conns s' \<noteq> []"
    using conn'(1) by auto
  ultimately show ?thesis
    using conn' by auto
qed

theorem dead_subscriber_lingers_witness:
  "(''news'', 0) \<in> subscriptions (ctx_broker (srv_ctx (on_poll_timer False False example_left)))"
proof -
  obtain conn where conn: "um_find (srv_conns example_left) 0 = Some conn" "\<not> socket_open conn"
      "\<not> read_in_progress conn" "''news'' \<in> set (subscribed_channels conn)"
    using example_left(2) by blast
  have "running example_left" and "poll_armed example_left"
    by (simp_all add: example_left_def example_subscribed_def example_read_def put_conn_def split_def running_def
        example_joined_def on_accept_def create_connection_def server_do_accept_def Let_def
        example_boot_fields [unfolded running_def])
  then have "reachable example_table (\<lambda>e. []) example_left (on_poll_timer False False example_left)"
    by (intro r_into_rtranclp poll_fired)
  with dead_subscriber_lingers [OF example_boot example_left(1) conn] show ?thesis by blast
qed

end
