(* ===== verification/Replay_Times.thy ===== *)
theory Replay_Times
  imports Aof
begin

text \<open>
  A log is replayed when the server restarts, long after the commands in it were executed, so the
  handlers read other times than they did then. This theory shows for which commands that makes no
  difference: all but those that give a key a time to live.
\<close>

section \<open>Stores without deadlines\<close>

definition timeless :: "kv_store \<Rightarrow> bool" where
  "timeless s \<longleftrightarrow> list_all (\<lambda>(k, e). expires_at e = None) (kv_data s)"

lemma timeless_not_expired: "timeless s \<Longrightarrow> um_find (kv_data s) k = Some e \<Longrightarrow> \<not> is_expired now e"
  by (auto simp: timeless_def list_all_iff is_expired_def dest!: map_of_SomeD)

text \<open>Every operation of the store reads the clock only to compare it with a deadline.\<close>

lemma timeless_reads [timeless_simps]:
  assumes "timeless s"
  shows "kv_get now k s = map_option entry_value (um_find (kv_data s) k)"
    and "kv_exists now k s \<longleftrightarrow> um_find (kv_data s) k \<noteq> None"
  using timeless_not_expired [OF assms]
  by (auto simp: kv_get_def kv_exists_def split: option.split)

lemma timeless_writes [timeless_simps]:
  "kv_set now k v 0 s = s\<lparr>kv_data := AList.update k \<lparr>entry_value = v, expires_at = None\<rparr> (kv_data s)\<rparr>"
  "timeless s \<Longrightarrow> kv_del now k s =
     (case um_find (kv_data s) k of
        None \<Rightarrow> (0, s) | Some e \<Rightarrow> (1, s\<lparr>kv_data := AList.delete k (kv_data s)\<rparr>))"
  "timeless s \<Longrightarrow> kv_persist now k s =
     (case um_find (kv_data s) k of
        None \<Rightarrow> (False, s)
      | Some e \<Rightarrow> (True, s\<lparr>kv_data := AList.update k (e\<lparr>expires_at := None\<rparr>) (kv_data s)\<rparr>))"
  by (auto simp: kv_set_def kv_del_def kv_persist_def um_insert_or_assign_def timeless_not_expired split: option.split)

lemma timeless_update [timeless_simps]:
  "timeless s \<Longrightarrow> expires_at e = None \<Longrightarrow> timeless (s\<lparr>kv_data := AList.update k e (kv_data s)\<rparr>)"
  using set_update_subset [of k e "kv_data s"] by (fastforce simp: timeless_def list_all_iff)

lemma timeless_delete [timeless_simps]: "timeless s \<Longrightarrow> timeless (s\<lparr>kv_data := AList.delete k (kv_data s)\<rparr>)"
  using set_delete_subset [of k "kv_data s"] by (auto simp: timeless_def list_all_iff)

section \<open>Handlers that do not depend on the time\<close>

definition timeless_fn :: "handler_fn \<Rightarrow> (command \<Rightarrow> bool) \<Rightarrow> bool" where
  "timeless_fn f pre \<longleftrightarrow> (\<forall>c clk clk' x. pre c \<longrightarrow> timeless (ctx_store x) \<longrightarrow>
     ctx_store (snd (f c clk x)) = ctx_store (snd (f c clk' x)) \<and> timeless (ctx_store (snd (f c clk x))))"

text \<open>
  On a store without deadlines such a handler does the same at any time, and leaves a store without
  deadlines, for the commands \<open>pre\<close> admits.
\<close>

locale timeless_handler =
  fixes h :: store_handler and pre :: "command \<Rightarrow> bool"
  assumes same: "timeless s \<Longrightarrow> pre c \<Longrightarrow> h c clk s = h c clk' s"
    and stays: "timeless s \<Longrightarrow> pre c \<Longrightarrow> timeless (snd (h c clk s))"
begin

lemma entry: "timeless_fn (on_store h) pre"
proof -
  have "h c clk s = h c clk' s \<and> timeless (snd (h c clk s))" if "timeless s" "pre c" for c clk clk' s
    using same [OF that, of clk clk'] stays [OF that, of clk] by simp
  then show ?thesis
    unfolding timeless_fn_def on_store_def split_def by auto (metis)+
qed

end

text \<open>It suffices to compare with one fixed clock.\<close>

lemma timeless_handlerI:
  assumes "\<And>c clk s. timeless s \<Longrightarrow> pre c \<Longrightarrow> h c clk s = h c (\<lambda>i. 0) s \<and> timeless (snd (h c clk s))"
  shows "timeless_handler h pre"
  by unfold_locales (metis assms, metis assms)

text \<open>\<^verbatim>\<open>SET\<close> without \<^verbatim>\<open>EX\<close> and \<^verbatim>\<open>PX\<close>.\<close>

definition no_expiry_flag :: "command \<Rightarrow> bool" where
  "no_expiry_flag c \<longleftrightarrow> list_all (\<lambda>a. upper a \<noteq> ''EX'' \<and> upper a \<noteq> ''PX'') (drop 2 (cmd_args c))"

lemma parse_set_flags_no_expiry:
  "list_all (\<lambda>a. upper a \<noteq> ''EX'' \<and> upper a \<noteq> ''PX'') as \<Longrightarrow>
     parse_set_flags as ttl nx xx = Inr (ttl', nx', xx') \<Longrightarrow> ttl' = ttl"
  by (induction as arbitrary: nx xx) (auto simp: Let_def split: if_splits)

interpretation set_t: timeless_handler cmd_set no_expiry_flag
proof (rule timeless_handlerI)
  fix c s and clk :: clock
  assume "timeless s" and "no_expiry_flag c"
  then show "cmd_set c clk s = cmd_set c (\<lambda>i. 0) s \<and> timeless (snd (cmd_set c clk s))"
    using parse_set_flags_no_expiry [of "drop 2 (cmd_args c)" 0 False False]
    by (cases "parse_set_flags (drop 2 (cmd_args c)) 0 False False")
      (auto simp: cmd_set_def Let_def no_expiry_flag_def timeless_simps split: prod.split)
qed

lemma del_loop_timeless:
  "timeless s \<Longrightarrow> del_loop clk i ks n s = del_loop (\<lambda>i. 0) j ks n s \<and> timeless (snd (del_loop clk i ks n s))"
  by (induction ks arbitrary: i j n s) (auto simp: timeless_simps split: option.split)

interpretation del_t: timeless_handler cmd_del "\<lambda>c. True"
proof (rule timeless_handlerI)
  fix c s and clk :: clock
  assume "timeless s"
  from del_loop_timeless [OF this, of clk 0 "cmd_args c" 0 0]
  show "cmd_del c clk s = cmd_del c (\<lambda>i. 0) s \<and> timeless (snd (cmd_del c clk s))"
    using \<open>timeless s\<close> by (auto simp: cmd_del_def split_def)
qed

interpretation persist_t: timeless_handler cmd_persist "\<lambda>c. True"
  by (rule timeless_handlerI) (auto simp: cmd_persist_def timeless_simps split: option.split)

interpretation incr_t: timeless_handler cmd_incr "\<lambda>c. True"
  by (rule timeless_handlerI) (auto simp: counter_defs timeless_simps split: option.split sum.split)

interpretation decr_t: timeless_handler cmd_decr "\<lambda>c. True"
  by (rule timeless_handlerI) (auto simp: counter_defs timeless_simps split: option.split sum.split)

interpretation incrby_t: timeless_handler cmd_incrby "\<lambda>c. True"
  by (rule timeless_handlerI) (auto simp: counter_defs timeless_simps split: option.split sum.split)

interpretation decrby_t: timeless_handler cmd_decrby "\<lambda>c. True"
  by (rule timeless_handlerI) (auto simp: counter_defs timeless_simps split: option.split sum.split)

interpretation lpush_t: timeless_handler cmd_lpush "\<lambda>c. True"
  by (rule timeless_handlerI) (auto simp: push_defs timeless_simps split: option.split Value.split)

interpretation rpush_t: timeless_handler cmd_rpush "\<lambda>c. True"
  by (rule timeless_handlerI) (auto simp: push_defs timeless_simps split: option.split Value.split)

interpretation lpop_t: timeless_handler cmd_lpop "\<lambda>c. True"
  by (rule timeless_handlerI)
    (auto simp: pop_defs timeless_simps split: option.split Value.split list.split)

interpretation rpop_t: timeless_handler cmd_rpop "\<lambda>c. True"
  by (rule timeless_handlerI) (auto simp: pop_defs timeless_simps split: option.split Value.split)

interpretation sadd_t: timeless_handler cmd_sadd "\<lambda>c. True"
  by (rule timeless_handlerI)
    (auto simp: cmd_sadd_def get_or_create_set_def timeless_simps split: option.split Value.split prod.split)

interpretation srem_t: timeless_handler cmd_srem "\<lambda>c. True"
  by (rule timeless_handlerI)
    (auto simp: cmd_srem_def timeless_simps split: option.split Value.split prod.split)

interpretation hset_t: timeless_handler cmd_hset "\<lambda>c. True"
  by (rule timeless_handlerI)
    (auto simp: cmd_hset_def get_or_create_hash_def timeless_simps split: option.split Value.split prod.split)

interpretation hdel_t: timeless_handler cmd_hdel "\<lambda>c. True"
  by (rule timeless_handlerI)
    (auto simp: cmd_hdel_def timeless_simps split: option.split Value.split prod.split)

section \<open>Runs and replays at different times\<close>

text \<open>A command that gives no key a time to live.\<close>

definition expiry_free :: "command \<Rightarrow> bool" where
  "expiry_free c \<longleftrightarrow> cmd_name c \<noteq> ''EXPIRE'' \<and> (cmd_name c = ''SET'' \<longrightarrow> no_expiry_flag c)"

lemmas timeless_entries = set_t.entry del_t.entry persist_t.entry incr_t.entry decr_t.entry incrby_t.entry
  decrby_t.entry lpush_t.entry rpush_t.entry lpop_t.entry rpop_t.entry sadd_t.entry srem_t.entry
  hset_t.entry hdel_t.entry

lemma make_default_timeless:
  "list_all (\<lambda>(n, f). is_write_command n \<longrightarrow> n \<noteq> ''EXPIRE'' \<longrightarrow>
       timeless_fn f (\<lambda>c. n = ''SET'' \<longrightarrow> no_expiry_flag c)) (make_default double_div has_broker)"
  by (simp add: make_default_table is_write_command_def write_commands_def us_count_def timeless_entries)

lemma dispatch_timeless:
  assumes "is_write_command (cmd_name c)" and "expiry_free c" and "timeless (ctx_store x)"
  shows "ctx_store (snd (dispatch (make_default double_div has_broker) c clk x)) =
      ctx_store (snd (dispatch (make_default double_div has_broker) c clk' x))"
    and "timeless (ctx_store (snd (dispatch (make_default double_div has_broker) c clk x)))"
proof -
  have "timeless_fn f (\<lambda>c. n = ''SET'' \<longrightarrow> no_expiry_flag c)"
    if "um_find (make_default double_div has_broker) n = Some f" "is_write_command n" "n \<noteq> ''EXPIRE''" for n f
    using make_default_timeless [of double_div has_broker] map_of_SomeD [OF that(1)] that(2,3)
    by (auto simp: list_all_iff)
  with assms show "ctx_store (snd (dispatch (make_default double_div has_broker) c clk x)) =
      ctx_store (snd (dispatch (make_default double_div has_broker) c clk' x))"
    and "timeless (ctx_store (snd (dispatch (make_default double_div has_broker) c clk x)))"
    by (auto simp: dispatch_def timeless_fn_def expiry_free_def split: option.split)
qed

lemma run_commands_timeless:
  fixes double_div has_broker
  defines "d \<equiv> make_default double_div has_broker"
  assumes "\<forall>c\<in>set cs. is_write_command (cmd_name c) \<and> expiry_free c" and "timeless (ctx_store x)"
    and "ctx_store x = ctx_store y"
  shows "ctx_store (run_commands d clks m cs x) = ctx_store (run_commands d clks' n cs y)"
  using assms(2-4)
proof (induction cs arbitrary: x y m n)
  case Nil
  then show ?case by simp
next
  case (Cons c cs)
  let ?x = "snd (dispatch d c (clks m) x)" and ?y = "snd (dispatch d c (clks' n) y)"
  have "timeless (ctx_store ?x)"
    and "ctx_store ?x = ctx_store (snd (dispatch d c (clks' n) x))"
    unfolding d_def by (rule dispatch_timeless; use Cons.prems in simp)+
  moreover have "ctx_store (snd (dispatch d c (clks' n) x)) = ctx_store ?y"
    unfolding d_def by (rule dispatch_local [OF Cons.prems(3)])
  ultimately show ?case
    using Cons.IH [of ?x ?y] Cons.prems(1) by simp
qed

section \<open>Properties\<close>

text \<open>
  A restart at any time restores data without a time to live. Let a server whose store has no
  deadlines execute any sequence of commands none of which gives a key a time to live, with a log
  that was empty when it started. Replaying the log later, whatever the clock shows then, dispatches exactly
  the write commands, leaves the log as it is, and ends with the store the server had.
\<close>

lemma replay_any_time:
  fixes double_div has_broker
  defines "d \<equiv> make_default double_div has_broker"
  assumes "aof_is_open a" and "aof_disk a = Some []" and "\<forall>(c, clk)\<in>set ccs. command_ok c \<and> expiry_free c"
    and "timeless (ctx_store x)" and "serve_all d ccs (Some a, x) = (Some a', x')"
    and "ctx_store y = ctx_store x"
  shows "case replay True True True d clks a' y of (count, a'', y') \<Rightarrow>
    count = length (writes_of ccs) \<and> a'' = a' \<and> ctx_store y' = ctx_store x'"
proof -
  let ?ws = "map fst (writes_of ccs)"
  let ?clks = "\<lambda>i. snd (writes_of ccs ! i)"
  have ok: "\<forall>c\<in>set ?ws. command_ok c" and free: "\<forall>c\<in>set ?ws. is_write_command (cmd_name c) \<and> expiry_free c"
    using assms(4) by (auto simp: writes_of_def)
  have log: "aof_is_open a'" "aof_disk a' = Some (frames ?ws)"
    using fold_aof_log [OF assms(2,3), of ?ws] serve_all_log [of d ccs a x] assms(6) by auto
  have "ctx_store x' = ctx_store (run_commands d ?clks 0 ?ws x)"
    using serve_all_store [of x x ccs ?clks 0 double_div has_broker "Some a"] assms(6) by (simp add: d_def)
  also have "\<dots> = ctx_store (run_commands d clks 0 ?ws y)"
    unfolding d_def by (rule run_commands_timeless) (use free assms in auto)
  finally show ?thesis
    using replay_clean [OF ok log, of d clks y] by simp
qed

end
