(* ===== verification/Connection_Reads.thy ===== *)
theory Connection_Reads
  imports Connection
begin

text \<open>
  TCP delivers a stream of bytes, and the cuts between two reads have nothing to do with the
  commands. This theory follows a connection over several reads of a stream of commands, each
  followed by the completion of the write it started, and compares it with the reference
  \<open>pipeline\<close> of \<open>Connection\<close>.
\<close>

section \<open>Definitions\<close>

text \<open>
  One read and the write that answers it. The reads are numbered by what was received before, so that
  the \<open>n\<close>-th command of the whole stream reads the clock \<open>clks n\<close> however the stream is cut.
\<close>

definition serve_read ::
  "dispatcher \<Rightarrow> (std_exn \<Rightarrow> string) \<Rightarrow> (nat \<Rightarrow> clock) \<Rightarrow> string \<Rightarrow> conn_state \<Rightarrow> conn_state" where
  "serve_read d lib clks chunk st =
     (case on_read_complete d lib clks False chunk st of
        (conn, a, x) \<Rightarrow>
          (if write_in_progress conn then on_write_complete False (length (write_buf conn)) conn else conn, a, x))"

fun serve_reads ::
  "dispatcher \<Rightarrow> (std_exn \<Rightarrow> string) \<Rightarrow> (nat \<Rightarrow> clock) \<Rightarrow> string \<Rightarrow> string list \<Rightarrow> conn_state \<Rightarrow> conn_state" where
  "serve_reads d lib clks seen [] st = st"
| "serve_reads d lib clks seen (chunk # chunks) st =
     serve_reads d lib clks (seen @ chunk) chunks
       (serve_read d lib (\<lambda>n. clks (length (fst (drain seen)) + n)) chunk st)"

text \<open>A connection that waits for data and has nothing to write.\<close>

definition waiting :: "connection \<Rightarrow> bool" where
  "waiting conn \<longleftrightarrow> socket_open conn \<and> authenticated conn \<and> read_in_progress conn \<and> \<not> close_after_write conn
     \<and> \<not> write_in_progress conn \<and> write_queue conn = [] \<and> pending_write_bytes conn = 0"

section \<open>Prefixes of a stream of commands\<close>

lemma drain_prefix:
  assumes "\<forall>c\<in>set cs. command_ok c" and "p @ q = frames cs"
  shows "\<exists>cs1 cs2 r. cs = cs1 @ cs2 \<and> drain p = (map command_frame cs1, None, r) \<and> drain r = ([], None, r)
    \<and> p = frames cs1 @ r \<and> r @ q = frames cs2"
  using assms
proof (induction cs arbitrary: p)
  case Nil
  then show ?case by simp
next
  case (Cons c cs)
  let ?f = "serialize (command_frame c)"
  from Cons.prems(2) obtain u where u: "p = ?f @ u \<and> u @ q = frames cs \<or> p @ u = ?f \<and> q = u @ frames cs"
    by (auto simp: append_eq_append_conv2)
  show ?case
  proof (cases "p = ?f @ u \<and> u @ q = frames cs")
    case True
    with Cons.IH [of u] Cons.prems(1) obtain cs1 cs2 r where
      "cs = cs1 @ cs2" "drain u = (map command_frame cs1, None, r)" "drain r = ([], None, r)"
      "u = frames cs1 @ r" "r @ q = frames cs2" by auto
    moreover have "drain p = (command_frame c # map command_frame cs1, None, r)"
      using drain_frames [of "[c]" u] Cons.prems(1) calculation(2) True by simp
    ultimately show ?thesis
      using True by (intro exI [of _ "c # cs1"] exI [of _ cs2] exI [of _ r]) simp
  next
    case False
    with u have "p @ u = ?f" and "q = u @ frames cs" by auto
    show ?thesis
    proof (cases "u = []")
      case True
      with \<open>p @ u = ?f\<close> \<open>q = u @ frames cs\<close> have "p = frames [c] @ []" "q = frames cs" by simp_all
      then show ?thesis
        using drain_frames [of "[c]" "[]"] Cons.prems(1)
        by (intro exI [of _ "[c]"] exI [of _ cs] exI [of _ "[]"]) simp
    next
      case False
      with \<open>p @ u = ?f\<close> have "drain p = ([], None, p)"
        using torn_value_incomplete [of "command_frame c" p u] Cons.prems(1)
        by (intro drain_incomplete) (auto simp: command_ok_def)
      with Cons.prems(2) show ?thesis
        by (intro exI [of _ "[]"] exI [of _ "c # cs"] exI [of _ p]) simp
    qed
  qed
qed

section \<open>The reference in pieces\<close>

lemma pipeline_append:
  assumes "pipeline d clks n (cs @ ds) (conn, a, x) = (None, out, st)"
  obtains out1 a1 x1 out2 where "pipeline d clks n cs (conn, a, x) = (None, out1, conn, a1, x1)"
    "pipeline d clks (n + length cs) ds (conn, a1, x1) = (None, out2, st)" "out = out1 @ out2"
  using assms
proof (induction cs arbitrary: n a x out thesis)
  case Nil
  then show ?case by simp
next
  case (Cons c cs)
  obtain r a' x' where run: "execute_logged d c (clks n) (a, x) = (Inr r, a', x')"
    using Cons.prems(2) by (cases "execute_logged d c (clks n) (a, x)") (auto split: sum.splits)
  with Cons.prems(2) obtain out' where rest: "pipeline d clks (Suc n) (cs @ ds) (conn, a', count_command conn x') = (None, out', st)"
    and out: "out = serialize r @ out'"
    by (auto split: prod.splits)
  obtain out1 a1 x1 out2 where "pipeline d clks (Suc n) cs (conn, a', count_command conn x') = (None, out1, conn, a1, x1)"
    "pipeline d clks (Suc n + length cs) ds (conn, a1, x1) = (None, out2, st)" "out' = out1 @ out2"
    by (rule Cons.IH [OF _ rest])
  with run out show ?case
    by (intro Cons.prems(1) [of "serialize r @ out1" a1 x1 out2]) auto
qed

lemma pipeline_shift: "pipeline d (\<lambda>i. clks (k + i)) n cs st = pipeline d clks (k + n) cs st"
  by (induction cs arbitrary: n st) (auto split: prod.splits sum.splits)

lemma pipeline_other_conn:
  assumes "conn_has_stats conn = conn_has_stats conn'"
  shows "pipeline d clks n cs (conn', a, x) =
    (case pipeline d clks n cs (conn, a, x) of (e, out, c, a', x') \<Rightarrow> (e, out, conn', a', x'))"
  using assms
  by (induction cs arbitrary: n a x) (auto simp: count_command_def split: prod.splits sum.splits)

lemma pipeline_empty: "pipeline d clks n cs (conn, a, x) = (None, [], st) \<Longrightarrow> cs = []"
  by (cases cs) (auto split: prod.splits sum.splits)

section \<open>One read\<close>

text \<open>What a connection keeps from one read to the next.\<close>

definition same_client :: "connection \<Rightarrow> connection \<Rightarrow> bool" where
  "same_client conn conn' \<longleftrightarrow> conn_has_stats conn' = conn_has_stats conn
     \<and> max_request_bytes conn' = max_request_bytes conn
     \<and> max_pending_write_bytes conn' = max_pending_write_bytes conn"

lemma serve_read_pipeline:
  assumes wait: "waiting conn" and cs: "\<forall>c\<in>set cs. command_ok c \<and> plain c"
    and bytes: "parser_buf conn @ chunk = frames cs @ tail" and tail: "drain tail = ([], None, tail)"
    and room: "length (parser_buf conn) + length chunk \<le> max_request_bytes conn"
    and run: "pipeline d clks 0 cs (conn, a, x) = (None, out, conn, a', x')"
    and fits: "length out \<le> max_pending_write_bytes conn"
  shows "\<exists>conn'. serve_read d lib clks chunk (conn, a, x) = (conn', a', x') \<and> waiting conn' \<and> same_client conn conn'
    \<and> parser_buf conn' = tail \<and> concat (async_writes conn') = concat (async_writes conn) @ out"
proof -
  let ?conn = "reset_idle_timer (conn\<lparr>read_in_progress := False\<rparr>)"
  have fields: "authenticated ?conn" "parser_buf ?conn = parser_buf conn" "conn_has_stats ?conn = conn_has_stats conn"
    "max_request_bytes ?conn = max_request_bytes conn" "max_pending_write_bytes ?conn = max_pending_write_bytes conn"
    "socket_open ?conn" "\<not> read_in_progress ?conn" "\<not> close_after_write ?conn" "\<not> write_in_progress ?conn"
    "write_queue ?conn = []" "pending_write_bytes ?conn = 0" "async_writes ?conn = async_writes conn"
    using wait by (simp_all add: waiting_def reset_idle_timer_def)
  have "pipeline d clks 0 cs (?conn, a, x) = (None, out, ?conn, a', x')"
    using pipeline_other_conn [of conn ?conn] run fields(3) by simp
  then have "handle_loop d clks 0 (parser_buf ?conn) chunk [] (?conn, a, x) = (None, tail, out, ?conn, a', x')"
    using handle_loop_pipeline [OF tail cs fields(1), of "parser_buf conn" chunk d clks 0 "[]" a x] bytes fields(2)
    by auto
  then have "on_read_complete d lib clks False chunk (conn, a, x) =
      ((if out \<noteq> [] then do_write out else do_read) (?conn\<lparr>parser_buf := tail\<rparr>), a', x')"
    using room fields(2,4) by (simp add: on_read_complete_def handle_data_def buffered_size_def Let_def)
  then show ?thesis
    using fields fits
    by (cases "out = []")
      (simp_all add: serve_read_def waiting_def same_client_def do_write_def flush_write_queue_def do_read_def
        on_write_complete_def reset_idle_timer_def Let_def)
qed

lemma serve_reads_pipeline:
  assumes "waiting conn" and "\<forall>c\<in>set (ds @ cs). command_ok c" and "\<forall>c\<in>set cs. plain c"
    and "drain (parser_buf conn) = ([], None, parser_buf conn)" and "parser_buf conn @ concat chunks = frames cs"
    and "length (frames cs) \<le> max_request_bytes conn"
    and "pipeline d clks (length ds) cs (conn, a, x) = (None, out, conn, a', x')"
    and "length out \<le> max_pending_write_bytes conn"
  shows "\<exists>conn'. serve_reads d lib clks (frames ds @ parser_buf conn) chunks (conn, a, x) = (conn', a', x')
    \<and> concat (async_writes conn') = concat (async_writes conn) @ out \<and> waiting conn' \<and> parser_buf conn' = []"
  using assms
proof (induction chunks arbitrary: conn ds cs a x out)
  case Nil
  then have "drain (frames cs) = (map command_frame cs, None, [])"
    using drain_seen [of cs "[]"] by simp
  with Nil show ?case by simp
next
  case (Cons chunk chunks)
  have "(parser_buf conn @ chunk) @ concat chunks = frames cs" and cs_ok: "\<forall>c\<in>set cs. command_ok c"
    using Cons.prems(2,5) by simp_all
  then obtain cs1 cs2 r where cs: "cs = cs1 @ cs2" and r: "drain r = ([], None, r)"
    and bytes: "parser_buf conn @ chunk = frames cs1 @ r" "r @ concat chunks = frames cs2"
    using drain_prefix by blast
  obtain out1 a1 x1 out2 where run1: "pipeline d clks (length ds) cs1 (conn, a, x) = (None, out1, conn, a1, x1)"
    and run2: "pipeline d clks (length ds + length cs1) cs2 (conn, a1, x1) = (None, out2, conn, a', x')"
    and out: "out = out1 @ out2"
    by (rule pipeline_append [OF Cons.prems(7) [unfolded cs]])
  let ?clks = "\<lambda>n. clks (length (fst (drain (frames ds @ parser_buf conn))) + n)"
  have clks: "?clks = (\<lambda>n. clks (length ds + n))"
    using drain_seen [OF _ Cons.prems(4), of ds] Cons.prems(2) by simp
  have "length (parser_buf conn @ chunk) \<le> length (frames cs)"
    using Cons.prems(5) by (metis append.assoc concat.simps(2) length_append le_add1)
  then obtain conn1 where read: "serve_read d lib ?clks chunk (conn, a, x) = (conn1, a1, x1)" "waiting conn1"
      "same_client conn conn1" "parser_buf conn1 = r" "concat (async_writes conn1) = concat (async_writes conn) @ out1"
    using serve_read_pipeline [OF Cons.prems(1) _ bytes(1) r, of d ?clks a x out1 a1 x1 lib]
      run1 Cons.prems(2,3,6,8) by (auto simp: clks pipeline_shift cs out)
  have "pipeline d clks (length (ds @ cs1)) cs2 (conn1, a1, x1) = (None, out2, conn1, a', x')"
    using run2 pipeline_other_conn [of conn conn1] read(3) by (simp add: same_client_def)
  then show ?case
    using Cons.IH [of conn1 "ds @ cs1" cs2 a1 x1 out2] Cons.prems(2,3,6,8) read r bytes
    by (simp add: cs out same_client_def)
qed

section \<open>Properties\<close>

text \<open>
  C10:How the stream is cut does not matter, as long as no command throws. Let a client send plain
  commands none of which throws to a connection that waits for data, within its limits, and let TCP deliver the bytes
  in any number of pieces, cut anywhere. Then the connection executes, logs and answers what the reference does for
  the whole batch: the same store, log and counters, the same bytes in the same order; and in the end it waits for
  data again with an empty buffer.
\<close>

theorem cuts_do_not_matter:
  assumes "waiting conn" and "\<forall>c\<in>set cs. command_ok c \<and> plain c" and "concat chunks = frames cs"
    and "parser_buf conn = []" and "length (frames cs) \<le> max_request_bytes conn"
    and "pipeline d clks 0 cs (conn, a, x) = (None, out, conn, a', x')"
    and "length out \<le> max_pending_write_bytes conn"
  shows "\<exists>conn'. serve_reads d lib clks [] chunks (conn, a, x) = (conn', a', x')
    \<and> concat (async_writes conn') = concat (async_writes conn) @ out \<and> waiting conn' \<and> parser_buf conn' = []"
  using serve_reads_pipeline [of conn "[]" cs chunks d clks a x out a' x' lib] assms by simp

theorem cuts_do_not_matter_witness:
  "let ping = \<lparr>cmd_name = ''PING'', cmd_args = []\<rparr>; conn = start (new_connection 1 False False [] 1000 0 1000);
       x = initial_ctx (initial_stats 0); pong = serialize (RespSimpleString ''PONG'')
   in \<exists>conn'. serve_reads (make_default (\<lambda>a b. []) False) (\<lambda>e. []) (\<lambda>n i. 0) []
         [take 5 (frames [ping, ping]), drop 5 (frames [ping, ping])] (conn, None, x) = (conn', None, x)
      \<and> concat (async_writes conn') = pong @ pong \<and> waiting conn' \<and> parser_buf conn' = []"
proof -
  let ?ping = "\<lparr>cmd_name = ''PING'', cmd_args = []\<rparr>" and ?d = "make_default (\<lambda>a b. []) False"
  let ?conn = "start (new_connection 1 False False [] 1000 0 1000)" and ?x = "initial_ctx (initial_stats 0)"
  have ok: "\<forall>c\<in>set [?ping, ?ping]. command_ok c \<and> plain c"
    by (simp add: command_ok_eval plain_def)
  have conn: "waiting ?conn" "parser_buf ?conn = []" "max_request_bytes ?conn = 1000" "\<not> conn_has_stats ?conn"
    "max_pending_write_bytes ?conn = 1000" "async_writes ?conn = []"
    by (simp_all add: waiting_def new_connection_def conn_io_defs)
  have "serialize (command_frame ?ping) = ''*1'' @ crlf @ ''$4'' @ crlf @ ''PING'' @ crlf"
    by code_simp
  then have "length (frames [?ping, ?ping]) \<le> 1000"
    by (simp add: crlf_def)
  moreover have "execute_logged ?d ?ping (\<lambda>i. 0) (None, ?x) = (Inr (RespSimpleString ''PONG''), None, ?x)"
    by (simp add: execute_logged_def dispatch_def make_default_table on_store_def cmd_ping_def)
  then have "pipeline ?d (\<lambda>n i. 0) 0 [?ping, ?ping] (?conn, None, ?x) =
      (None, serialize (RespSimpleString ''PONG'') @ serialize (RespSimpleString ''PONG''), ?conn, None, ?x)"
    using conn(4) by (simp add: count_command_def)
  ultimately show ?thesis
    unfolding Let_def
    using cuts_do_not_matter [OF conn(1) ok, of "[take 5 (frames [?ping, ?ping]), drop 5 (frames [?ping, ?ping])]" ?d
        "\<lambda>n i. 0" None ?x _ None ?x "\<lambda>e. []"] conn
    by (simp add: crlf_def del: frames_simps)
qed

end
