(* ===== verification/Durability.thy ===== *)
theory Durability
  imports Server_Runs Replay_Times Connection_Reads
begin

text \<open>
  The log of the running server. Many connections append to one file; this theory shows that at
  every moment of every run the file is a sequence of complete write commands that leads from the
  empty store to the store the server has, and so that a restart finds the same data again.
\<close>

section \<open>What the log holds\<close>

text \<open>
  The log is open and holds the frames of write commands; if none of them gives a key a time to live,
  running them from the empty store gives the store.
\<close>

definition log_holds :: "dispatcher \<Rightarrow> command list \<Rightarrow> aof option \<times> server_ctx \<Rightarrow> bool" where
  "log_holds d cs st \<longleftrightarrow> (case st of (a, x) \<Rightarrow>
     (\<exists>f. a = Some f \<and> aof_is_open f \<and> aof_disk f = Some (frames cs))
     \<and> (\<forall>c\<in>set cs. command_ok c \<and> is_write_command (cmd_name c))
     \<and> (list_all expiry_free cs \<longrightarrow> timeless (ctx_store x) \<and>
          (\<forall>st. ctx_store x = ctx_store (run_commands d (\<lambda>n i. 0) 0 cs (initial_ctx st)))))"

definition durable :: "dispatcher \<Rightarrow> aof option \<times> server_ctx \<Rightarrow> bool" where
  "durable d st \<longleftrightarrow> (\<exists>cs. log_holds d cs st)"

lemma durable_cong: "durable d (a, x) \<Longrightarrow> ctx_store x' = ctx_store x \<Longrightarrow> durable d (a, x')"
  by (auto simp: durable_def log_holds_def)

lemma run_commands_snoc:
  "run_commands d clks n (cs @ [c]) x = snd (dispatch d c (clks (n + length cs)) (run_commands d clks n cs x))"
  by (induction cs arbitrary: n x) simp_all

lemma parsed_command_ok: "resp_ok v \<Longrightarrow> parse_command v = Some c \<Longrightarrow> command_ok c"
  by (auto simp: parse_command_Some command_ok_def command_frame_def)

text \<open>One more write command.\<close>

lemma log_holds_snoc:
  fixes double_div has_broker
  defines "d \<equiv> make_default double_div has_broker"
  assumes "log_holds d cs (Some f, x)" and "command_ok c" and is_write: "is_write_command (cmd_name c)"
  shows "log_holds d (cs @ [c]) (Some (aof_log c f), snd (dispatch d c clk x))"
proof -
  let ?x = "snd (dispatch d c clk x)" and ?y = "\<lambda>st. run_commands d (\<lambda>n i. 0) 0 cs (initial_ctx st)"
  have "timeless (ctx_store ?x) \<and> ctx_store ?x = ctx_store (run_commands d (\<lambda>n i. 0) 0 (cs @ [c]) (initial_ctx st))"
    if "list_all expiry_free (cs @ [c])" for st
  proof -
    have free: "expiry_free c" and tl: "timeless (ctx_store x)" and same: "ctx_store x = ctx_store (?y st)"
      using that assms(2) by (auto simp: log_holds_def)
    have "ctx_store ?x = ctx_store (snd (dispatch d c (\<lambda>i. 0) x))"
      unfolding d_def by (rule dispatch_timeless(1) [OF is_write free tl])
    also have "\<dots> = ctx_store (snd (dispatch d c (\<lambda>i. 0) (?y st)))"
      unfolding d_def by (rule dispatch_local) (use same in \<open>simp add: d_def\<close>)
    finally have "ctx_store ?x = ctx_store (run_commands d (\<lambda>n i. 0) 0 (cs @ [c]) (initial_ctx st))"
      by (simp add: run_commands_snoc)
    moreover have "timeless (ctx_store ?x)"
      unfolding d_def by (rule dispatch_timeless(2) [OF is_write free tl])
    ultimately show ?thesis by blast
  qed
  then show ?thesis
    using assms(2-4) aof_log_disk [of f "frames cs" c] by (auto simp: log_holds_def)
qed

lemma execute_logged_durable:
  fixes double_div has_broker
  defines "d \<equiv> make_default double_div has_broker"
  assumes "command_ok c" and "durable d (a, x)" and "execute_logged d c clk (a, x) = (r, a', x')"
  shows "durable d (a', x')"
proof -
  obtain cs f where log: "log_holds d cs (Some f, x)" and a: "a = Some f"
    using assms(3) by (auto simp: durable_def log_holds_def)
  have x': "x' = snd (dispatch d c clk x)"
    using assms(4) by (auto simp: execute_logged_def split: prod.splits)
  show ?thesis
  proof (cases "is_write_command (cmd_name c)")
    case True
    then have "a' = Some (aof_log c f)"
      using assms(4) a by (auto simp: execute_logged_def split: prod.splits)
    then show ?thesis
      using log_holds_snoc [OF log [unfolded d_def] assms(2) True, of clk] by (auto simp: durable_def x' d_def)
  next
    case False
    then have "a' = a"
      using assms(4) a by (auto simp: execute_logged_def split: prod.splits)
    moreover have "ctx_store x' = ctx_store x"
      unfolding x' d_def by (rule dispatch_reads [OF False])
    ultimately show ?thesis
      using durable_cong [OF assms(3)] by simp
  qed
qed

section \<open>Connections\<close>

lemma handle_command_durable:
  fixes double_div has_broker
  defines "d \<equiv> make_default double_div has_broker"
  assumes ok: "command_ok c" and dur: "durable d (snd st)"
  shows "durable d (snd (snd (snd (handle_command d clk c st))))"
proof -
  obtain conn a x where st: "st = (conn, a, x)" by (cases st)
  obtain r a' x' where run: "execute_logged d c clk (a, x) = (r, a', x')"
    by (cases "execute_logged d c clk (a, x)")
  have "durable d (a', x')"
    using execute_logged_durable [OF ok _ run [unfolded d_def]] dur by (simp add: d_def st)
  then have "durable d (a', count_command conn x')"
    by (rule durable_cong) simp
  moreover have "durable d (a, snd (handle_subscribe c conn x))"
    using handle_subscribe_ctx [of c conn x] durable_cong [of d a x] dur st by auto
  moreover have "durable d (a, snd (handle_unsubscribe c conn x))"
    using handle_unsubscribe_ctx [of c conn x] durable_cong [of d a x] dur st by auto
  ultimately show ?thesis
    using dur run \<open>durable d (a', x')\<close>
    by (auto simp: handle_command_def st split: prod.splits sum.splits)
qed

lemma handle_data_durable:
  fixes double_div has_broker
  defines "d \<equiv> make_default double_div has_broker"
  assumes "durable d (a, x)"
  shows "durable d (snd (handle_data d lib clks chunk (conn, a, x)))"
proof (cases rule: handle_data_cases [of conn chunk d lib clks a x])
  case refused
  with assms show ?thesis by simp
next
  case (handled conn' buf a' x' out)
  have "durable d (snd (snd (snd (snd (handle_loop d clks 0 (parser_buf conn) chunk [] (conn, a, x))))))"
    by (rule handle_loop_parsed_invariant [where I = "\<lambda>st. durable d (snd st)"])
      (use assms handle_command_durable parsed_command_ok in \<open>auto simp: d_def\<close>)
  with handled show ?thesis by simp
qed

lemma on_read_complete_durable:
  fixes double_div has_broker
  defines "d \<equiv> make_default double_div has_broker"
  assumes "durable d (a, x)"
  shows "durable d (snd (on_read_complete d lib clks ec chunk (conn, a, x)))"
  using assms handle_data_durable [of double_div has_broker a x]
  by (simp add: on_read_complete_def Let_def d_def)

section \<open>The server\<close>

lemma sweep_timeless: "timeless s \<Longrightarrow> sweep now s = s"
proof -
  have "list_all (\<lambda>(k, e). expires_at e = None) m \<Longrightarrow> sweep_loop now m = m" for m
    by (induction m) auto
  then show "timeless s \<Longrightarrow> sweep now s = s"
    by (simp add: timeless_def sweep_def)
qed

text \<open>A sweep does nothing to a store without deadlines, so it does not disturb the agreement either.\<close>

lemma sweep_durable: "durable d (a, x) \<Longrightarrow> durable d (a, x\<lparr>ctx_store := sweep now (ctx_store x)\<rparr>)"
  by (auto simp: durable_def log_holds_def sweep_timeless)

lemma on_accept_shared:
  "srv_aof (on_accept res s) = srv_aof s" "ctx_store (srv_ctx (on_accept res s)) = ctx_store (srv_ctx s)"
  by (auto simp: on_accept_def server_do_accept_def create_connection_def Let_def split: accept_result.split)

lemma on_poll_timer_shared:
  "srv_aof (on_poll_timer ab ec s) = srv_aof s" "ctx_store (srv_ctx (on_poll_timer ab ec s)) = ctx_store (srv_ctx s)"
  by (simp_all add: server_update_defs)

lemma connection_destroyed_store: "ctx_store (connection_destroyed conn x) = ctx_store x"
  by (simp add: connection_destroyed_def Let_def)

lemma server_step_durable:
  fixes double_div has_broker
  defines "d \<equiv> make_default double_div has_broker"
  assumes "server_step d lib s s'" and dur: "durable d (srv_aof s, srv_ctx s)"
  shows "durable d (srv_aof s', srv_ctx s')"
  using assms(2)
proof cases
  case (accept_done res)
  then show ?thesis using durable_cong [OF dur] on_accept_shared by simp
next
  case (read_done cid conn chunk clks ec conn' a' x')
  then show ?thesis
    using on_read_complete_durable [of double_div has_broker "srv_aof s" "srv_ctx s" lib clks ec chunk conn] dur
    by (simp add: d_def put_conn_def)
next
  case (write_done cid conn ec)
  then show ?thesis using dur by (simp add: put_conn_def)
next
  case (idle_fired cid conn aborted ec)
  then show ?thesis using dur by (simp add: put_conn_def)
next
  case (posted_write cid frame rest conn)
  then show ?thesis using durable_cong [OF dur] by (simp add: put_conn_def)
next
  case (poll_fired aborted ec)
  then show ?thesis using durable_cong [OF dur] on_poll_timer_shared by simp
next
  case (signal_raised n)
  then show ?thesis using dur by (simp add: vortek_signal_handler_def)
next
  case (expiry_sweep now)
  then show ?thesis using sweep_durable [OF dur] by simp
next
  case (conn_destroyed cid conn)
  then show ?thesis using durable_cong [OF dur] connection_destroyed_store by simp
qed

interpretation durability: preserved "server_step (make_default double_div has_broker) lib"
  "\<lambda>s. durable (make_default double_div has_broker) (srv_aof s, srv_ctx s)" for double_div has_broker lib
  by unfold_locales (rule server_step_durable)

section \<open>Starting with a log\<close>

lemma server_run_shared:
  "srv_aof (server_run (new_server cfg hs hb a x)) = a"
  "ctx_store (srv_ctx (server_run (new_server cfg hs hb a x))) = ctx_store x"
  by (simp_all add: server_run_def new_server_def setup_signal_handlers_def server_update_defs)

text \<open>A start with a log that holds the frames of commands runs these commands from the empty store.\<close>

lemma main_boot_frames:
  assumes "parse_args parse_file args = Parsed cfg" and "aof_enabled cfg"
    and "(case disk (aof_path cfg) of None \<Rightarrow> [] | Some content \<Rightarrow> content) = frames cs"
    and "\<forall>c\<in>set cs. command_ok c"
  shows "\<exists>s st. main_boot parse_file disk True True True True True d now clks args = Inr s
    \<and> srv_aof s = Some \<lparr>aof_disk = Some (frames cs), aof_is_open = True\<rparr>
    \<and> ctx_store (srv_ctx s) = ctx_store (run_commands d clks 0 cs (initial_ctx st))"
proof -
  let ?st = "(initial_stats now)\<lparr>stats_port := port cfg, stats_aof_enabled := aof_enabled cfg\<rparr>"
  let ?f = "aof_new True (disk (aof_path cfg))"
  have f: "?f = \<lparr>aof_disk = Some (frames cs), aof_is_open = True\<rparr>"
    using assms(3) by (simp add: aof_new_def)
  then have "replay True True True d clks ?f (initial_ctx ?st) = (length cs, ?f, run_commands d clks 0 cs (initial_ctx ?st))"
    by (intro replay_clean [OF assms(4)]) simp_all
  then show ?thesis
    using assms(1,2) f by (auto simp: main_boot_def Let_def server_run_shared)
qed

section \<open>A run\<close>

text \<open>A server with a new log that executes one command of its first client.\<close>

abbreviation example_set :: command where
  "example_set \<equiv> \<lparr>cmd_name = ''SET'', cmd_args = [''k'', ''v'']\<rparr>"

lemma example_set_ok: "command_ok example_set" "length (frames [example_set]) \<le> 100" "plain example_set" "expiry_free example_set"
  by (simp add: command_ok_eval, code_simp)
    (simp_all add: plain_def expiry_free_def no_expiry_flag_def)

lemma example_logged:
  assumes "main_boot (\<lambda>p. Inl []) (\<lambda>p. None) True True True True True example_table 0 (\<lambda>n i. 0) [] = Inr s0"
  shows "\<exists>s f. reachable example_table (\<lambda>e. []) s0 s \<and> srv_aof s = Some f \<and> aof_disk f = Some (frames [example_set])
    \<and> kv_get 0 ''k'' (ctx_store (srv_ctx s)) = Some (StringValue ''v'')"
proof -
  let ?f = "\<lparr>aof_disk = Some [], aof_is_open = True\<rparr>"
  let ?conn = "start (new_connection 0 True True [] 1048576 300 1048576)"
  define s1 where "s1 = on_accept (Accepted True) s0"
  have s0: "s0 = server_run (new_server default_config True True (Some ?f)
      (initial_ctx ((initial_stats 0)\<lparr>stats_port := 6379, stats_aof_enabled := True\<rparr>)))"
    using assms by (simp add: main_boot_def parse_args_def default_config_def aof_new_def replay_def)
  have "running s0" "accept_pending s0"
    by (simp_all add: s0 server_run_def new_server_def setup_signal_handlers_def server_update_defs running_def)
  then have first: "server_step example_table (\<lambda>e. []) s0 s1"
    unfolding s1_def by (intro accept_done) simp_all
  have s1: "running s1" "srv_aof s1 = Some ?f" "um_find (srv_conns s1) 0 = Some ?conn" "ctx_store (srv_ctx s1) = kv_empty"
    by (simp_all add: s1_def s0 server_run_def new_server_def setup_signal_handlers_def server_update_defs
        running_def default_config_def initial_ctx_def initial_stats_def)
  have conn: "waiting ?conn" "parser_buf ?conn = []" "max_request_bytes ?conn = 1048576" "read_in_progress ?conn"
    "max_pending_write_bytes ?conn = 1048576"
    by (simp_all add: waiting_def new_connection_def conn_io_defs)
  let ?x = "(srv_ctx s1)\<lparr>ctx_store := kv_set 0 ''k'' (StringValue ''v'') 0 kv_empty\<rparr>"
  have "dispatch example_table example_set (\<lambda>i. 0) (srv_ctx s1) = (Inr (RespSimpleString ''OK''), ?x)"
    by (simp add: dispatch_def make_default_table on_store_def cmd_set_def s1)
  then have "pipeline example_table (\<lambda>n i. 0) 0 [example_set] (?conn, Some ?f, srv_ctx s1) =
      (None, serialize (RespSimpleString ''OK''), ?conn, Some (aof_log example_set ?f), count_command ?conn ?x)"
    by (simp add: execute_logged_def is_write_command_def write_commands_def us_count_def)
  from serve_read_pipeline [OF conn(1) _ _ drain_empty _ this, of "frames [example_set]" "\<lambda>e. []"] example_set_ok conn
  obtain conn' where "on_read_complete example_table (\<lambda>e. []) (\<lambda>n i. 0) False (frames [example_set]) (?conn, srv_aof s1, srv_ctx s1)
      = (conn', Some (aof_log example_set ?f), count_command ?conn ?x)"
    by (auto simp: serve_read_def s1 crlf_def simp del: frames_simps split: prod.splits)
  then have second: "server_step example_table (\<lambda>e. []) s1
      (put_conn 0 conn' (Some (aof_log example_set ?f)) (count_command ?conn ?x) s1)" (is "server_step _ _ _ ?s2")
    using example_set_ok(2) conn(4) s1 by (intro read_done) auto
  have "kv_get 0 ''k'' (ctx_store (count_command ?conn ?x)) = Some (StringValue ''v'')"
    by (simp add: kv.get_set_forever)
  moreover have "reachable example_table (\<lambda>e. []) s0 ?s2"
    using first second by (meson rtranclp.rtrancl_into_rtrancl r_into_rtranclp)
  moreover have "srv_aof ?s2 = Some (aof_log example_set ?f)" "aof_disk (aof_log example_set ?f) = Some (frames [example_set])"
    by (simp_all add: put_conn_def aof_log_def)
  moreover have "srv_ctx ?s2 = count_command ?conn ?x"
    by (simp add: put_conn_def)
  ultimately show ?thesis by metis
qed

section \<open>Properties\<close>

text \<open>
  C3: Restarting the server brings the data back. Start the server with a new or empty log, let any
  number of clients, timers, signals and sweeps act on it in any order, stop it at any moment, and
  start it again with the same options on the log it left, at whatever time. If none of
  the logged commands gave a key a time to live, the new server starts with exactly the store the old one had.
\<close>

theorem restart_recovers_store:
  fixes double_div has_broker
  defines "d \<equiv> make_default double_div has_broker"
  assumes "parse_args parse_file args = Parsed cfg" and "aof_enabled cfg"
    and "disk (aof_path cfg) = None \<or> disk (aof_path cfg) = Some []"
    and "main_boot parse_file disk True True True True True d now clks args = Inr s0" and "reachable d lib s0 s"
    and "srv_aof s = Some f" and "aof_disk f = Some content"
    and "\<forall>c\<in>set (commands_of (fst (drain content))). expiry_free c"
    and "disk' (aof_path cfg) = Some content"
  shows "\<exists>s1. main_boot parse_file disk' True True True True True d now' clks' args = Inr s1
    \<and> ctx_store (srv_ctx s1) = ctx_store (srv_ctx s) \<and> aof_disk (the (srv_aof s1)) = Some content"
proof -
  obtain st where "srv_aof s0 = Some \<lparr>aof_disk = Some (frames []), aof_is_open = True\<rparr>"
    and "ctx_store (srv_ctx s0) = ctx_store (run_commands d clks 0 [] (initial_ctx st))"
    using main_boot_frames [OF assms(2,3), of disk "[]" d now clks] assms(4,5) by auto
  then have "durable d (srv_aof s0, srv_ctx s0)"
    by (auto simp: durable_def log_holds_def initial_ctx_def timeless_def kv_empty_def intro!: exI [of _ "[]"])
  then have "durable d (srv_aof s, srv_ctx s)"
    using durability.run_keeps assms(6) unfolding d_def by blast
  then obtain cs where cs: "content = frames cs" "\<forall>c\<in>set cs. command_ok c \<and> is_write_command (cmd_name c)"
    and store: "list_all expiry_free cs \<Longrightarrow>
        timeless (ctx_store (srv_ctx s)) \<and> (\<forall>st. ctx_store (srv_ctx s) = ctx_store (run_commands d (\<lambda>n i. 0) 0 cs (initial_ctx st)))"
    using assms(7,8) by (auto simp: durable_def log_holds_def)
  have "commands_of (fst (drain content)) = cs"
    using drain_seen [of cs "[]"] commands_of_frames [of cs] cs by simp
  then have free: "\<forall>c\<in>set cs. is_write_command (cmd_name c) \<and> expiry_free c"
    using assms(9) cs(2) by simp
  obtain s1 st1 where s1: "main_boot parse_file disk' True True True True True d now' clks' args = Inr s1"
    "srv_aof s1 = Some \<lparr>aof_disk = Some (frames cs), aof_is_open = True\<rparr>"
    "ctx_store (srv_ctx s1) = ctx_store (run_commands d clks' 0 cs (initial_ctx st1))"
    using main_boot_frames [OF assms(2,3), of disk' cs d now' clks'] assms(10) cs by auto
  moreover have "ctx_store (run_commands d clks' 0 cs (initial_ctx st1)) =
      ctx_store (run_commands d (\<lambda>n i. 0) 0 cs (initial_ctx st1))"
    unfolding d_def by (rule run_commands_timeless [OF free]) (simp_all add: initial_ctx_def timeless_def kv_empty_def)
  moreover have "ctx_store (srv_ctx s) = ctx_store (run_commands d (\<lambda>n i. 0) 0 cs (initial_ctx st1))"
    using store free by (auto simp: list_all_iff)
  ultimately show ?thesis
    using cs(1) by auto
qed

theorem restart_recovers_store_witness:
  "\<exists>s1. main_boot (\<lambda>p. Inl []) (\<lambda>p. Some (frames [example_set])) True True True True True example_table 7 (\<lambda>n i. 7) [] = Inr s1
     \<and> kv_get 0 ''k'' (ctx_store (srv_ctx s1)) = Some (StringValue ''v'')"
proof -
  have cfg: "parse_args (\<lambda>p. Inl []) [] = Parsed default_config" "aof_enabled default_config"
    by (simp_all add: parse_args_def default_config_def)
  obtain s0 where boot: "main_boot (\<lambda>p. Inl []) (\<lambda>p. None) True True True True True example_table 0 (\<lambda>n i. 0) [] = Inr s0"
    using main_boot_frames [OF cfg, of "\<lambda>p. None" "[]" example_table 0 "\<lambda>n i. 0"] by auto
  obtain s f where s: "reachable example_table (\<lambda>e. []) s0 s" "srv_aof s = Some f" "aof_disk f = Some (frames [example_set])"
    "kv_get 0 ''k'' (ctx_store (srv_ctx s)) = Some (StringValue ''v'')"
    using example_logged [OF boot] by blast
  have "commands_of (fst (drain (frames [example_set]))) = [example_set]"
    using drain_seen [of "[example_set]" "[]"] commands_of_frames [of "[example_set]"] example_set_ok(1) by simp
  then have "\<forall>c\<in>set (commands_of (fst (drain (frames [example_set])))). expiry_free c"
    using example_set_ok(4) by simp
  from restart_recovers_store [OF cfg _ boot s(1-3) this, of "\<lambda>p. Some (frames [example_set])" 7 "\<lambda>n i. 7"] s(4)
  show ?thesis by auto
qed

end
