(* ===== verification/Reply_Lines.thy ===== *)
theory Reply_Lines
  imports Resp_Parser Dispatcher
begin

text \<open>
  Replies on the wire. A simple string or an error ends at the first CR LF, so a reply reaches the
  client in one piece only if its lines contain none: this theory shows that for every command of
  the table but \<^verbatim>\<open>INFO\<close>, whose error repeats an argument of the client.
\<close>

section \<open>One-line texts\<close>

definition one_line :: "string \<Rightarrow> bool" where
  "one_line s \<longleftrightarrow> CR \<notin> set s \<and> LF \<notin> set s"

fun lines_ok :: "resp_value \<Rightarrow> bool" where
  "lines_ok (RespSimpleString s) = one_line s"
| "lines_ok (RespError m) = one_line m"
| "lines_ok (RespArray es) = list_all lines_ok es"
| "lines_ok _ = True"

text \<open>The sizes and numbers of a reply fit the formats of the wire.\<close>

fun wire_sized :: "resp_value \<Rightarrow> bool" where
  "wire_sized (RespInteger i) = fits64 i"
| "wire_sized (RespBulkString b) = (int (length b) \<le> int64_max)"
| "wire_sized (RespArray es) = (int (length es) \<le> vector_max_size \<and> list_all wire_sized es)"
| "wire_sized _ = True"

lemma one_line_no_crlf: "one_line s \<Longrightarrow> find_crlf_idx s = None"
  by (induction s rule: find_crlf_idx.induct) (auto simp: one_line_def)

lemma resp_ok_lines: "lines_ok v \<Longrightarrow> wire_sized v \<Longrightarrow> resp_ok v"
  by (induction v) (auto simp: one_line_no_crlf list_all_iff)

lemma one_line_wrong_args [line_simps]: "one_line n \<Longrightarrow> lines_ok (wrong_args n)"
  by (simp add: wrong_args_def one_line_def)

declare kWrongType_def [line_simps] err_def [line_simps] one_line_def [line_simps] list_all_iff [line_simps]

section \<open>Handlers\<close>

definition line_fn :: "handler_fn \<Rightarrow> bool" where
  "line_fn f \<longleftrightarrow> (\<forall>c clk x r. one_line (cmd_name c) \<longrightarrow> fst (f c clk x) = Inr r \<longrightarrow> lines_ok r)"

locale line_handler =
  fixes h :: store_handler
  assumes lines: "one_line (cmd_name c) \<Longrightarrow> fst (h c clk s) = Inr r \<Longrightarrow> lines_ok r"
begin

lemma entry: "line_fn (on_store h)"
  using lines by (auto simp: line_fn_def on_store_def split_def)

end

lemma line_handlerI:
  "(\<And>c clk s r s'. one_line (cmd_name c) \<Longrightarrow> h c clk s = (Inr r, s') \<Longrightarrow> lines_ok r) \<Longrightarrow> line_handler h"
  by unfold_locales (metis prod.collapse)

interpretation ping_l: line_handler cmd_ping
  by (rule line_handlerI) (auto simp: cmd_ping_def line_simps split: if_splits)

interpretation del_l: line_handler cmd_del
  by (rule line_handlerI) (auto simp: cmd_del_def line_simps split: if_splits prod.splits)

interpretation exists_l: line_handler cmd_exists
  by (rule line_handlerI) (auto simp: cmd_exists_def line_simps split: if_splits)

interpretation expire_l: line_handler cmd_expire
  by (rule line_handlerI) (auto simp: cmd_expire_def line_simps split: if_splits option.splits prod.splits)

interpretation ttl_l: line_handler cmd_ttl
  by (rule line_handlerI) (auto simp: cmd_ttl_def Let_def line_simps split: if_splits)

interpretation persist_l: line_handler cmd_persist
  by (rule line_handlerI) (auto simp: cmd_persist_def line_simps split: if_splits prod.splits)

interpretation health_l: line_handler cmd_health
  by (rule line_handlerI) (auto simp: cmd_health_def line_simps split: if_splits)

interpretation ready_l: line_handler "cmd_ready stats" for stats
  by (rule line_handlerI) (auto simp: cmd_ready_def line_simps split: if_splits)

interpretation metrics_l: line_handler "cmd_metrics double_div stats" for double_div stats
  by (rule line_handlerI) (auto simp: cmd_metrics_def metrics_body_def Let_def line_simps split: if_splits)

interpretation get_l: line_handler cmd_get
  by (rule line_handlerI) (auto simp: cmd_get_def line_simps split: if_splits option.splits sum.splits)

interpretation incr_l: line_handler cmd_incr
  by (rule line_handlerI) (auto simp: counter_defs line_simps split: if_splits option.splits sum.splits)

interpretation decr_l: line_handler cmd_decr
  by (rule line_handlerI) (auto simp: counter_defs line_simps split: if_splits option.splits sum.splits)

interpretation incrby_l: line_handler cmd_incrby
  by (rule line_handlerI) (auto simp: counter_defs line_simps split: if_splits option.splits sum.splits)

interpretation decrby_l: line_handler cmd_decrby
  by (rule line_handlerI) (auto simp: counter_defs line_simps split: if_splits option.splits sum.splits)

interpretation lpush_l: line_handler cmd_lpush
  by (rule line_handlerI) (auto simp: push_defs line_simps split: if_splits option.splits Value.splits)

interpretation rpush_l: line_handler cmd_rpush
  by (rule line_handlerI) (auto simp: push_defs line_simps split: if_splits option.splits Value.splits)

interpretation lpop_l: line_handler cmd_lpop
  by (rule line_handlerI) (auto simp: pop_defs line_simps split: if_splits option.splits Value.splits list.splits)

interpretation rpop_l: line_handler cmd_rpop
  by (rule line_handlerI) (auto simp: pop_defs line_simps split: if_splits option.splits Value.splits list.splits)

interpretation llen_l: line_handler cmd_llen
  by (rule line_handlerI) (auto simp: cmd_llen_def line_simps split: if_splits option.splits Value.splits)

interpretation lrange_l: line_handler cmd_lrange
  by (rule line_handlerI) (auto simp: cmd_lrange_def lrange_elems_def Let_def line_simps split: if_splits option.splits Value.splits)

interpretation lindex_l: line_handler cmd_lindex
  by (rule line_handlerI) (auto simp: cmd_lindex_def Let_def line_simps split: if_splits option.splits Value.splits)

interpretation sadd_l: line_handler cmd_sadd
  by (rule line_handlerI) (auto simp: cmd_sadd_def get_or_create_set_def line_simps split: if_splits option.splits Value.splits prod.splits)

interpretation srem_l: line_handler cmd_srem
  by (rule line_handlerI) (auto simp: cmd_srem_def line_simps split: if_splits option.splits Value.splits prod.splits)

interpretation smembers_l: line_handler cmd_smembers
  by (rule line_handlerI) (auto simp: cmd_smembers_def line_simps split: if_splits option.splits Value.splits)

interpretation sismember_l: line_handler cmd_sismember
  by (rule line_handlerI) (auto simp: cmd_sismember_def line_simps split: if_splits option.splits Value.splits)

interpretation scard_l: line_handler cmd_scard
  by (rule line_handlerI) (auto simp: cmd_scard_def line_simps split: if_splits option.splits Value.splits)

interpretation hset_l: line_handler cmd_hset
  by (rule line_handlerI) (auto simp: cmd_hset_def get_or_create_hash_def line_simps split: if_splits option.splits Value.splits prod.splits)

interpretation hdel_l: line_handler cmd_hdel
  by (rule line_handlerI) (auto simp: cmd_hdel_def line_simps split: if_splits option.splits Value.splits prod.splits)

interpretation hget_l: line_handler cmd_hget
  by (rule line_handlerI) (auto simp: cmd_hget_def line_simps split: if_splits option.splits Value.splits)

interpretation hgetall_l: line_handler cmd_hgetall
  by (rule line_handlerI) (auto simp: cmd_hgetall_def line_simps split: if_splits option.splits Value.splits)

interpretation hexists_l: line_handler cmd_hexists
  by (rule line_handlerI) (auto simp: cmd_hexists_def line_simps split: if_splits option.splits Value.splits)

interpretation hlen_l: line_handler cmd_hlen
  by (rule line_handlerI) (auto simp: cmd_hlen_def line_simps split: if_splits option.splits Value.splits)

lemma parse_set_flags_lines: "parse_set_flags as ttl nx xx = Inl e \<Longrightarrow> lines_ok e"
  by (induction as ttl nx xx rule: parse_set_flags.induct)
    (auto simp: Let_def line_simps split: if_splits list.splits option.splits)

interpretation set_l: line_handler cmd_set
  by (rule line_handlerI)
    (auto simp: cmd_set_def Let_def line_simps dest: parse_set_flags_lines split: if_splits sum.splits prod.splits)

lemma with_stats_line:
  assumes "\<And>st. line_handler (h st)"
  shows "line_fn (with_stats h)"
  using line_handler.entry [OF assms] by (simp add: line_fn_def with_stats_def)

lemma publish_line: "line_fn cmd_publish"
  by (auto simp: line_fn_def cmd_publish_def line_simps split: if_splits prod.splits)

lemmas ready_line = with_stats_line [OF ready_l.line_handler_axioms]
lemmas metrics_line = with_stats_line [OF metrics_l.line_handler_axioms]

lemmas line_entries = ping_l.entry del_l.entry exists_l.entry expire_l.entry ttl_l.entry persist_l.entry
  health_l.entry set_l.entry get_l.entry incr_l.entry decr_l.entry incrby_l.entry decrby_l.entry
  lpush_l.entry rpush_l.entry lpop_l.entry rpop_l.entry llen_l.entry lrange_l.entry lindex_l.entry
  sadd_l.entry srem_l.entry smembers_l.entry sismember_l.entry scard_l.entry hset_l.entry hdel_l.entry
  hget_l.entry hgetall_l.entry hexists_l.entry hlen_l.entry ready_line metrics_line
  publish_line

section \<open>The table\<close>

lemma make_default_lines:
  "list_all (\<lambda>(n, f). one_line n \<and> (n \<noteq> ''INFO'' \<longrightarrow> line_fn f)) (make_default double_div has_broker)"
  by (simp add: make_default_table one_line_def line_entries)

lemma dispatch_lines:
  assumes "um_find (make_default double_div has_broker) (cmd_name c) \<noteq> None" and "cmd_name c \<noteq> ''INFO''"
    and "fst (dispatch (make_default double_div has_broker) c clk x) = Inr r"
  shows "lines_ok r"
proof -
  obtain f where f: "um_find (make_default double_div has_broker) (cmd_name c) = Some f"
    using assms(1) by blast
  from make_default_lines [of double_div has_broker] map_of_SomeD [OF this] assms(2)
  have "one_line (cmd_name c)" and "line_fn f"
    by (auto simp: list_all_iff)
  with f assms(3) show ?thesis
    by (simp add: dispatch_def line_fn_def)
qed

section \<open>Properties\<close>

text \<open>
  C29: A reply is read back as the reply it is. For every command of the table but \<^verbatim>\<open>INFO\<close>, if its
  numbers and sizes fit the wire formats, a client that parses the bytes sent gets exactly the
  reply of the command, and whatever follows is left untouched: arguments and stored data can never
  make one reply look like two.
\<close>

theorem reply_read_back:
  assumes "um_find (make_default double_div has_broker) (cmd_name c) \<noteq> None" and "cmd_name c \<noteq> ''INFO''"
    and "fst (dispatch (make_default double_div has_broker) c clk x) = Inr r" and "wire_sized r"
  shows "feed [] (serialize r @ rest) = (Inr (Some r), rest)"
  using resp_ok_lines [OF dispatch_lines [OF assms(1-3)] assms(4)] parse_serialize_at [of r "[]" rest]
  by (simp add: feed_def)

theorem reply_read_back_witness:
  "feed [] (serialize (RespBulkString (''a'' @ crlf @ ''+OK'')) @ ''rest'') = (Inr (Some (RespBulkString (''a'' @ crlf @ ''+OK''))), ''rest'')"
proof (rule reply_read_back)
  let ?c = "\<lparr>cmd_name = ''PING'', cmd_args = [''a'' @ crlf @ ''+OK'']\<rparr>" and ?d = "make_default (\<lambda>a b. []) True"
  show "um_find ?d (cmd_name ?c) \<noteq> None" and "cmd_name ?c \<noteq> ''INFO''"
    by (simp_all add: make_default_table)
  show "fst (dispatch ?d ?c (\<lambda>i. 0) (initial_ctx (initial_stats 0))) = Inr (RespBulkString (''a'' @ crlf @ ''+OK''))"
    by (simp add: dispatch_def make_default_table on_store_def cmd_ping_def)
qed (simp add: crlf_def int64_max_def)

end
