(* ===== verification/Abstract_Store.thy ===== *)
theory Abstract_Store
  imports Commands
begin

text \<open>
  What a client of the server can rely on does not mention hash tables, iteration orders, sweeps or
  the moment an expired entry is erased. This theory gives the data as a client thinks of it: a map
  from keys to strings, lists, mathematical sets and maps with a deadline, an entry being there until its deadline.
  It relates the store of \<^verbatim>\<open>core/kv_store.cpp\<close> to it and states what it means that a handler
  implements a specification over it.
\<close>

section \<open>Definitions\<close>

datatype avalue =
    AString string
  | AList "string list"
  | ASet "string set"
  | AHash "string \<rightharpoonup> string"

record aentry =
  a_value :: avalue
  a_deadline :: "time_point option"

type_synonym astate = "string \<rightharpoonup> aentry"

definition fade :: "time_point \<Rightarrow> astate \<Rightarrow> astate" where
  "fade now m = (\<lambda>k. case m k of
     None \<Rightarrow> None
   | Some e \<Rightarrow> (case a_deadline e of
                 None \<Rightarrow> Some e
               | Some t \<Rightarrow> if now < t then Some e else None))"

definition held :: "time_point \<Rightarrow> astate \<Rightarrow> string \<Rightarrow> avalue option" where
  "held now m k = map_option a_value (fade now m k)"

text \<open>The abstraction of a store.\<close>

fun abs_value :: "Value \<Rightarrow> avalue" where
  "abs_value (StringValue t) = AString t"
| "abs_value (ListValue l) = AList l"
| "abs_value (SetValue s) = ASet (set s)"
| "abs_value (HashValue h) = AHash (um_find h)"

definition abs_entry :: "entry \<Rightarrow> aentry" where
  "abs_entry e = \<lparr>a_value = abs_value (entry_value e), a_deadline = expires_at e\<rparr>"

definition abs_store :: "kv_store \<Rightarrow> astate" where
  "abs_store s = map_option abs_entry \<circ> um_find (kv_data s)"

definition seen :: "time_point \<Rightarrow> kv_store \<Rightarrow> astate" where
  "seen now s = map_option abs_entry \<circ> live now s"

text \<open>
  A reply is fixed by the specification, or fixed up to the order in which a set or a hash is
  listed, or not a matter of the data.
\<close>

datatype areply = Exactly reply | Members "string set" | Pairs "string \<rightharpoonup> string" | Anything

fun matches :: "areply \<Rightarrow> reply \<Rightarrow> bool" where
  "matches (Exactly r) r' \<longleftrightarrow> r' = r"
| "matches (Members S) r' \<longleftrightarrow>
     (\<exists>xs. r' = Inr (RespArray (map RespBulkString xs)) \<and> distinct xs \<and> set xs = S)"
| "matches (Pairs m) r' \<longleftrightarrow>
     (\<exists>ps. r' = Inr (RespArray (concat (map (\<lambda>(f, v). [RespBulkString f, RespBulkString v]) ps)))
           \<and> distinct (map fst ps) \<and> map_of ps = m)"
| "matches Anything r' \<longleftrightarrow> True"

type_synonym cmd_spec = "command \<Rightarrow> clock \<Rightarrow> astate \<Rightarrow> areply \<times> astate"

section \<open>Fading\<close>

lemma fade_fade: "now \<le> T \<Longrightarrow> fade T (fade now m) = fade T m"
  by (auto simp: fade_def fun_eq_iff split: option.splits)

lemma fade_upd [simp]: "fade T (m(k := None)) = (fade T m)(k := None)"
  by (auto simp: fade_def fun_eq_iff)

lemma fade_upd_Some:
  "fade T (m(k \<mapsto> e)) =
     (fade T m)(k := (case a_deadline e of None \<Rightarrow> Some e | Some t \<Rightarrow> if T < t then Some e else None))"
  by (auto simp: fade_def fun_eq_iff)

lemma fade_restrict [simp]: "fade T (m |` A) = fade T m |` A"
  by (auto simp: fade_def restrict_map_def fun_eq_iff)

lemma abs_entry_simps [simp]:
  "a_value (abs_entry e) = abs_value (entry_value e)" "a_deadline (abs_entry e) = expires_at e"
  "abs_entry \<lparr>entry_value = v, expires_at = t\<rparr> = \<lparr>a_value = abs_value v, a_deadline = t\<rparr>"
  "abs_entry (e\<lparr>expires_at := t\<rparr>) = (abs_entry e)\<lparr>a_deadline := t\<rparr>"
  by (simp_all add: abs_entry_def)

text \<open>Abstracting commutes with the passing of time.\<close>

lemma abs_age: "map_option abs_entry \<circ> age now m = fade now (map_option abs_entry \<circ> m)"
  by (auto simp: age_def fade_def is_expired_def fun_eq_iff split: option.split)

lemma seen_abs_store: "seen now s = fade now (abs_store s)"
  by (simp add: seen_def live_def abs_age abs_store_def)

lemma seen_later: "seen now s = fade now m \<Longrightarrow> now \<le> T \<Longrightarrow> seen T s = fade T m"
  by (metis seen_abs_store fade_fade)

lemma abs_store_empty [simp]: "abs_store kv_empty = Map.empty"
  by (simp add: abs_store_def kv_empty_def fun_eq_iff)

section \<open>Store calls on related states\<close>

lemma seen_at: "seen now s = fade now m \<Longrightarrow> fade now m k = map_option abs_entry (live now s k)"
  by (metis seen_def comp_apply)

lemma age_live [simp]: "age T (live T s) = live T s"
  by (simp add: live_def)

lemma held_get: "seen now s = fade now m \<Longrightarrow> held now m k = map_option abs_value (kv_get now k s)"
  by (simp add: held_def seen_at kv.get_law option.map_comp comp_def)

lemma held_exists: "seen now s = fade now m \<Longrightarrow> kv_exists now k s \<longleftrightarrow> fade now m k \<noteq> None"
  by (simp add: seen_at kv.exists_law)

lemma related_set:
  "seen T s = fade T m \<Longrightarrow> seen T (kv_set now k v ttl s) =
     fade T (m(k \<mapsto> \<lparr>a_value = abs_value v, a_deadline = if ttl > 0 then Some (deadline now ttl) else None\<rparr>))"
  by (auto simp: seen_def kv.set_law age_upd_Some fade_upd_Some is_expired_def fun_eq_iff)

lemma related_del: "seen T s = fade T m \<Longrightarrow> seen T (snd (kv_del now k s)) = fade T (m(k := None))"
  by (auto simp: seen_def kv.del_law fun_eq_iff)

lemma related_expire:
  assumes "seen T s = fade T m" and "seen now s = fade now m"
  shows "seen T (snd (kv_expire now now' k ttl s)) =
    (case fade now m k of
       None \<Rightarrow> fade T m
     | Some e \<Rightarrow> fade T (m(k \<mapsto> e\<lparr>a_deadline := Some (deadline now' ttl)\<rparr>)))"
  using assms
  by (auto simp: seen_at [OF assms(2)] seen_def kv.expire_view age_upd_Some fade_upd_Some is_expired_def
      fun_eq_iff split: option.split)

lemma related_persist:
  assumes "seen T s = fade T m" and "seen now s = fade now m"
  shows "seen T (snd (kv_persist now k s)) =
    (case fade now m k of
       None \<Rightarrow> fade T m
     | Some e \<Rightarrow> fade T (m(k \<mapsto> e\<lparr>a_deadline := None\<rparr>)))"
  using assms
  by (auto simp: seen_at [OF assms(2)] seen_def kv.persist_view fade_upd_Some fun_eq_iff split: option.split)

lemma related_restrict:
  "seen T s = fade T m \<Longrightarrow> live T s' = live T s |` A \<Longrightarrow> seen T s' = fade T (m |` A)"
  by (simp add: seen_def) (auto simp: restrict_map_def fun_eq_iff)

lemma related_sweep:
  "kv_ok s \<Longrightarrow> now \<le> T \<Longrightarrow> seen T (sweep now s) = seen T s"
  by (simp add: seen_def kv.sweep_view)

section \<open>The contract of an implementation\<close>

text \<open>
  A handler implements a specification: on a store that looks like the abstract state when the
  command starts, its reply matches the one of the specification, and when the command is over the
  store looks like the abstract state the specification leaves.
\<close>

locale refining_handler = sound_handler +
  fixes sp :: cmd_spec
  assumes reply_matches: "kv_ok s \<Longrightarrow> mono clk \<Longrightarrow> seen (clk 0) s = fade (clk 0) m \<Longrightarrow>
      matches (fst (sp c clk m)) (fst (h c clk s))"
    and state_matches: "kv_ok s \<Longrightarrow> mono clk \<Longrightarrow> seen (clk 0) s = fade (clk 0) m \<Longrightarrow> (\<And>i. clk i \<le> T) \<Longrightarrow>
      seen T (snd (h c clk s)) = fade T (snd (sp c clk m))"

text \<open>
  The form the handlers are proved in: at every reading of the clock the abstract state holds
  what the store calls return, and the store calls update both alike.
\<close>

lemma refining_handlerI:
  fixes h :: store_handler
  assumes "sound_handler h"
    and "\<And>c clk s m. kv_ok s \<Longrightarrow>
      (\<And>i k. held (clk i) m k = map_option abs_value (kv_get (clk i) k s)) \<Longrightarrow>
      (\<And>i k. fade (clk i) m k = map_option abs_entry (live (clk i) s k)) \<Longrightarrow>
      matches (fst (sp c clk m)) (fst (h c clk s))"
    and "\<And>c clk s m T. kv_ok s \<Longrightarrow>
      (\<And>i k. held (clk i) m k = map_option abs_value (kv_get (clk i) k s)) \<Longrightarrow>
      (\<And>i k. fade (clk i) m k = map_option abs_entry (live (clk i) s k)) \<Longrightarrow> seen T s = fade T m \<Longrightarrow>
      (\<And>now k v ttl. seen T (kv_set now k v ttl s) = fade T (m(k \<mapsto>
         \<lparr>a_value = abs_value v, a_deadline = if ttl > 0 then Some (deadline now ttl) else None\<rparr>))) \<Longrightarrow>
      (\<And>now k. seen T (snd (kv_del now k s)) = fade T (m(k := None))) \<Longrightarrow>
      (\<And>i now' k ttl. seen T (snd (kv_expire (clk i) now' k ttl s)) =
         (case fade (clk i) m k of None \<Rightarrow> fade T m
          | Some e \<Rightarrow> fade T (m(k \<mapsto> e\<lparr>a_deadline := Some (deadline now' ttl)\<rparr>)))) \<Longrightarrow>
      (\<And>i k. seen T (snd (kv_persist (clk i) k s)) =
         (case fade (clk i) m k of None \<Rightarrow> fade T m
          | Some e \<Rightarrow> fade T (m(k \<mapsto> e\<lparr>a_deadline := None\<rparr>)))) \<Longrightarrow>
      seen T (snd (h c clk s)) = fade T (snd (sp c clk m))"
  shows "refining_handler h sp"
proof (intro refining_handler.intro refining_handler_axioms.intro assms(1))
  fix s m c T and clk :: clock
  assume ok: "kv_ok s" and clk: "mono clk" and start: "seen (clk 0) s = fade (clk 0) m"
  have at: "seen (clk i) s = fade (clk i) m" for i
    by (rule seen_later [OF start]) (simp add: monoD [OF clk])
  show "matches (fst (sp c clk m)) (fst (h c clk s))"
    by (rule assms(2) [OF ok held_get [OF at] seen_at [OF at]])
  assume "\<And>i. clk i \<le> T"
  then have T: "seen T s = fade T m"
    by (rule seen_later [OF start])
  show "seen T (snd (h c clk s)) = fade T (snd (sp c clk m))"
    by (rule assms(3) [OF ok held_get [OF at] seen_at [OF at] T related_set [OF T] related_del [OF T]
          related_expire [OF T at] related_persist [OF T at]])
qed

text \<open>A handler that does not change the store implements a specification that does not either.\<close>

lemma refining_readerI:
  fixes h :: store_handler
  assumes "reading_handler h"
    and "\<And>c clk s m. kv_ok s \<Longrightarrow>
      (\<And>i k. held (clk i) m k = map_option abs_value (kv_get (clk i) k s)) \<Longrightarrow>
      (\<And>i k. fade (clk i) m k = map_option abs_entry (live (clk i) s k)) \<Longrightarrow>
      matches (fst (sp c clk m)) (fst (h c clk s))"
    and "\<And>c clk m. snd (sp c clk m) = m"
  shows "refining_handler h sp"
  by (rule refining_handlerI [OF reading_handler.axioms(1) [OF assms(1)] assms(2)])
    (simp_all add: assms(3) reading_handler.pure [OF assms(1)])

lemma case_as_string:
  "(case as_string v of Inl e \<Rightarrow> f e | Inr t \<Rightarrow> g t) =
     (case v of StringValue t \<Rightarrow> g t | _ \<Rightarrow> f (StdExn BadVariantAccess))"
  by (cases v) simp_all

end
