(* ===== verification/Command_Spec.thy ===== *)
theory Command_Spec
  imports Abstract_Store Dispatcher
begin

text \<open>
  The data commands of \<^verbatim>\<open>commands/handlers/\<close> as a client knows them, over the abstract state of
  \<open>Abstract_Store\<close>, and the proof that the handlers implement them. The \<open>i\<close>-th reading of the clock
  by a command is \<open>clk i\<close>: most commands look at a key at \<open>clk 0\<close> and count a new deadline from
  \<open>clk 1\<close>.
\<close>

section \<open>Specifications\<close>

definition answer :: "resp_value \<Rightarrow> areply" where
  "answer v = Exactly (Inr v)"

definition arity :: "command \<Rightarrow> areply" where
  "arity c = answer (wrong_args (cmd_name c))"

definition not_integer :: areply where
  "not_integer = answer (RespError ''ERR value is not an integer or out of range'')"

text \<open>A value without a deadline; an empty list, set or hash is no value at all.\<close>

definition put :: "string \<Rightarrow> avalue \<Rightarrow> astate \<Rightarrow> astate" where
  "put k v m = (if v = AList [] \<or> v = ASet {} \<or> v = AHash Map.empty then m(k := None)
                else m(k \<mapsto> \<lparr>a_value = v, a_deadline = None\<rparr>))"

definition spec_ping :: cmd_spec where
  "spec_ping c clk m =
     (case cmd_args c of
        [] \<Rightarrow> answer (RespSimpleString ''PONG'')
      | [a] \<Rightarrow> answer (RespBulkString a)
      | _ \<Rightarrow> arity c, m)"

definition spec_health :: cmd_spec where
  "spec_health c clk m = (if cmd_args c = [] then answer (RespSimpleString ''OK'') else arity c, m)"

text \<open>
  \<^verbatim>\<open>DEL\<close> counts a key at its first occurrence and \<^verbatim>\<open>EXISTS\<close> at every occurrence; the key at
  position \<open>i\<close> is looked up at \<open>clk i\<close>.
\<close>

definition spec_del :: cmd_spec where
  "spec_del c clk m =
     (let ks = cmd_args c in
      if ks = [] then (arity c, m)
      else (answer (RespInteger (int (card {i. i < length ks \<and> ks ! i \<notin> set (take i ks)
                                                \<and> fade (clk i) m (ks ! i) \<noteq> None}))),
            m |` (- set ks)))"

definition spec_exists :: cmd_spec where
  "spec_exists c clk m =
     (let ks = cmd_args c in
      if ks = [] then (arity c, m)
      else (answer (RespInteger (int (card {i. i < length ks \<and> fade (clk i) m (ks ! i) \<noteq> None}))), m))"

definition spec_expire :: cmd_spec where
  "spec_expire c clk m =
     (case cmd_args c of
        [k, secs] \<Rightarrow>
          (case parse_i64 secs of
             None \<Rightarrow> (not_integer, m)
           | Some n \<Rightarrow>
               if n < 0 then (not_integer, m)
               else (case fade (clk 0) m k of
                       None \<Rightarrow> (answer (RespInteger 0), m)
                     | Some e \<Rightarrow> (answer (RespInteger 1),
                                   m(k \<mapsto> e\<lparr>a_deadline := Some (wrap64 (clk 1 + n * 1000000000))\<rparr>))))
      | _ \<Rightarrow> (arity c, m))"

text \<open>The remaining time is cut to whole milliseconds and rounded up to seconds.\<close>

definition spec_ttl :: cmd_spec where
  "spec_ttl c clk m =
     (case cmd_args c of
        [k] \<Rightarrow> answer (RespInteger
          (case fade (clk 0) m k of
             None \<Rightarrow> - 2
           | Some e \<Rightarrow> (case a_deadline e of
                         None \<Rightarrow> - 1
                       | Some t \<Rightarrow> (max 0 (wrap64 (t - clk 1)) div 1000000 + 999) div 1000)))
      | _ \<Rightarrow> arity c, m)"

definition spec_persist :: cmd_spec where
  "spec_persist c clk m =
     (case cmd_args c of
        [k] \<Rightarrow> (case fade (clk 0) m k of
                  None \<Rightarrow> (answer (RespInteger 0), m)
                | Some e \<Rightarrow> (answer (RespInteger 1), m(k \<mapsto> e\<lparr>a_deadline := None\<rparr>)))
      | _ \<Rightarrow> (arity c, m))"

text \<open>
  The options of \<^verbatim>\<open>SET\<close>, word by word and in any order and number: the first one that is wrong decides
  the reply; otherwise \<^verbatim>\<open>NX\<close> and \<^verbatim>\<open>XX\<close> count if they occur at all, and of several times to live the last
  one counts.
\<close>

datatype set_opt = IfAbsent | IfPresent | Lives int | Wrong string

definition lives :: "string \<Rightarrow> string \<Rightarrow> set_opt" where
  "lives unit n =
     (case parse_i64 n of
        None \<Rightarrow> Wrong (''ERR invalid expire time in '' @ [CHR 0x27] @ ''set'' @ [CHR 0x27] @ '' command'')
      | Some i \<Rightarrow>
          if i \<le> 0 then Wrong (''ERR invalid expire time in '' @ [CHR 0x27] @ ''set'' @ [CHR 0x27] @ '' command'')
          else Lives (if unit = ''EX'' then wrap64 (i * 1000) else i))"

fun set_opts :: "string list \<Rightarrow> set_opt list" where
  "set_opts [] = []"
| "set_opts (w # ws) =
     (if upper w = ''NX'' then IfAbsent # set_opts ws
      else if upper w = ''XX'' then IfPresent # set_opts ws
      else if upper w \<in> {''EX'', ''PX''} \<and> ws \<noteq> [] then lives (upper w) (hd ws) # set_opts (tl ws)
      else [Wrong ''ERR syntax error''])"

definition spec_set :: cmd_spec where
  "spec_set c clk m =
     (case cmd_args c of
        k # v # ws \<Rightarrow>
          let opts = set_opts ws;
              errors = [e. Wrong e \<leftarrow> opts];
              ttl = last (0 # [t. Lives t \<leftarrow> opts]);
              there = fade (clk 0) m k \<noteq> None
          in if errors \<noteq> [] then (answer (RespError (hd errors)), m)
             else if IfAbsent \<in> set opts \<and> IfPresent \<in> set opts
             then (answer (RespError ''ERR XX and NX options at the same time are not compatible''), m)
             else if (IfAbsent \<in> set opts \<and> there) \<or> (IfPresent \<in> set opts \<and> \<not> there)
             then (answer RespNull, m)
             else (answer (RespSimpleString ''OK''),
                   m(k \<mapsto> \<lparr>a_value = AString v,
                           a_deadline = if ttl > 0 then Some (wrap64 (clk 1 + ttl * 1000000)) else None\<rparr>))
      | _ \<Rightarrow> (arity c, m))"

text \<open>A string command on another kind of value ends in an exception.\<close>

definition bad_variant :: areply where
  "bad_variant = Exactly (Inl (StdExn BadVariantAccess))"

definition spec_get :: cmd_spec where
  "spec_get c clk m =
     (case cmd_args c of
        [k] \<Rightarrow> (case held (clk 0) m k of
                  None \<Rightarrow> answer RespNull
                | Some (AString t) \<Rightarrow> answer (RespBulkString t)
                | Some _ \<Rightarrow> bad_variant)
      | _ \<Rightarrow> arity c, m)"

text \<open>The counters add mathematical integers; a sum that is not a 64-bit integer is refused.\<close>

definition spec_add :: "string \<Rightarrow> int \<Rightarrow> clock \<Rightarrow> astate \<Rightarrow> areply \<times> astate" where
  "spec_add k d clk m =
     (let plus = \<lambda>n. if fits64 (n + d)
                     then (answer (RespInteger (n + d)), put k (AString (to_string (n + d))) m)
                     else (answer (RespError ''ERR increment or decrement would overflow''), m)
      in case held (clk 0) m k of
           None \<Rightarrow> plus 0
         | Some (AString t) \<Rightarrow> (case parse_i64 t of None \<Rightarrow> (not_integer, m) | Some n \<Rightarrow> plus n)
         | Some _ \<Rightarrow> (bad_variant, m))"

definition spec_incr :: cmd_spec where
  "spec_incr c clk m = (case cmd_args c of [k] \<Rightarrow> spec_add k 1 clk m | _ \<Rightarrow> (arity c, m))"

definition spec_decr :: cmd_spec where
  "spec_decr c clk m = (case cmd_args c of [k] \<Rightarrow> spec_add k (- 1) clk m | _ \<Rightarrow> (arity c, m))"

definition spec_incrby :: cmd_spec where
  "spec_incrby c clk m =
     (case cmd_args c of
        [k, a] \<Rightarrow> (case parse_i64 a of None \<Rightarrow> (not_integer, m) | Some d \<Rightarrow> spec_add k d clk m)
      | _ \<Rightarrow> (arity c, m))"

definition spec_decrby :: cmd_spec where
  "spec_decrby c clk m =
     (case cmd_args c of
        [k, a] \<Rightarrow>
          (case parse_i64 a of
             None \<Rightarrow> (not_integer, m)
           | Some d \<Rightarrow>
               if d = int64_min
               then (answer (RespError ''ERR increment or decrement would overflow''), m)
               else spec_add k (- d) clk m)
      | _ \<Rightarrow> (arity c, m))"

text \<open>
  The commands on lists, sets and hashes: \<open>on_list\<close>, \<open>on_set\<close> and \<open>on_hash\<close> hand the content of the
  key to the rest of the specification, the empty one if the key is missing, and answer
  \<^verbatim>\<open>WRONGTYPE\<close> for another kind of value.
\<close>

definition on_list :: "string \<Rightarrow> clock \<Rightarrow> astate \<Rightarrow> (string list \<Rightarrow> areply \<times> astate) \<Rightarrow> areply \<times> astate" where
  "on_list k clk m f =
     (case held (clk 0) m k of None \<Rightarrow> f [] | Some (AList l) \<Rightarrow> f l | Some _ \<Rightarrow> (answer kWrongType, m))"

definition on_set :: "string \<Rightarrow> clock \<Rightarrow> astate \<Rightarrow> (string set \<Rightarrow> areply \<times> astate) \<Rightarrow> areply \<times> astate" where
  "on_set k clk m f =
     (case held (clk 0) m k of None \<Rightarrow> f {} | Some (ASet S) \<Rightarrow> f S | Some _ \<Rightarrow> (answer kWrongType, m))"

definition on_hash :: "string \<Rightarrow> clock \<Rightarrow> astate \<Rightarrow> ((string \<rightharpoonup> string) \<Rightarrow> areply \<times> astate) \<Rightarrow> areply \<times> astate" where
  "on_hash k clk m f =
     (case held (clk 0) m k of
        None \<Rightarrow> f Map.empty | Some (AHash h) \<Rightarrow> f h | Some _ \<Rightarrow> (answer kWrongType, m))"

definition size_answer :: "nat \<Rightarrow> areply" where
  "size_answer n = answer (RespInteger (int n))"

definition bulk_or_null :: "string option \<Rightarrow> areply" where
  "bulk_or_null v = answer (case v of None \<Rightarrow> RespNull | Some t \<Rightarrow> RespBulkString t)"

definition spec_lpush :: cmd_spec where
  "spec_lpush c clk m =
     (case cmd_args c of
        k # a # as \<Rightarrow> on_list k clk m (\<lambda>l.
          (size_answer (length l + length (a # as)), put k (AList (rev (a # as) @ l)) m))
      | _ \<Rightarrow> (arity c, m))"

definition spec_rpush :: cmd_spec where
  "spec_rpush c clk m =
     (case cmd_args c of
        k # a # as \<Rightarrow> on_list k clk m (\<lambda>l.
          (size_answer (length l + length (a # as)), put k (AList (l @ a # as)) m))
      | _ \<Rightarrow> (arity c, m))"

definition spec_lpop :: cmd_spec where
  "spec_lpop c clk m =
     (case cmd_args c of
        [k] \<Rightarrow> on_list k clk m (\<lambda>l.
          if l = [] then (answer RespNull, m) else (answer (RespBulkString (hd l)), put k (AList (tl l)) m))
      | _ \<Rightarrow> (arity c, m))"

definition spec_rpop :: cmd_spec where
  "spec_rpop c clk m =
     (case cmd_args c of
        [k] \<Rightarrow> on_list k clk m (\<lambda>l.
          if l = [] then (answer RespNull, m)
          else (answer (RespBulkString (last l)), put k (AList (butlast l)) m))
      | _ \<Rightarrow> (arity c, m))"

definition spec_llen :: cmd_spec where
  "spec_llen c clk m =
     (case cmd_args c of [k] \<Rightarrow> on_list k clk m (\<lambda>l. (size_answer (length l), m)) | _ \<Rightarrow> (arity c, m))"

text \<open>
  The indices are read only when the key is there: a missing key gives the empty reply even
  for arguments that are no numbers.
\<close>

definition spec_lrange :: cmd_spec where
  "spec_lrange c clk m =
     (case cmd_args c of
        [k, a, b] \<Rightarrow>
          (if held (clk 0) m k = None then (answer (RespArray []), m)
           else on_list k clk m (\<lambda>l.
             (case (parse_i64 a, parse_i64 b) of
                (Some i, Some j) \<Rightarrow>
                  answer (RespArray (map RespBulkString
                    (nths l {p. list_index (int (length l)) i \<le> int p \<and> int p \<le> list_index (int (length l)) j})))
              | _ \<Rightarrow> not_integer, m)))
      | _ \<Rightarrow> (arity c, m))"

definition spec_lindex :: cmd_spec where
  "spec_lindex c clk m =
     (case cmd_args c of
        [k, a] \<Rightarrow>
          (if held (clk 0) m k = None then (answer RespNull, m)
           else on_list k clk m (\<lambda>l.
             (case parse_i64 a of
                None \<Rightarrow> not_integer
              | Some i \<Rightarrow>
                  let p = list_index (int (length l)) i
                  in bulk_or_null (if 0 \<le> p \<and> p < int (length l) then Some (l ! nat p) else None), m)))
      | _ \<Rightarrow> (arity c, m))"

definition spec_sadd :: cmd_spec where
  "spec_sadd c clk m =
     (case cmd_args c of
        k # a # as \<Rightarrow> on_set k clk m (\<lambda>S.
          (size_answer (card (set (a # as) - S)), put k (ASet (S \<union> set (a # as))) m))
      | _ \<Rightarrow> (arity c, m))"

text \<open>Removing from a missing key leaves the state alone; removing the last member removes the key.\<close>

definition spec_srem :: cmd_spec where
  "spec_srem c clk m =
     (case cmd_args c of
        k # a # as \<Rightarrow>
          (if held (clk 0) m k = None then (size_answer 0, m)
           else on_set k clk m (\<lambda>S.
             (size_answer (card (S \<inter> set (a # as))), put k (ASet (S - set (a # as))) m)))
      | _ \<Rightarrow> (arity c, m))"

definition spec_smembers :: cmd_spec where
  "spec_smembers c clk m =
     (case cmd_args c of [k] \<Rightarrow> on_set k clk m (\<lambda>S. (Members S, m)) | _ \<Rightarrow> (arity c, m))"

definition spec_sismember :: cmd_spec where
  "spec_sismember c clk m =
     (case cmd_args c of
        [k, a] \<Rightarrow> on_set k clk m (\<lambda>S. (size_answer (if a \<in> S then 1 else 0), m))
      | _ \<Rightarrow> (arity c, m))"

definition spec_scard :: cmd_spec where
  "spec_scard c clk m =
     (case cmd_args c of [k] \<Rightarrow> on_set k clk m (\<lambda>S. (size_answer (card S), m)) | _ \<Rightarrow> (arity c, m))"

definition spec_hset :: cmd_spec where
  "spec_hset c clk m =
     (case cmd_args c of
        k # f # v # as \<Rightarrow>
          (if odd (length as) then (arity c, m)
           else on_hash k clk m (\<lambda>h.
             let ps = arg_pairs (f # v # as)
             in (size_answer (card (fst ` set ps - dom h)), put k (AHash (h ++ map_of (rev ps))) m)))
      | _ \<Rightarrow> (arity c, m))"

definition spec_hget :: cmd_spec where
  "spec_hget c clk m =
     (case cmd_args c of [k, f] \<Rightarrow> on_hash k clk m (\<lambda>h. (bulk_or_null (h f), m)) | _ \<Rightarrow> (arity c, m))"

definition spec_hdel :: cmd_spec where
  "spec_hdel c clk m =
     (case cmd_args c of
        k # a # as \<Rightarrow>
          (if held (clk 0) m k = None then (size_answer 0, m)
           else on_hash k clk m (\<lambda>h.
             (size_answer (card (dom h \<inter> set (a # as))), put k (AHash (h |` (- set (a # as)))) m)))
      | _ \<Rightarrow> (arity c, m))"

definition spec_hgetall :: cmd_spec where
  "spec_hgetall c clk m =
     (case cmd_args c of [k] \<Rightarrow> on_hash k clk m (\<lambda>h. (Pairs h, m)) | _ \<Rightarrow> (arity c, m))"

definition spec_hexists :: cmd_spec where
  "spec_hexists c clk m =
     (case cmd_args c of
        [k, f] \<Rightarrow> on_hash k clk m (\<lambda>h. (size_answer (if f \<in> dom h then 1 else 0), m))
      | _ \<Rightarrow> (arity c, m))"

definition spec_hlen :: cmd_spec where
  "spec_hlen c clk m =
     (case cmd_args c of [k] \<Rightarrow> on_hash k clk m (\<lambda>h. (size_answer (card (dom h)), m)) | _ \<Rightarrow> (arity c, m))"

definition data_specs :: "(string \<times> cmd_spec) list" where
  "data_specs =
     [(''PING'', spec_ping), (''HEALTH'', spec_health), (''DEL'', spec_del), (''EXISTS'', spec_exists),
      (''EXPIRE'', spec_expire), (''TTL'', spec_ttl), (''PERSIST'', spec_persist),
      (''SET'', spec_set), (''GET'', spec_get), (''INCR'', spec_incr), (''DECR'', spec_decr),
      (''INCRBY'', spec_incrby), (''DECRBY'', spec_decrby),
      (''LPUSH'', spec_lpush), (''RPUSH'', spec_rpush), (''LPOP'', spec_lpop), (''RPOP'', spec_rpop),
      (''LLEN'', spec_llen), (''LRANGE'', spec_lrange), (''LINDEX'', spec_lindex),
      (''SADD'', spec_sadd), (''SREM'', spec_srem), (''SMEMBERS'', spec_smembers),
      (''SISMEMBER'', spec_sismember), (''SCARD'', spec_scard),
      (''HSET'', spec_hset), (''HGET'', spec_hget), (''HDEL'', spec_hdel), (''HGETALL'', spec_hgetall),
      (''HEXISTS'', spec_hexists), (''HLEN'', spec_hlen)]"

text \<open>
  The other commands, known or not, say nothing about the data and leave it alone.
\<close>

definition spec_command :: cmd_spec where
  "spec_command c clk m =
     (case map_of data_specs (cmd_name c) of None \<Rightarrow> (Anything, m) | Some sp \<Rightarrow> sp c clk m)"

section \<open>The handlers implement the specifications\<close>

lemmas answer_defs = answer_def arity_def not_integer_def bad_variant_def size_answer_def bulk_or_null_def

interpretation ping: refining_handler cmd_ping spec_ping
  by (rule refining_readerI [OF ping.reading_handler_axioms])
    (auto simp: cmd_ping_def spec_ping_def answer_defs split: list.split)

interpretation health: refining_handler cmd_health spec_health
  by (rule refining_readerI [OF health.reading_handler_axioms])
    (auto simp: cmd_health_def spec_health_def answer_defs)

interpretation get: refining_handler cmd_get spec_get
  by (rule refining_readerI [OF get.reading_handler_axioms])
    (auto simp: cmd_get_def spec_get_def answer_defs case_as_string split: list.split option.split Value.split)

text \<open>The option loop of the handler finds what the specification describes.\<close>

lemma parse_set_flags_opts:
  "parse_set_flags ws ttl nx xx =
     (let opts = set_opts ws; errors = [e. Wrong e \<leftarrow> opts] in
      if errors \<noteq> [] then Inl (RespError (hd errors))
      else Inr (last (ttl # [t. Lives t \<leftarrow> opts]), nx \<or> IfAbsent \<in> set opts, xx \<or> IfPresent \<in> set opts))"
proof (induction ws arbitrary: ttl nx xx rule: set_opts.induct)
  case (2 w ws)
  note [simp del] = parse_set_flags.simps(2) set_opts.simps(2)
  note once = parse_set_flags.simps(2) [of w] set_opts.simps(2) [of w]
  consider (nx) "upper w = ''NX''" | (xx) "upper w = ''XX''"
    | (timed) "upper w = ''EX'' \<or> upper w = ''PX''" | (bad) "upper w \<notin> {''NX'', ''XX'', ''EX'', ''PX''}"
    by auto
  then show ?case
  proof cases
    case nx
    with "2.IH"(1) [OF nx, of ttl True xx] show ?thesis by (simp add: once Let_def)
  next
    case xx
    then have "upper w \<noteq> ''NX''" by simp
    with xx "2.IH"(2) [OF this xx, of ttl nx True] show ?thesis by (simp add: once Let_def)
  next
    case bad
    then show ?thesis by (simp add: once Let_def err_def)
  next
    case timed
    show ?thesis
    proof (cases ws)
      case Nil
      with timed show ?thesis by (elim disjE) (simp_all add: once Let_def err_def)
    next
      case (Cons n rest)
      with timed "2.IH"(3) have "parse_set_flags rest t nx xx =
          (let opts = set_opts rest; errors = [e. Wrong e \<leftarrow> opts] in
           if errors \<noteq> [] then Inl (RespError (hd errors))
           else Inr (last (t # [t. Lives t \<leftarrow> opts]), nx \<or> IfAbsent \<in> set opts, xx \<or> IfPresent \<in> set opts))" for t
        by auto
      with timed Cons show ?thesis
        by (elim disjE) (simp_all add: once Let_def err_def lives_def seconds_def split: option.split)
    qed
  qed
qed (simp add: Let_def)

lemma deadline_spec: "deadline now ttl = wrap64 (now + ttl * 1000000)"
  "deadline now (seconds n) = wrap64 (now + n * 1000000000)"
  by (simp_all add: deadline_def seconds_def wrap64_def mod_simps algebra_simps)

interpretation set: refining_handler cmd_set spec_set
  by (rule refining_handlerI [OF set.sound_handler_axioms])
    (auto simp: cmd_set_def spec_set_def parse_set_flags_opts answer_defs err_def Let_def kv.exists_law deadline_spec
      simp del: parse_set_flags.simps split: list.split sum.split prod.split)

interpretation expire: refining_handler cmd_expire spec_expire
  by (rule refining_handlerI [OF expire.sound_handler_axioms])
    (auto simp: cmd_expire_def spec_expire_def deadline_spec(2) answer_defs err_def split_def kv.expire_law numeral_2_eq_2 length_Suc_conv
      split: list.split option.split)

interpretation persist: refining_handler cmd_persist spec_persist
  by (rule refining_handlerI [OF persist.sound_handler_axioms])
    (auto simp: cmd_persist_def spec_persist_def answer_defs split_def kv.persist_law
      split: list.split option.split)

interpretation lpush: refining_handler cmd_lpush spec_lpush
  by (rule refining_handlerI [OF lpush.sound_handler_axioms])
    (auto simp: push_defs spec_lpush_def on_list_def answer_defs put_def
      split: list.split option.split Value.split)

interpretation rpush: refining_handler cmd_rpush spec_rpush
  by (rule refining_handlerI [OF rpush.sound_handler_axioms])
    (auto simp: push_defs spec_rpush_def on_list_def answer_defs put_def
      split: list.split option.split Value.split)

interpretation lpop: refining_handler cmd_lpop spec_lpop
  by (rule refining_handlerI [OF lpop.sound_handler_axioms])
    (auto simp: pop_defs spec_lpop_def on_list_def answer_defs put_def
      split: list.split option.split Value.split)

interpretation rpop: refining_handler cmd_rpop spec_rpop
  by (rule refining_handlerI [OF rpop.sound_handler_axioms])
    (auto simp: pop_defs spec_rpop_def on_list_def answer_defs put_def
      split: list.split option.split Value.split)

interpretation llen: refining_handler cmd_llen spec_llen
  by (rule refining_readerI [OF llen.reading_handler_axioms])
    (auto simp: cmd_llen_def spec_llen_def on_list_def answer_defs
      split: list.split option.split Value.split avalue.split)

text \<open>The arithmetic of \<^verbatim>\<open>TTL\<close> does not wrap and rounds as the specification says.\<close>

lemma ttl_rounds:
  "wrap64 (max 0 (wrap64 d sdiv 1000000) + 999) sdiv 1000 = (max 0 (wrap64 d) div 1000000 + 999) div 1000"
proof -
  have sdiv_div: "0 \<le> a \<Longrightarrow> 0 < b \<Longrightarrow> a sdiv b = a div b" for a b :: int
    by (simp add: signed_divide_int_def sgn_if)
  have "max 0 (wrap64 d sdiv 1000000) = max 0 (wrap64 d) div 1000000"
    by (auto simp: signed_divide_int_def max_def sgn_if)
  moreover have "fits64 (max 0 (wrap64 d) div 1000000 + 999)"
    using fits64_wrap64 [of d] by (auto simp: int64_defs max_def)
  ultimately show ?thesis
    by (simp add: sdiv_div pos_imp_zdiv_nonneg_iff)
qed

interpretation exists: refining_handler cmd_exists spec_exists
  by (rule refining_readerI [OF exists.reading_handler_axioms])
    (auto simp: cmd_exists_def spec_exists_def answer_defs exists_loop_count Let_def)

interpretation del: refining_handler cmd_del spec_del
proof (rule refining_handlerI [OF del.sound_handler_axioms])
  fix c clk s m T
  assume T: "seen T s = fade T m"
  show "seen T (snd (cmd_del c clk s)) = fade T (snd (spec_del c clk m))"
    by (simp add: cmd_del_def spec_del_def split_def Let_def T
        related_restrict [OF T del_loop_view] del: fade_restrict)
qed (auto simp: cmd_del_def spec_del_def answer_defs split_def Let_def del_loop_count)

interpretation ttl: refining_handler cmd_ttl spec_ttl
  by (rule refining_readerI [OF ttl.reading_handler_axioms])
    (auto simp: cmd_ttl_def spec_ttl_def answer_defs kv.ttl_law ttl_rounds Let_def split: list.split option.split)

lemma apply_delta_spec:
  assumes "\<And>i k. held (clk i) m k = map_option abs_value (kv_get (clk i) k s)" and "fits64 d"
  shows "matches (fst (spec_add k d clk m)) (fst (apply_delta k d clk s))"
    and "(\<And>now k v ttl. seen T (kv_set now k v ttl s) = fade T (m(k \<mapsto>
         \<lparr>a_value = abs_value v, a_deadline = if ttl > 0 then Some (deadline now ttl) else None\<rparr>))) \<Longrightarrow>
      seen T s = fade T m \<Longrightarrow>
      seen T (snd (apply_delta k d clk s)) = fade T (snd (spec_add k d clk m))"
  using assms(1) apply_delta_num_exact [OF _ assms(2)] parse_i64_fits
  by (auto simp: apply_delta_def spec_add_def answer_defs Let_def put_def case_as_string
    split: option.split Value.split)

interpretation incr: refining_handler cmd_incr spec_incr
  by (rule refining_handlerI [OF incr.sound_handler_axioms])
    (auto simp: cmd_incr_def spec_incr_def answer_defs apply_delta_spec split: list.split)

interpretation decr: refining_handler cmd_decr spec_decr
  by (rule refining_handlerI [OF decr.sound_handler_axioms])
    (auto simp: cmd_decr_def spec_decr_def answer_defs apply_delta_spec split: list.split)

interpretation incrby: refining_handler cmd_incrby spec_incrby
  by (rule refining_handlerI [OF incrby.sound_handler_axioms])
    (auto simp: cmd_incrby_def spec_incrby_def answer_defs err_def apply_delta_spec parse_i64_fits
      split: list.split option.split)

lemma fits64_uminus: "fits64 d \<Longrightarrow> d \<noteq> int64_min \<Longrightarrow> fits64 (- d)"
  by (simp add: int64_defs)

interpretation decrby: refining_handler cmd_decrby spec_decrby
  by (rule refining_handlerI [OF decrby.sound_handler_axioms])
    (auto simp: cmd_decrby_def spec_decrby_def answer_defs err_def apply_delta_spec fits64_uminus parse_i64_fits
      split: list.split option.split)

interpretation lrange: refining_handler cmd_lrange spec_lrange
  by (rule refining_readerI [OF lrange.reading_handler_axioms])
    (auto simp: cmd_lrange_def spec_lrange_def on_list_def answer_defs lrange_reference
      split: list.split option.split Value.split avalue.split)

interpretation lindex: refining_handler cmd_lindex spec_lindex
  by (rule refining_readerI [OF lindex.reading_handler_axioms])
    (auto simp: cmd_lindex_def spec_lindex_def on_list_def answer_defs list_index_def Let_def
      split: list.split option.split Value.split avalue.split)

interpretation sadd: refining_handler cmd_sadd spec_sadd
  by (rule refining_handlerI [OF sadd.sound_handler_axioms])
    (auto simp: cmd_sadd_def spec_sadd_def get_or_create_set_def on_set_def answer_defs put_def split_def
       sadd_loop_spec us_ok_def [of "[]"] kv_get_set_ok simp del: sadd_loop.simps
      split: list.split option.split Value.split)

interpretation smembers: refining_handler cmd_smembers spec_smembers
  by (rule refining_readerI [OF smembers.reading_handler_axioms])
    (auto simp: cmd_smembers_def spec_smembers_def on_set_def answer_defs kv_get_set_ok [unfolded us_ok_def]
      split: list.split option.split Value.split avalue.split)

interpretation sismember: refining_handler cmd_sismember spec_sismember
  by (rule refining_readerI [OF sismember.reading_handler_axioms])
    (auto simp: cmd_sismember_def spec_sismember_def on_set_def answer_defs us_count_def
      split: list.split option.split Value.split avalue.split)

interpretation scard: refining_handler cmd_scard spec_scard
  by (rule refining_readerI [OF scard.reading_handler_axioms])
    (auto simp: cmd_scard_def spec_scard_def on_set_def answer_defs us.size_card kv_get_set_ok
      split: list.split option.split Value.split avalue.split)

interpretation srem: refining_handler cmd_srem spec_srem
  by (rule refining_handlerI [OF srem.sound_handler_axioms])
    (auto simp: cmd_srem_def spec_srem_def on_set_def answer_defs put_def split_def
       srem_loop_spec(2) srem_loop_count kv_get_set_ok simp del: srem_loop.simps
      split: list.split option.split Value.split)

interpretation hget: refining_handler cmd_hget spec_hget
  by (rule refining_readerI [OF hget.reading_handler_axioms])
    (auto simp: cmd_hget_def spec_hget_def on_hash_def answer_defs
      split: list.split option.split Value.split avalue.split)

interpretation hgetall: refining_handler cmd_hgetall spec_hgetall
  by (rule refining_readerI [OF hgetall.reading_handler_axioms])
    (auto simp: cmd_hgetall_def spec_hgetall_def on_hash_def answer_defs kv_get_hash_ok [unfolded um_ok_def]
      split: list.split option.split Value.split avalue.split)

interpretation hexists: refining_handler cmd_hexists spec_hexists
  by (rule refining_readerI [OF hexists.reading_handler_axioms])
    (auto simp: cmd_hexists_def spec_hexists_def on_hash_def answer_defs
      split: list.split option.split Value.split avalue.split)

interpretation hlen: refining_handler cmd_hlen spec_hlen
  by (rule refining_readerI [OF hlen.reading_handler_axioms])
    (auto simp: cmd_hlen_def spec_hlen_def on_hash_def answer_defs um.size_card kv_get_hash_ok
      split: list.split option.split Value.split avalue.split)

interpretation hset: refining_handler cmd_hset spec_hset
  by (rule refining_handlerI [OF hset.sound_handler_axioms])
    (auto simp: cmd_hset_def spec_hset_def get_or_create_hash_def on_hash_def answer_defs put_def split_def Let_def
       hset_loop_lookup hset_loop_count um_ok_def [of "[]"] kv_get_hash_ok simp del: hset_loop.simps
      split: list.split option.split Value.split)

lemma restrict_empty: "m |` (- A) = (\<lambda>x. None) \<longleftrightarrow> dom m \<subseteq> A"
  by (auto simp: restrict_map_def fun_eq_iff)

interpretation hdel: refining_handler cmd_hdel spec_hdel
  by (rule refining_handlerI [OF hdel.sound_handler_axioms])
    (auto simp: cmd_hdel_def spec_hdel_def on_hash_def answer_defs put_def split_def
       hdel_loop_lookup hdel_loop_count restrict_empty kv_get_hash_ok simp del: hdel_loop.simps
      split: list.split option.split Value.split)

lemmas refining_entries =
  ping.refining_handler_axioms health.refining_handler_axioms del.refining_handler_axioms
  exists.refining_handler_axioms expire.refining_handler_axioms ttl.refining_handler_axioms
  persist.refining_handler_axioms set.refining_handler_axioms get.refining_handler_axioms
  incr.refining_handler_axioms decr.refining_handler_axioms incrby.refining_handler_axioms
  decrby.refining_handler_axioms lpush.refining_handler_axioms rpush.refining_handler_axioms
  lpop.refining_handler_axioms rpop.refining_handler_axioms llen.refining_handler_axioms
  lrange.refining_handler_axioms lindex.refining_handler_axioms sadd.refining_handler_axioms
  srem.refining_handler_axioms smembers.refining_handler_axioms sismember.refining_handler_axioms
  scard.refining_handler_axioms hset.refining_handler_axioms hget.refining_handler_axioms
  hdel.refining_handler_axioms hgetall.refining_handler_axioms hexists.refining_handler_axioms
  hlen.refining_handler_axioms

lemma data_handlers:
  "list_all (\<lambda>(n, sp). \<exists>h. um_find (make_default double_div has_broker) n = Some (on_store h)
     \<and> refining_handler h sp) data_specs"
  unfolding data_specs_def make_default_table
  by simp (intro conjI; rule exI, rule conjI, rule refl, rule refining_entries)

lemma other_handlers:
  "list_all (\<lambda>(n, f). map_of data_specs n \<noteq> None \<or> (\<forall>c clk x. ctx_store (snd (f c clk x)) = ctx_store x))
     (make_default double_div has_broker)"
  unfolding data_specs_def make_default_table
  by (simp add: with_stats_def on_store_def split_def info_pure metrics_pure ready.pure cmd_publish_def publish_def)

lemma other_commands:
  assumes "map_of data_specs (cmd_name c) = None"
  shows "ctx_store (snd (dispatch (make_default double_div has_broker) c clk x)) = ctx_store x"
proof (cases rule: dispatch_cases [of "make_default double_div has_broker" c clk x])
  case (known f)
  with other_handlers [of double_div has_broker] assms show ?thesis
    by (fastforce simp: list_all_iff dest: map_of_SomeD)
qed simp

section \<open>Histories\<close>

text \<open>
  What happens to the data: commands are executed, each with the clock readings it makes and the time
  it is over, and the expiry thread sweeps. \<open>in_order\<close> says that time does not go back.
\<close>

datatype happening = Execute command clock time_point | Sweeping time_point

fun in_order :: "time_point \<Rightarrow> happening list \<Rightarrow> bool" where
  "in_order t [] \<longleftrightarrow> True"
| "in_order t (Execute c clk t' # hs) \<longleftrightarrow> mono clk \<and> t \<le> clk 0 \<and> (\<forall>i. clk i \<le> t') \<and> in_order t' hs"
| "in_order t (Sweeping t' # hs) \<longleftrightarrow> t \<le> t' \<and> in_order t' hs"

fun server_history :: "dispatcher \<Rightarrow> happening list \<Rightarrow> server_ctx \<Rightarrow> reply list" where
  "server_history d [] x = []"
| "server_history d (Execute c clk t # hs) x =
     (case dispatch d c clk x of (r, x') \<Rightarrow> r # server_history d hs x')"
| "server_history d (Sweeping t # hs) x =
     server_history d hs (x\<lparr>ctx_store := sweep t (ctx_store x)\<rparr>)"

fun spec_history :: "happening list \<Rightarrow> astate \<Rightarrow> areply list" where
  "spec_history [] m = []"
| "spec_history (Execute c clk t # hs) m = (case spec_command c clk m of (r, m') \<Rightarrow> r # spec_history hs m')"
| "spec_history (Sweeping t # hs) m = spec_history hs m"

lemma dispatch_simulates:
  assumes "kv_ok (ctx_store x)" and "mono clk" and "seen (clk 0) (ctx_store x) = fade (clk 0) m"
  shows "matches (fst (spec_command c clk m)) (fst (dispatch (make_default double_div has_broker) c clk x))"
    and "(\<And>i. clk i \<le> T) \<Longrightarrow>
      seen T (ctx_store (snd (dispatch (make_default double_div has_broker) c clk x))) =
      fade T (snd (spec_command c clk m))"
proof -
  let ?d = "make_default double_div has_broker"
  consider (other) "map_of data_specs (cmd_name c) = None"
    | (data) sp h where "map_of data_specs (cmd_name c) = Some sp"
        "um_find ?d (cmd_name c) = Some (on_store h)" "refining_handler h sp"
    using data_handlers [of double_div has_broker] map_of_SomeD
    by (cases "map_of data_specs (cmd_name c)") (fastforce simp: list_all_iff)+
  note cases = this
  show "matches (fst (spec_command c clk m)) (fst (dispatch ?d c clk x))"
    by (rule cases)
      (simp_all add: spec_command_def dispatch_def on_store_def split_def
        refining_handler.reply_matches [OF _ assms])
  assume T: "\<And>i. clk i \<le> T"
  show "seen T (ctx_store (snd (dispatch ?d c clk x))) = fade T (snd (spec_command c clk m))"
  proof (rule cases)
    assume "map_of data_specs (cmd_name c) = None"
    then show ?thesis
      by (simp add: other_commands spec_command_def seen_later [OF assms(3) T])
  next
    fix sp h
    assume "map_of data_specs (cmd_name c) = Some sp"
        "um_find ?d (cmd_name c) = Some (on_store h)" "refining_handler h sp"
    then show ?thesis
      by (simp add: spec_command_def dispatch_def on_store_def split_def
        refining_handler.state_matches [OF _ assms T])
  qed
qed

lemma history_simulates:
  assumes "kv_ok (ctx_store x)" and "seen t (ctx_store x) = fade t m" and "in_order t hs"
  shows "list_all2 matches (spec_history hs m) (server_history (make_default double_div has_broker) hs x)"
  using assms
proof (induction t hs arbitrary: x m rule: in_order.induct)
  case (2 t c clk t' hs)
  let ?d = "make_default double_div has_broker"
  from "2.prems"(3) have clk: "mono clk" "t \<le> clk 0" "\<And>i. clk i \<le> t'" and rest: "in_order t' hs"
    by auto
  note step = dispatch_simulates [OF "2.prems"(1) clk(1) seen_later [OF "2.prems"(2) clk(2)]]
  from "2.IH" [OF dispatch_keeps(1) [OF "2.prems"(1)] step(2) [OF clk(3)] rest] step(1) show ?case
    by (simp add: split_def)
next
  case (3 t t' hs)
  let ?x' = "x\<lparr>ctx_store := sweep t' (ctx_store x)\<rparr>"
  from "3.prems" have "kv_ok (ctx_store ?x')" and "seen t' (ctx_store ?x') = fade t' m" and "in_order t' hs"
    by (simp_all add: kv.inv_sweep related_sweep seen_later [OF "3.prems"(2)])
  from "3.IH" [OF this] show ?case
    by simp
qed simp

text \<open>
  C4: The server implements the specification of its data commands. Start from any well-formed store,
  execute any commands at times that do not go back, with sweeps of the expiry thread anywhere in
  between: the replies are those of the abstract machine on maps, lists and sets in which entries
  are there exactly until their deadline, up to the order in which sets and hashes are listed.
\<close>

theorem history_refines:
  assumes "kv_ok (ctx_store x)" and "in_order t hs"
  shows "list_all2 matches (spec_history hs (abs_store (ctx_store x)))
    (server_history (make_default double_div has_broker) hs x)"
  by (rule history_simulates [OF assms(1) _ assms(2)]) (rule seen_abs_store)

theorem history_refines_witness:
  "server_history (make_default (\<lambda>a b. []) True)
     [Execute \<lparr>cmd_name = ''SADD'', cmd_args = [''k'', ''b'', ''a'', ''b'']\<rparr> (\<lambda>i. 0) 0,
      Execute \<lparr>cmd_name = ''EXPIRE'', cmd_args = [''k'', ''1'']\<rparr> (\<lambda>i. 5) 5,
      Execute \<lparr>cmd_name = ''SCARD'', cmd_args = [''k'']\<rparr> (\<lambda>i. 1000000004) 1000000004,
      Sweeping 1000000005,
      Execute \<lparr>cmd_name = ''SCARD'', cmd_args = [''k'']\<rparr> (\<lambda>i. 1000000006) 1000000006]
     (initial_ctx (initial_stats 0)) =
   [Inr (RespInteger 2), Inr (RespInteger 1), Inr (RespInteger 2), Inr (RespInteger 0)]"
  (is "server_history ?d ?hs ?x = _")
proof -
  have "parse_i64 ''1'' = Some 1"
    by code_simp
  then have "spec_history ?hs (abs_store (ctx_store ?x)) =
      map (Exactly \<circ> Inr \<circ> RespInteger) [2, 1, 2, 0]"
    by (simp add: initial_ctx_def spec_command_def data_specs_def spec_sadd_def spec_expire_def
        spec_scard_def on_set_def answer_defs held_def fade_def put_def seconds_def deadline_def int64_defs
        card_insert_if)
  moreover have "list_all2 matches (spec_history ?hs (abs_store (ctx_store ?x))) (server_history ?d ?hs ?x)"
    by (rule history_refines [where t = 0]) (simp_all add: initial_ctx_def mono_def)
  ultimately show ?thesis
    by (simp add: list_all2_Cons1)
qed
end
