(* ===== verification/Client_View.thy ===== *)
theory Client_View
  imports Connection_Reads Reply_Lines Command_Spec
begin

text \<open>
  The layers put together, as a client sees them: the bytes of a stream of commands go through the
  parser, the connection, the log, the dispatcher and the handlers, and the replies come back through
  the serializer. What the client parses from the bytes it receives is what the specification of
  \<open>Command_Spec\<close> answers.
\<close>

section \<open>Definitions\<close>

text \<open>The \<open>n\<close>-th command reads the clock \<open>clks n\<close> and is over at \<open>ends n\<close>.\<close>

fun requests :: "(nat \<Rightarrow> clock) \<Rightarrow> (nat \<Rightarrow> time_point) \<Rightarrow> nat \<Rightarrow> command list \<Rightarrow> happening list" where
  "requests clks ends n [] = []"
| "requests clks ends n (c # cs) = Execute c (clks n) (ends n) # requests clks ends (Suc n) cs"

text \<open>
  Every reply the specification allows here is a value, not an exception, and its numbers and sizes
  fit the wire formats.
\<close>

definition deliverable :: "areply \<Rightarrow> bool" where
  "deliverable ar \<longleftrightarrow> (\<forall>r. matches ar r \<longrightarrow> (\<exists>v. r = Inr v \<and> wire_sized v))"

section \<open>The reference pipeline implements the specification\<close>

lemma deliverable_data: "deliverable (fst (spec_command c clk m)) \<Longrightarrow> map_of data_specs (cmd_name c) \<noteq> None"
  by (auto simp: deliverable_def spec_command_def split: option.splits)

lemma data_names:
  "list_all (\<lambda>(n, sp). n \<noteq> ''INFO'' \<and> n \<notin> {''AUTH'', ''SUBSCRIBE'', ''UNSUBSCRIBE''}) data_specs"
  by (simp add: data_specs_def)

lemma data_command:
  assumes "map_of data_specs (cmd_name c) \<noteq> None"
  shows "plain c" and "cmd_name c \<noteq> ''INFO''"
    and "um_find (make_default double_div has_broker) (cmd_name c) \<noteq> None"
proof -
  obtain sp where sp: "(cmd_name c, sp) \<in> set data_specs"
    using assms by (auto dest: map_of_SomeD)
  with data_names show "plain c" "cmd_name c \<noteq> ''INFO''"
    by (auto simp: plain_def list_all_iff)
  from sp data_handlers [of double_div has_broker]
  show "um_find (make_default double_div has_broker) (cmd_name c) \<noteq> None"
    by (fastforce simp: list_all_iff)
qed

lemma dispatch_deliverable:
  assumes "matches ar (fst (dispatch (make_default double_div has_broker) c clk x))" and "deliverable ar"
    and "map_of data_specs (cmd_name c) \<noteq> None"
  obtains v x' where "dispatch (make_default double_div has_broker) c clk x = (Inr v, x')" "resp_ok v"
proof -
  let ?d = "make_default double_div has_broker"
  obtain v where v: "fst (dispatch ?d c clk x) = Inr v" "wire_sized v"
    using assms(1,2) by (auto simp: deliverable_def)
  moreover have "lines_ok v"
    by (rule dispatch_lines [OF data_command(3,2) [OF assms(3)] v(1)])
  ultimately show ?thesis
    by (intro that [of v "snd (dispatch ?d c clk x)"]) (simp_all add: prod_eq_iff resp_ok_lines)
qed

lemma pipeline_refines:
  assumes "kv_ok (ctx_store x)" and "seen t (ctx_store x) = fade t m" and "in_order t (requests clks ends n cs)"
    and "\<forall>ar\<in>set (spec_history (requests clks ends n cs) m). deliverable ar"
  shows "\<exists>vs a' x'. pipeline (make_default double_div has_broker) clks n cs (conn, a, x) =
      (None, concat (map serialize vs), conn, a', x')
    \<and> list_all2 matches (spec_history (requests clks ends n cs) m) (map Inr vs)
    \<and> list_all resp_ok vs \<and> (\<forall>c\<in>set cs. plain c)"
  using assms
proof (induction cs arbitrary: n t m a x)
  case Nil
  then show ?case by simp
next
  case (Cons c cs)
  let ?d = "make_default double_div has_broker" and ?ar = "fst (spec_command c (clks n) m)"
  from Cons.prems(3) have clk: "mono (clks n)" "t \<le> clks n 0" "\<And>i. clks n i \<le> ends n"
    and rest: "in_order (ends n) (requests clks ends (Suc n) cs)"
    by auto
  note step = dispatch_simulates [OF Cons.prems(1) clk(1) seen_later [OF Cons.prems(2) clk(2)],
      where c = c and double_div = double_div and has_broker = has_broker]
  have ar: "deliverable ?ar" and ars: "\<forall>ar\<in>set (spec_history (requests clks ends (Suc n) cs)
      (snd (spec_command c (clks n) m))). deliverable ar"
    using Cons.prems(4) by (auto simp: split_def)
  note data = deliverable_data [OF ar]
  obtain v x1 where run: "dispatch ?d c (clks n) x = (Inr v, x1)" and v: "resp_ok v"
    by (rule dispatch_deliverable [OF step(1) ar data])
  obtain a1 where logged: "execute_logged ?d c (clks n) (a, x) = (Inr v, a1, x1)"
    using run by (auto simp: execute_logged_def Let_def)
  have "ctx_store (count_command conn x1) = ctx_store x1"
    by (simp add: count_command_def)
  moreover have "kv_ok (ctx_store x1)" and "seen (ends n) (ctx_store x1) = fade (ends n) (snd (spec_command c (clks n) m))"
    using dispatch_keeps(1) [OF Cons.prems(1), of double_div has_broker c "clks n"] step(2) [OF clk(3)] run
    by simp_all
  ultimately obtain vs a' x' where
    "pipeline ?d clks (Suc n) cs (conn, a1, count_command conn x1) = (None, concat (map serialize vs), conn, a', x')"
    "list_all2 matches (spec_history (requests clks ends (Suc n) cs) (snd (spec_command c (clks n) m))) (map Inr vs)"
    "list_all resp_ok vs" "\<forall>c\<in>set cs. plain c"
    using Cons.IH [OF _ _ rest ars, of "count_command conn x1" a1] by auto
  with logged v step(1) run data_command(1) [OF data] show ?case
    by (intro exI [of _ "v # vs"] exI [of _ a'] exI [of _ x']) (simp add: split_def)
qed

section \<open>Properties\<close>

text \<open>
  C2: A client that sends commands gets the answers of the specification. Let a client send data
  commands for which the specification gives no exception on a connection that waits for data, let the requests and the
  replies fit the limits, let TCP cut the bytes anywhere, and let the clock not go back. Then the bytes the server
  sends on this connection parse into exactly one reply for every command, in order, and the replies are those
  of the abstract machine; in the end the connection waits for more, with nothing left in its buffer.
\<close>

theorem client_sees_specification:
  assumes "waiting conn" and "parser_buf conn = []" and "kv_ok (ctx_store x)"
    and "\<forall>c\<in>set cs. command_ok c" and "concat chunks = frames cs"
    and "length (frames cs) \<le> max_request_bytes conn"
    and "in_order t (requests clks ends 0 cs)"
    and "\<forall>ar\<in>set (spec_history (requests clks ends 0 cs) (abs_store (ctx_store x))). deliverable ar"
    and "\<forall>vs. list_all2 matches (spec_history (requests clks ends 0 cs) (abs_store (ctx_store x))) (map Inr vs)
        \<longrightarrow> length (concat (map serialize vs)) \<le> max_pending_write_bytes conn"
  shows "\<exists>conn' a' x' out vs.
    serve_reads (make_default double_div has_broker) lib clks [] chunks (conn, a, x) = (conn', a', x')
    \<and> waiting conn' \<and> parser_buf conn' = []
    \<and> concat (async_writes conn') = concat (async_writes conn) @ out \<and> drain out = (vs, None, [])
    \<and> list_all2 matches (spec_history (requests clks ends 0 cs) (abs_store (ctx_store x))) (map Inr vs)"
proof -
  obtain vs a' x' where run: "pipeline (make_default double_div has_broker) clks 0 cs (conn, a, x) =
      (None, concat (map serialize vs), conn, a', x')"
    and vs: "list_all2 matches (spec_history (requests clks ends 0 cs) (abs_store (ctx_store x))) (map Inr vs)"
      "list_all resp_ok vs" and cs: "\<forall>c\<in>set cs. plain c"
    using pipeline_refines [OF assms(3) seen_abs_store assms(7,8)] by blast
  have "drain (concat (map serialize vs) @ []) = (vs, None, [])"
    by (subst drain_serialized) (use vs(2) in \<open>simp_all add: list_all_iff\<close>)
  moreover have "length (concat (map serialize vs)) \<le> max_pending_write_bytes conn"
    using assms(9) vs(1) by blast
  ultimately show ?thesis
    using serve_reads_pipeline [of conn "[]" cs chunks _ clks a x _ a' x' lib, OF assms(1) _ cs _ _ assms(6) _] assms(2,4,5) run vs(1)
    by fastforce
qed

theorem client_sees_specification_witness:
  "let incr = \<lparr>cmd_name = ''INCR'', cmd_args = [''k'']\<rparr>; conn = start (new_connection 1 False False [] 1000 0 1000)
   in \<exists>conn' a' x' out.
     serve_reads (make_default (\<lambda>a b. []) False) (\<lambda>e. []) (\<lambda>n i. int n) []
       [take 5 (frames [incr, incr]), drop 5 (frames [incr, incr])] (conn, None, initial_ctx (initial_stats 0)) =
       (conn', a', x')
     \<and> waiting conn' \<and> concat (async_writes conn') = out
     \<and> drain out = ([RespInteger 1, RespInteger 2], None, [])"
proof -
  let ?incr = "\<lparr>cmd_name = ''INCR'', cmd_args = [''k'']\<rparr>" and ?x = "initial_ctx (initial_stats 0)"
  let ?cs = "[?incr, ?incr]" and ?conn = "start (new_connection 1 False False [] 1000 0 1000)"
  let ?spec = "spec_history (requests (\<lambda>n i. int n) int 0 ?cs) (abs_store (ctx_store ?x))"
  have conn: "waiting ?conn" "parser_buf ?conn = []" "max_request_bytes ?conn = 1000"
    "max_pending_write_bytes ?conn = 1000" "async_writes ?conn = []"
    by (simp_all add: waiting_def new_connection_def conn_io_defs)
  have spec: "?spec = [Exactly (Inr (RespInteger 1)), Exactly (Inr (RespInteger 2))]"
    by (simp add: initial_ctx_def spec_command_def data_specs_def spec_incr_def spec_add_def Let_def
        answer_defs held_def fade_def put_def int64_defs)
  then have replies: "list_all2 matches ?spec (map Inr vs) \<longleftrightarrow> vs = [RespInteger 1, RespInteger 2]" for vs
    by (auto simp: list_all2_Cons1 map_eq_Cons_conv)
  have size: "length (frames ?cs) \<le> max_request_bytes ?conn"
    unfolding conn(3) by code_simp
  have out: "length (concat (map serialize [RespInteger 1, RespInteger 2])) \<le> max_pending_write_bytes ?conn"
    unfolding conn(4) by code_simp
  have ok: "\<forall>c\<in>set ?cs. command_ok c"
    by (simp add: command_ok_eval)
  have store: "kv_ok (ctx_store ?x)" and order: "in_order 0 (requests (\<lambda>n i. int n) int 0 ?cs)"
    by (simp_all add: initial_ctx_def mono_def)
  have clean: "\<forall>ar\<in>set ?spec. deliverable ar"
    unfolding spec by (simp add: deliverable_def int64_defs)
  have room: "\<forall>vs. list_all2 matches ?spec (map Inr vs) \<longrightarrow>
      length (concat (map serialize vs)) \<le> max_pending_write_bytes ?conn"
    unfolding replies using out by blast
  have cut: "concat [take 5 (frames ?cs), drop 5 (frames ?cs)] = frames ?cs"
    by (simp del: frames_simps)
  from client_sees_specification [OF conn(1,2) store ok cut size order clean room]
  show ?thesis
    unfolding replies Let_def conn(5) concat.simps append_Nil by blast
qed
end
