(* ===== verification/Interleaving.thy ===== *)
theory Interleaving
  imports Dispatcher
begin

text \<open>
  The store's mutex is taken by every single operation, not by a whole command, so the expiry thread
  can sweep between two store calls of one handler. This theory writes the handlers that make more
  than one call as sequences of calls, each deciding the next from the results so far, shows that
  they are the handlers of the command theories, and that sweeps between the calls change nothing.
\<close>

section \<open>Sequences of calls\<close>

datatype 'a calls = Return 'a | Call kv_call "kv_result \<Rightarrow> 'a calls"

text \<open>
  The \<open>j\<close>-th call reads the clock at \<open>clk j\<close>, and at \<open>clk (Suc j)\<close> if it reads it twice.
\<close>

primrec run_calls :: "'a calls \<Rightarrow> clock \<Rightarrow> nat \<Rightarrow> kv_store \<Rightarrow> 'a \<times> kv_store" where
  "run_calls (Return r) clk j s = (r, s)"
| "run_calls (Call c k) clk j s =
     (case kv_step c (clk j) (clk (Suc j)) s of (res, s') \<Rightarrow> run_calls (k res) clk (Suc j) s')"

text \<open>The same with sweeps: \<open>sw j\<close> are the times of the sweeps right before the \<open>j\<close>-th call.\<close>

primrec run_swept :: "'a calls \<Rightarrow> clock \<Rightarrow> (nat \<Rightarrow> time_point list) \<Rightarrow> nat \<Rightarrow> kv_store \<Rightarrow> 'a \<times> kv_store" where
  "run_swept (Return r) clk sw j s = (r, fold sweep (sw j) s)"
| "run_swept (Call c k) clk sw j s =
     (case kv_step c (clk j) (clk (Suc j)) (fold sweep (sw j) s) of
        (res, s') \<Rightarrow> run_swept (k res) clk sw (Suc j) s')"

section \<open>Sweeps between calls are invisible\<close>

abbreviation keys_ok :: "kv_store \<Rightarrow> bool" where
  "keys_ok s \<equiv> um_ok (kv_data s)"

lemma keys_ok_step: "keys_ok s \<Longrightarrow> keys_ok (snd (kv_step c now now' s))"
  by (cases c)
    (auto simp: kv_set_def kv_del_def kv_expire_def kv_persist_def sweep_def um_insert_or_assign_def Let_def
      um.invar_assign um.invar_erase um_ok_sweep_loop split: option.split)

lemma sweeps_view:
  assumes "keys_ok s" and "\<forall>t\<in>set ts. t \<le> T"
  shows "keys_ok (fold sweep ts s)" and "live T (fold sweep ts s) = live T s"
  using assms
  by (induction ts arbitrary: s) (auto simp: sweep_def um_ok_sweep_loop live_def map_of_sweep_loop age_age)

lemma kv_step_alike:
  assumes "live now s = live now s'"
  shows "fst (kv_step c now now' s) = fst (kv_step c now now' s')"
    and "keys_ok s \<Longrightarrow> keys_ok s' \<Longrightarrow> now \<le> T \<Longrightarrow>
      live T (snd (kv_step c now now' s)) = live T (snd (kv_step c now now' s'))"
proof -
  note res = kv.alike_results [OF assms]
  show "fst (kv_step c now now' s) = fst (kv_step c now now' s')"
    by (cases c) (simp_all add: res)
  assume keys: "keys_ok s" "keys_ok s'" and T: "now \<le> T"
  note later = kv.alike_later [OF assms T] kv.alike_states [OF assms T]
  show "live T (snd (kv_step c now now' s)) = live T (snd (kv_step c now now' s'))"
    using sweeps_view(2) [OF keys(1), of "[now]"] sweeps_view(2) [OF keys(2), of "[now]"] T
    by (cases c) (simp_all add: later)
qed

lemma run_swept_alike:
  fixes clk :: clock
  assumes "mono clk" and "\<And>j. \<forall>t\<in>set (sw j). t \<le> clk j"
    and "keys_ok s" and "keys_ok s'" and "live (clk j) s = live (clk j) s'"
  shows "fst (run_swept p clk sw j s') = fst (run_calls p clk j s)
    \<and> (\<forall>T. (\<forall>i. clk i \<le> T) \<longrightarrow> live T (snd (run_swept p clk sw j s')) = live T (snd (run_calls p clk j s)))"
  using assms(3-5)
proof (induction p arbitrary: j s s')
  case (Return r)
  have "live T (fold sweep (sw j) s') = live T s" if "\<forall>i. clk i \<le> T" for T
  proof -
    have "clk j \<le> T" using that ..
    moreover from this have "\<forall>t\<in>set (sw j). t \<le> T"
      using assms(2) [of j] order_trans by blast
    ultimately show ?thesis
      using sweeps_view(2) [OF Return(2)] kv.alike_later [OF Return(3)] by simp
  qed
  then show ?case by simp
next
  case (Call c k)
  let ?s' = "fold sweep (sw j) s'"
  have swept: "keys_ok ?s'" and "live (clk j) s = live (clk j) ?s'"
    using sweeps_view [OF Call.prems(2) assms(2)] Call.prems(3) by simp_all
  note alike = kv_step_alike [OF this(2), where c = c and now' = "clk (Suc j)"]
  have "clk j \<le> clk (Suc j)"
    using assms(1) by (simp add: monoD)
  then have "live (clk (Suc j)) (snd (kv_step c (clk j) (clk (Suc j)) s)) =
      live (clk (Suc j)) (snd (kv_step c (clk j) (clk (Suc j)) ?s'))"
    using alike(2) [OF Call.prems(1) swept] by simp
  from Call.IH [OF _ keys_ok_step [OF Call.prems(1)] keys_ok_step [OF swept] this] alike(1) show ?case
    by (simp add: split_def)
qed

section \<open>The handlers as sequences of calls\<close>

primrec found :: "kv_result \<Rightarrow> Value option" where
  "found Done = None"
| "found (Found v) = v"
| "found (Count n) = None"
| "found (Flag b) = None"

definition calls_set :: "command \<Rightarrow> reply calls" where
  "calls_set c =
     (if length (cmd_args c) < 2 then Return (Inr (wrong_args (cmd_name c)))
      else
        let key = cmd_args c ! 0; val = cmd_args c ! 1 in
        case parse_set_flags (drop 2 (cmd_args c)) 0 False False of
          Inl e \<Rightarrow> Return (Inr e)
        | Inr (ttl, nx, xx) \<Rightarrow>
            if nx \<and> xx then Return (Inr (err ''ERR XX and NX options at the same time are not compatible''))
            else Call (Exists key) (\<lambda>exists.
              if nx \<and> exists = Flag True then Return (Inr RespNull)
              else if xx \<and> exists \<noteq> Flag True then Return (Inr RespNull)
              else Call (Set key (StringValue val) ttl) (\<lambda>_. Return (Inr (RespSimpleString ''OK'')))))"

primrec del_calls :: "string list \<Rightarrow> int \<Rightarrow> reply calls" where
  "del_calls [] count = Return (Inr (RespInteger count))"
| "del_calls (key # keys) count =
     Call (Del key) (\<lambda>r. del_calls keys (case r of Count n \<Rightarrow> count + n | _ \<Rightarrow> count))"

definition calls_del :: "command \<Rightarrow> reply calls" where
  "calls_del c = (if cmd_args c = [] then Return (Inr (wrong_args (cmd_name c))) else del_calls (cmd_args c) 0)"

primrec exists_calls :: "string list \<Rightarrow> int \<Rightarrow> reply calls" where
  "exists_calls [] count = Return (Inr (RespInteger count))"
| "exists_calls (key # keys) count =
     Call (Exists key) (\<lambda>r. exists_calls keys (if r = Flag True then count + 1 else count))"

definition calls_exists :: "command \<Rightarrow> reply calls" where
  "calls_exists c =
     (if cmd_args c = [] then Return (Inr (wrong_args (cmd_name c))) else exists_calls (cmd_args c) 0)"

text \<open>
  The other handlers read a value, compute, and write it back. What they decide from the value they
  read is a reply and what to do with the key.
\<close>

datatype key_write = Keep | Put Value | Drop

definition update_calls :: "string \<Rightarrow> (Value option \<Rightarrow> reply \<times> key_write) \<Rightarrow> reply calls" where
  "update_calls key decide =
     Call (Get key) (\<lambda>r.
       case decide (found r) of
         (rep, Keep) \<Rightarrow> Return rep
       | (rep, Put v) \<Rightarrow> Call (Set key v 0) (\<lambda>_. Return rep)
       | (rep, Drop) \<Rightarrow> Call (Del key) (\<lambda>_. Return rep))"

definition decide_delta :: "int \<Rightarrow> Value option \<Rightarrow> reply \<times> key_write" where
  "decide_delta delta current =
     (let add = (\<lambda>num.
        if (delta > 0 \<and> num > wrap64 (int64_max - delta)) \<or> (delta < 0 \<and> num < wrap64 (int64_min - delta))
        then (Inr (RespError ''ERR increment or decrement would overflow''), Keep)
        else (Inr (RespInteger (wrap64 (num + delta))), Put (StringValue (to_string (wrap64 (num + delta))))))
      in case current of
           None \<Rightarrow> add 0
         | Some v \<Rightarrow>
             (case as_string v of
                Inl ex \<Rightarrow> (Inl ex, Keep)
              | Inr str \<Rightarrow>
                  (case parse_i64 str of
                     None \<Rightarrow> (Inr (RespError ''ERR value is not an integer or out of range''), Keep)
                   | Some num \<Rightarrow> add num)))"

definition calls_incr :: "command \<Rightarrow> reply calls" where
  "calls_incr c =
     (if length (cmd_args c) \<noteq> 1 then Return (Inr (wrong_args (cmd_name c)))
      else update_calls (cmd_args c ! 0) (decide_delta 1))"

definition calls_decr :: "command \<Rightarrow> reply calls" where
  "calls_decr c =
     (if length (cmd_args c) \<noteq> 1 then Return (Inr (wrong_args (cmd_name c)))
      else update_calls (cmd_args c ! 0) (decide_delta (- 1)))"

definition calls_incrby :: "command \<Rightarrow> reply calls" where
  "calls_incrby c =
     (if length (cmd_args c) \<noteq> 2 then Return (Inr (wrong_args (cmd_name c)))
      else case parse_i64 (cmd_args c ! 1) of
        None \<Rightarrow> Return (Inr (err ''ERR value is not an integer or out of range''))
      | Some delta \<Rightarrow> update_calls (cmd_args c ! 0) (decide_delta delta))"

definition calls_decrby :: "command \<Rightarrow> reply calls" where
  "calls_decrby c =
     (if length (cmd_args c) \<noteq> 2 then Return (Inr (wrong_args (cmd_name c)))
      else case parse_i64 (cmd_args c ! 1) of
        None \<Rightarrow> Return (Inr (err ''ERR value is not an integer or out of range''))
      | Some delta \<Rightarrow>
          if delta = int64_min then Return (Inr (err ''ERR increment or decrement would overflow''))
          else update_calls (cmd_args c ! 0) (decide_delta (wrap64 (- delta))))"

definition calls_push :: "(string list \<Rightarrow> string \<Rightarrow> string list) \<Rightarrow> command \<Rightarrow> reply calls" where
  "calls_push push c =
     (if length (cmd_args c) < 2 then Return (Inr (wrong_args (cmd_name c)))
      else update_calls (cmd_args c ! 0) (\<lambda>v.
        case (case v of None \<Rightarrow> Inr [] | Some (ListValue l) \<Rightarrow> Inr l | Some _ \<Rightarrow> Inl kWrongType) of
          Inl e \<Rightarrow> (Inr e, Keep)
        | Inr l \<Rightarrow>
            let l' = foldl push l (drop 1 (cmd_args c))
            in (Inr (RespInteger (int (length l'))), Put (ListValue l'))))"

definition calls_pop :: "(string list \<Rightarrow> string) \<Rightarrow> (string list \<Rightarrow> string list) \<Rightarrow> command \<Rightarrow> reply calls" where
  "calls_pop elem_of rest_of c =
     (if length (cmd_args c) \<noteq> 1 then Return (Inr (wrong_args (cmd_name c)))
      else update_calls (cmd_args c ! 0) (\<lambda>v.
        case v of
          None \<Rightarrow> (Inr RespNull, Keep)
        | Some (ListValue l) \<Rightarrow>
            if l = [] then (Inr RespNull, Keep)
            else (Inr (RespBulkString (elem_of l)),
                  if rest_of l = [] then Drop else Put (ListValue (rest_of l)))
        | Some _ \<Rightarrow> (Inr kWrongType, Keep)))"

definition calls_sadd :: "command \<Rightarrow> reply calls" where
  "calls_sadd c =
     (if length (cmd_args c) < 2 then Return (Inr (wrong_args (cmd_name c)))
      else update_calls (cmd_args c ! 0) (\<lambda>v.
        case (case v of None \<Rightarrow> Inr [] | Some (SetValue m) \<Rightarrow> Inr m | Some _ \<Rightarrow> Inl kWrongType) of
          Inl e \<Rightarrow> (Inr e, Keep)
        | Inr m \<Rightarrow>
            (case sadd_loop (drop 1 (cmd_args c)) m 0 of (m', added) \<Rightarrow> (Inr (RespInteger added), Put (SetValue m')))))"

definition calls_srem :: "command \<Rightarrow> reply calls" where
  "calls_srem c =
     (if length (cmd_args c) < 2 then Return (Inr (wrong_args (cmd_name c)))
      else update_calls (cmd_args c ! 0) (\<lambda>v.
        case v of
          None \<Rightarrow> (Inr (RespInteger 0), Keep)
        | Some (SetValue m) \<Rightarrow>
            (case srem_loop (drop 1 (cmd_args c)) m 0 of
               (m', removed) \<Rightarrow> (Inr (RespInteger removed), if m' = [] then Drop else Put (SetValue m')))
        | Some _ \<Rightarrow> (Inr kWrongType, Keep)))"

definition calls_hset :: "command \<Rightarrow> reply calls" where
  "calls_hset c =
     (if length (cmd_args c) < 3 \<or> even (length (cmd_args c)) then Return (Inr (wrong_args (cmd_name c)))
      else update_calls (cmd_args c ! 0) (\<lambda>v.
        case (case v of None \<Rightarrow> Inr [] | Some (HashValue h) \<Rightarrow> Inr h | Some _ \<Rightarrow> Inl kWrongType) of
          Inl e \<Rightarrow> (Inr e, Keep)
        | Inr h \<Rightarrow>
            (case hset_loop (drop 1 (cmd_args c)) h 0 of (h', added) \<Rightarrow> (Inr (RespInteger added), Put (HashValue h')))))"

definition calls_hdel :: "command \<Rightarrow> reply calls" where
  "calls_hdel c =
     (if length (cmd_args c) < 2 then Return (Inr (wrong_args (cmd_name c)))
      else update_calls (cmd_args c ! 0) (\<lambda>v.
        case v of
          None \<Rightarrow> (Inr (RespInteger 0), Keep)
        | Some (HashValue h) \<Rightarrow>
            (case hdel_loop (drop 1 (cmd_args c)) h 0 of
               (h', removed) \<Rightarrow> (Inr (RespInteger removed), if h' = [] then Drop else Put (HashValue h')))
        | Some _ \<Rightarrow> (Inr kWrongType, Keep)))"

section \<open>They are the handlers\<close>

locale called_handler =
  fixes h :: store_handler and p :: "command \<Rightarrow> reply calls"
  assumes calls: "h c clk s = run_calls (p c) clk 0 s"
begin

lemma swept:
  fixes clk :: clock
  assumes "kv_ok s" and "mono clk" and "\<And>j. \<forall>t\<in>set (sw j). t \<le> clk j"
  shows "fst (run_swept (p c) clk sw 0 s) = fst (h c clk s)"
    and "(\<And>i. clk i \<le> T) \<Longrightarrow> live T (snd (run_swept (p c) clk sw 0 s)) = live T (snd (h c clk s))"
  using run_swept_alike [where s = s and s' = s and p = "p c", OF assms(2,3)] assms(1)
  by (auto simp: calls kv_ok_def)

end

interpretation set_c: called_handler cmd_set calls_set
  by unfold_locales (auto simp: cmd_set_def calls_set_def Let_def split: sum.split)

lemma run_del_calls: "run_calls (del_calls ks n) clk j s = (case del_loop clk j ks n s of (m, s') \<Rightarrow> (Inr (RespInteger m), s'))"
  by (induction ks arbitrary: n j s) (auto simp: split_def)

interpretation del_c: called_handler cmd_del calls_del
  by unfold_locales (simp add: cmd_del_def calls_del_def run_del_calls)

lemma run_exists_calls: "run_calls (exists_calls ks n) clk j s = (Inr (RespInteger (exists_loop clk j ks n s)), s)"
  by (induction ks arbitrary: n j) simp_all

interpretation exists_c: called_handler cmd_exists calls_exists
  by unfold_locales (simp add: cmd_exists_def calls_exists_def run_exists_calls)

lemma run_update_calls:
  "run_calls (update_calls key decide) clk 0 s =
     (case decide (kv_get (clk 0) key s) of
        (rep, Keep) \<Rightarrow> (rep, s)
      | (rep, Put v) \<Rightarrow> (rep, kv_set (clk 1) key v 0 s)
      | (rep, Drop) \<Rightarrow> (rep, snd (kv_del (clk 1) key s)))"
  by (auto simp: update_calls_def split_def split: key_write.split)

lemma run_delta_calls: "run_calls (update_calls key (decide_delta delta)) clk 0 s = apply_delta key delta clk s"
  by (auto simp: run_update_calls decide_delta_def apply_delta_def apply_delta_num_def Let_def
      split: option.split sum.split)

interpretation incr_c: called_handler cmd_incr calls_incr
  by unfold_locales (simp add: cmd_incr_def calls_incr_def run_delta_calls)

interpretation decr_c: called_handler cmd_decr calls_decr
  by unfold_locales (simp add: cmd_decr_def calls_decr_def run_delta_calls)

interpretation incrby_c: called_handler cmd_incrby calls_incrby
  by unfold_locales (simp add: cmd_incrby_def calls_incrby_def run_delta_calls split: option.split)

interpretation decrby_c: called_handler cmd_decrby calls_decrby
  by unfold_locales (simp add: cmd_decrby_def calls_decrby_def run_delta_calls split: option.split)

interpretation lpush_c: called_handler cmd_lpush "calls_push (\<lambda>l a. a # l)"
  by unfold_locales (auto simp: cmd_lpush_def get_or_create_list_def calls_push_def run_update_calls Let_def
      split: option.split Value.split)

interpretation rpush_c: called_handler cmd_rpush "calls_push (\<lambda>l a. l @ [a])"
  by unfold_locales (auto simp: cmd_rpush_def get_or_create_list_def calls_push_def run_update_calls Let_def
      split: option.split Value.split)

interpretation lpop_c: called_handler cmd_lpop "calls_pop hd tl"
  by unfold_locales (auto simp: cmd_lpop_def calls_pop_def run_update_calls Let_def
      split: option.split Value.split list.split)

interpretation rpop_c: called_handler cmd_rpop "calls_pop last butlast"
  by unfold_locales (auto simp: cmd_rpop_def calls_pop_def run_update_calls Let_def
      split: option.split Value.split)

interpretation sadd_c: called_handler cmd_sadd calls_sadd
  by unfold_locales (auto simp: cmd_sadd_def get_or_create_set_def calls_sadd_def run_update_calls split_def
      split: option.split Value.split)

interpretation srem_c: called_handler cmd_srem calls_srem
  by unfold_locales (auto simp: cmd_srem_def calls_srem_def run_update_calls split_def
      split: option.split Value.split)

interpretation hset_c: called_handler cmd_hset calls_hset
  by unfold_locales (auto simp: cmd_hset_def get_or_create_hash_def calls_hset_def run_update_calls split_def
      split: option.split Value.split)

interpretation hdel_c: called_handler cmd_hdel calls_hdel
  by unfold_locales (auto simp: cmd_hdel_def calls_hdel_def run_update_calls split_def
      split: option.split Value.split)

section \<open>Properties\<close>

text \<open>
  The commands that make more than one call, with their sequences. The one that is missing is
  \<^verbatim>\<open>METRICS\<close>, whose calls count what is stored, expired or not; all others make one call or none.
\<close>

definition called_commands :: "(string \<times> (command \<Rightarrow> reply calls)) list" where
  "called_commands =
     [(''SET'', calls_set), (''DEL'', calls_del), (''EXISTS'', calls_exists), (''INCR'', calls_incr),
      (''DECR'', calls_decr), (''INCRBY'', calls_incrby), (''DECRBY'', calls_decrby),
      (''LPUSH'', calls_push (\<lambda>l a. a # l)), (''RPUSH'', calls_push (\<lambda>l a. l @ [a])),
      (''LPOP'', calls_pop hd tl), (''RPOP'', calls_pop last butlast), (''SADD'', calls_sadd),
      (''SREM'', calls_srem), (''HSET'', calls_hset), (''HDEL'', calls_hdel)]"

lemmas called_entries = set_c.called_handler_axioms del_c.called_handler_axioms exists_c.called_handler_axioms
  incr_c.called_handler_axioms decr_c.called_handler_axioms incrby_c.called_handler_axioms
  decrby_c.called_handler_axioms lpush_c.called_handler_axioms rpush_c.called_handler_axioms
  lpop_c.called_handler_axioms rpop_c.called_handler_axioms sadd_c.called_handler_axioms
  srem_c.called_handler_axioms hset_c.called_handler_axioms hdel_c.called_handler_axioms

lemma called_commands_table:
  "list_all (\<lambda>(n, p). \<exists>h. um_find (make_default double_div has_broker) n = Some (on_store h) \<and> called_handler h p)
     called_commands"
  by (simp add: called_commands_def make_default_table) (auto intro: called_entries)

text \<open>
  \<^verbatim>\<open>METRICS\<close> with sweeps before its first call, between the two, and after the second. Nothing a
  client can look up changes, and without sweeps it is the handler; but its two numbers may come
  from two states, of which the second has fewer entries: a reply that no single state gives.
\<close>

definition swept_metrics ::
  "(int \<Rightarrow> int \<Rightarrow> string) \<Rightarrow> server_stats \<Rightarrow> command \<Rightarrow> clock \<Rightarrow> (nat \<Rightarrow> time_point list) \<Rightarrow> kv_store \<Rightarrow> reply \<times> kv_store" where
  "swept_metrics double_div stats c clk sw s =
     (let s0 = fold sweep (sw 0) s; s1 = fold sweep (sw 1) s0 in
      if cmd_args c \<noteq> [] then (Inr (wrong_args (cmd_name c)), s0)
      else (Inr (RespBulkString (metrics_body double_div stats clk (kv_size s0) (approx_memory_bytes s1))),
            fold sweep (sw 2) s1))"

lemma swept_metrics_none: "swept_metrics double_div stats c clk (\<lambda>j. []) s = cmd_metrics double_div stats c clk s"
  by (simp add: swept_metrics_def cmd_metrics_def)

lemma swept_metrics_view:
  assumes "kv_ok s" and "\<And>j. \<forall>t\<in>set (sw j). t \<le> T"
  shows "live T (snd (swept_metrics double_div stats c clk sw s)) = live T s"
proof -
  have keys: "keys_ok s"
    using assms(1) by (simp add: kv_ok_def)
  note s0 = sweeps_view [OF keys assms(2) [of 0]]
  note s1 = sweeps_view [OF s0(1) assms(2) [of 1]]
  note s2 = sweeps_view [OF s1(1) assms(2) [of 2]]
  show ?thesis
    using s0(2) s1(2) s2(2) by (simp add: swept_metrics_def Let_def)
qed

lemma swept_metrics_two_states:
  "let s = kv_set 0 ''k'' (StringValue ''v'') 1 kv_empty; sw = (\<lambda>j. if j = 1 then [1000000] else [])
   in fst (swept_metrics double_div stats \<lparr>cmd_name = ''METRICS'', cmd_args = []\<rparr> clk sw s) =
        Inr (RespBulkString (metrics_body double_div stats clk 1 0))
      \<and> approx_memory_bytes s \<noteq> 0"
proof -
  let ?s = "kv_set 0 ''k'' (StringValue ''v'') 1 kv_empty"
  have "kv_size ?s = 1" and "approx_memory_bytes (sweep 1000000 ?s) = 0" and "approx_memory_bytes ?s \<noteq> 0"
    by code_simp+
  then show ?thesis
    by (simp add: swept_metrics_def Let_def)
qed

text \<open>
  C16: The expiry thread may interrupt a command. For every command that makes more than one store
  call, except \<^verbatim>\<open>METRICS\<close>, wherever the expiry thread sweeps between the calls, the reply is the one the
  command gives undisturbed, and so is what can be seen afterwards. The clock must not go back and a sweep that
  precedes a call must not read a later time.
\<close>

theorem sweeps_between_calls_invisible:
  fixes clk :: clock
  assumes "um_find called_commands (cmd_name c) = Some p" and "kv_ok (ctx_store x)" and "mono clk"
    and "\<And>j. \<forall>t\<in>set (sw j). t \<le> clk j" and "\<And>i. clk i \<le> T"
  shows "fst (run_swept (p c) clk sw 0 (ctx_store x)) = fst (dispatch (make_default double_div has_broker) c clk x)
    \<and> live T (snd (run_swept (p c) clk sw 0 (ctx_store x))) =
        live T (ctx_store (snd (dispatch (make_default double_div has_broker) c clk x)))"
proof -
  obtain h where h: "um_find (make_default double_div has_broker) (cmd_name c) = Some (on_store h)"
    and "called_handler h p"
    using called_commands_table [of double_div has_broker] map_of_SomeD [OF assms(1)] by (auto simp: list_all_iff)
  from called_handler.swept [OF this(2) assms(2-4)] assms(5) h show ?thesis
    by (simp add: dispatch_def on_store_def split_def)
qed

theorem sweeps_between_calls_invisible_witness:
  "let x = (initial_ctx (initial_stats 0))\<lparr>ctx_store := kv_set 0 ''n'' (StringValue ''5'') 1 kv_empty\<rparr>;
       c = \<lparr>cmd_name = ''INCR'', cmd_args = [''n'']\<rparr>
   in fst (run_swept (calls_incr c) (\<lambda>i. if i = 0 then 999999 else 1000000) (\<lambda>j. if j = 1 then [1000000] else []) 0
        (ctx_store x)) =
      fst (dispatch (make_default (\<lambda>a b. []) True) c (\<lambda>i. if i = 0 then 999999 else 1000000) x)"
proof -
  let ?x = "(initial_ctx (initial_stats 0))\<lparr>ctx_store := kv_set 0 ''n'' (StringValue ''5'') 1 kv_empty\<rparr>"
  let ?clk = "\<lambda>i::nat. if i = 0 then 999999 else 1000000 :: int" and ?sw = "\<lambda>j::nat. if j = 1 then [1000000 :: int] else []"
  have "um_find called_commands (cmd_name \<lparr>cmd_name = ''INCR'', cmd_args = [''n'']\<rparr>) = Some calls_incr"
    by (simp add: called_commands_def)
  from sweeps_between_calls_invisible [where x = ?x and clk = ?clk and sw = ?sw and T = 1000000 and double_div = "\<lambda>a b. []"
      and has_broker = True, OF this]
  show ?thesis
    by (simp add: Let_def kv.inv_set mono_def)
qed

end
