(* ===== verification/Log_Failure.thy ===== *)
theory Log_Failure
  imports Aof
begin

text \<open>
  What happens when the disk does not take a log entry, as when it is full.
  \<^verbatim>\<open>AofPersistence::log\<close> looks neither at the result of \<^verbatim>\<open>file_.write\<close> nor at that of
  \<^verbatim>\<open>file_.flush\<close>: a prefix of the entry may be in the file, the stream is in a failed state,
  and a stream in a failed state takes no later entry, until the process is started again. What is
  still in its buffer is up to the C++ library, which may try to write it once more when
  \<^verbatim>\<open>flush\<close> is called again and when the stream is closed. \<open>rooms n\<close> is the number of bytes the
  operating system takes of the \<open>n\<close>-th entry, \<open>late n\<close> what the library writes from the buffer of a
  failed stream at the \<open>n\<close>-th call of \<^verbatim>\<open>log\<close>, and \<open>last_bytes\<close> what it writes when the stream is closed.
\<close>

section \<open>Definitions\<close>

record aof_stream = aof +
  stream_good :: bool

definition log_stream :: "nat \<Rightarrow> string \<Rightarrow> command \<Rightarrow> aof_stream \<Rightarrow> aof_stream" where
  "log_stream room late c a =
     (let wire = serialize (command_frame c) in
      if \<not> aof_is_open a then a
      else if stream_good a
      then a\<lparr>aof_disk := map_option (\<lambda>content. content @ take room wire) (aof_disk a),
             stream_good := length wire \<le> room\<rparr>
      else a\<lparr>aof_disk := map_option (\<lambda>content. content @ late) (aof_disk a)\<rparr>)"

text \<open>\<^verbatim>\<open>~AofPersistence\<close> and the destructor of its stream, when the process ends in an orderly way.\<close>

definition close_stream :: "string \<Rightarrow> aof_stream \<Rightarrow> aof_stream" where
  "close_stream last_bytes a =
     (if aof_is_open a \<and> \<not> stream_good a
      then a\<lparr>aof_disk := map_option (\<lambda>content. content @ last_bytes) (aof_disk a), aof_is_open := False\<rparr>
      else a\<lparr>aof_is_open := False\<rparr>)"

text \<open>Executing commands as \<open>execute_logged\<close> does, on such a stream, with the replies.\<close>

fun serve_stream ::
  "dispatcher \<Rightarrow> (nat \<Rightarrow> nat) \<Rightarrow> (nat \<Rightarrow> string) \<Rightarrow> nat \<Rightarrow> (command \<times> clock) list \<Rightarrow> aof_stream \<times> server_ctx
     \<Rightarrow> reply list \<times> aof_stream \<times> server_ctx" where
  "serve_stream d rooms late n [] st = ([], st)"
| "serve_stream d rooms late n ((c, clk) # rest) (a, x) =
     (let logs = is_write_command (cmd_name c);
          a' = (if logs then log_stream (rooms n) (late n) c a else a)
      in case dispatch d c clk x of
           (r, x') \<Rightarrow>
             (case serve_stream d rooms late (if logs then Suc n else n) rest (a', x') of
                (rs, st) \<Rightarrow> (r # rs, st)))"

text \<open>The same commands on a server without a log.\<close>

fun answer_all :: "dispatcher \<Rightarrow> (command \<times> clock) list \<Rightarrow> server_ctx \<Rightarrow> reply list \<times> server_ctx" where
  "answer_all d [] x = ([], x)"
| "answer_all d ((c, clk) # rest) x =
     (case dispatch d c clk x of (r, x') \<Rightarrow> (case answer_all d rest x' of (rs, x'') \<Rightarrow> (r # rs, x'')))"

text \<open>The entries that reach the file whole: all before the first that is cut.\<close>

fun logged_whole :: "(nat \<Rightarrow> nat) \<Rightarrow> nat \<Rightarrow> command list \<Rightarrow> command list" where
  "logged_whole rooms n [] = []"
| "logged_whole rooms n (c # cs) =
     (if length (serialize (command_frame c)) \<le> rooms n then c # logged_whole rooms (Suc n) cs else [])"

section \<open>The stream\<close>

text \<open>With enough room this is the operation of \<open>Aof\<close>.\<close>

lemma log_stream_room:
  "stream_good a \<Longrightarrow> length (serialize (command_frame c)) \<le> room \<Longrightarrow>
     aof.truncate (log_stream room late c a) = aof_log c (aof.truncate a) \<and> stream_good (log_stream room late c a)"
  by (simp add: log_stream_def aof_log_def aof.defs Let_def)

text \<open>A failed stream stays failed, and the file only gets what the library still writes.\<close>

lemma serve_stream_failed:
  assumes "\<not> stream_good a" and "aof_disk a = Some content" and "aof_is_open a"
  shows "\<not> stream_good (fst (snd (serve_stream d rooms late n ccs (a, x))))
    \<and> aof_is_open (fst (snd (serve_stream d rooms late n ccs (a, x))))
    \<and> (\<exists>more. aof_disk (fst (snd (serve_stream d rooms late n ccs (a, x)))) = Some (content @ more)
         \<and> ((\<forall>n. late n = []) \<longrightarrow> more = []))"
  using assms
proof (induction ccs arbitrary: n a x content)
  case Nil
  then show ?case by simp
next
  case (Cons cc ccs)
  obtain c clk where cc: "cc = (c, clk)" by (cases cc)
  let ?a = "if is_write_command (cmd_name c) then log_stream (rooms n) (late n) c a else a"
  obtain more where a: "\<not> stream_good ?a" "aof_disk ?a = Some (content @ more)" "aof_is_open ?a"
    and more: "(\<forall>n. late n = []) \<longrightarrow> more = []"
    using Cons.prems
    by (intro that [of "if is_write_command (cmd_name c) then late n else []"]) (simp_all add: log_stream_def)
  from Cons.IH [OF a, of "if is_write_command (cmd_name c) then Suc n else n" "snd (dispatch d c clk x)"] more
  show ?case
    by (auto simp: cc split_def Let_def split: if_splits)
qed

lemma serve_stream_answers:
  "fst (serve_stream d rooms late n ccs (a, x)) = fst (answer_all d ccs x)
   \<and> snd (snd (serve_stream d rooms late n ccs (a, x))) = snd (answer_all d ccs x)"
  by (induction ccs arbitrary: n a x) (auto simp: split_def Let_def)

text \<open>
  What is in the file: the whole entries, then a torn one if one was cut, then what the library still
  wrote for the failed stream.
\<close>

definition torn_entry :: "command set \<Rightarrow> string \<Rightarrow> bool" where
  "torn_entry C torn \<longleftrightarrow> torn = [] \<or> (\<exists>c\<in>C. \<exists>q. q \<noteq> [] \<and> serialize (command_frame c) = torn @ q)"

lemma serve_stream_disk:
  assumes "aof_is_open a" and "stream_good a" and "aof_disk a = Some content"
    and "serve_stream d rooms late n ccs (a, x) = (rs, a', x')"
  shows "aof_is_open a' \<and> (\<exists>torn more. aof_disk a' =
      Some (content @ frames (logged_whole rooms n (map fst (writes_of ccs))) @ torn @ more)
    \<and> torn_entry (fst ` set ccs) torn \<and> (stream_good a' \<longrightarrow> torn = [] \<and> more = [])
    \<and> ((\<forall>n. late n = []) \<longrightarrow> more = []))"
  using assms
proof (induction ccs arbitrary: n a x content rs)
  case Nil
  then show ?case by (auto simp: writes_of_def torn_entry_def)
next
  case (Cons cc ccs)
  obtain c clk where cc: "cc = (c, clk)" by (cases cc)
  obtain r x1 where run: "dispatch d c clk x = (r, x1)" by fastforce
  let ?wire = "serialize (command_frame c)" and ?a = "log_stream (rooms n) (late n) c a"
  have torn_mono: "torn_entry (fst ` set ccs) torn \<Longrightarrow> torn_entry (fst ` set (cc # ccs)) torn" for torn
    by (auto simp: torn_entry_def)
  consider (read) "\<not> is_write_command (cmd_name c)"
    | (whole) "is_write_command (cmd_name c)" "length ?wire \<le> rooms n"
    | (cut) "is_write_command (cmd_name c)" "rooms n < length ?wire"
    by linarith
  then show ?case
  proof cases
    case read
    then obtain rs1 where "serve_stream d rooms late n ccs (a, x1) = (rs1, a', x')"
      using Cons.prems(4) by (auto simp: cc run Let_def split: prod.splits)
    from Cons.IH [OF Cons.prems(1-3) this] read torn_mono show ?thesis
      by (auto simp: cc writes_of_def)
  next
    case whole
    then obtain rs1 where rest: "serve_stream d rooms late (Suc n) ccs (?a, x1) = (rs1, a', x')"
      using Cons.prems(4) by (auto simp: cc run Let_def split: prod.splits)
    have "aof_is_open ?a" "stream_good ?a" "aof_disk ?a = Some (content @ ?wire)"
      using Cons.prems whole by (simp_all add: log_stream_def)
    from Cons.IH [OF this rest] whole torn_mono show ?thesis
      by (auto simp: cc writes_of_def)
  next
    case cut
    then obtain rs1 where rest: "serve_stream d rooms late (Suc n) ccs (?a, x1) = (rs1, a', x')"
      using Cons.prems(4) by (auto simp: cc run Let_def split: prod.splits)
    have "\<not> stream_good ?a" "aof_disk ?a = Some (content @ take (rooms n) ?wire)" "aof_is_open ?a"
      using Cons.prems cut by (simp_all add: log_stream_def)
    from serve_stream_failed [OF this, of d rooms late "Suc n" ccs x1] rest
    obtain more where "\<not> stream_good a'" "aof_is_open a'"
      "aof_disk a' = Some (content @ take (rooms n) ?wire @ more)" "(\<forall>n. late n = []) \<longrightarrow> more = []"
      by auto
    moreover have "torn_entry (fst ` set (cc # ccs)) (take (rooms n) ?wire)"
      unfolding torn_entry_def using cut
      by (intro disjI2 bexI [of _ c] exI [of _ "drop (rooms n) ?wire"]) (simp_all add: cc)
    moreover have "logged_whole rooms n (map fst (writes_of (cc # ccs))) = []"
      using cut by (simp add: cc writes_of_def)
    ultimately show ?thesis
      by auto
  qed
qed

lemma logged_whole_subset: "set (logged_whole rooms n cs) \<subseteq> set cs"
  by (induction cs arbitrary: n) auto

lemma logged_whole_commands: "set (logged_whole rooms n (map fst (writes_of ccs))) \<subseteq> fst ` set ccs"
  using logged_whole_subset [of rooms n "map fst (writes_of ccs)"] by (auto simp: writes_of_def)

section \<open>The replay\<close>

lemma drain_suffix: "drain b = (vs, ex, r) \<Longrightarrow> length r \<le> length b"
proof (induction b arbitrary: vs rule: drain.induct)
  case (1 b)
  have "feed b [] = (res, b') \<Longrightarrow> length b' \<le> length b" for res b'
    by (auto simp: feed_def Let_def split: sum.splits prod.splits option.splits)
  with 1 show ?case
    by (force simp: drain.simps [of b] split: sum.splits prod.splits option.splits)
qed

text \<open>Whatever follows the frames, they are executed first and stay in the file.\<close>

lemma replay_then_more:
  assumes "\<forall>c\<in>set cs. command_ok c" and "aof_disk a = Some (frames cs @ rest)"
    and "drain rest = (vs, ex, r)" and "aof_is_open a"
  shows "\<exists>kept. replay True True True d clks a y =
    (length cs + length (commands_of vs), a\<lparr>aof_disk := Some (frames cs @ kept)\<rparr>,
     run_commands d clks 0 (cs @ commands_of vs) y)"
proof (cases "frames cs @ rest = []")
  case True
  then have "cs = []" and "rest = []"
    by (cases cs; simp)+
  with assms show ?thesis
    by (cases a) (auto simp: replay_def)
next
  case False
  have "commands_of (map command_frame cs @ vs) = cs @ commands_of vs"
    using assms(1) by (induction cs) (simp_all add: parse_command_frame)
  then have loop: "replay_loop d clks [] (frames cs @ rest) 0 y =
      (ex \<noteq> None, length cs + length (commands_of vs), r, run_commands d clks 0 (cs @ commands_of vs) y)"
    by (simp add: replay_loop_eq drain_frames assms(1,3))
  have "take (length (frames cs @ rest) - length r) (frames cs @ rest) =
      frames cs @ take (length rest - length r) rest"
    using drain_suffix [OF assms(3)] by simp
  with loop False assms(2,4) show ?thesis
    by (cases a) (auto simp: replay_def buffered_size_def truncate_to_def reopen_append_stream_def)
qed

section \<open>Properties\<close>

text \<open>
  C19: A log entry the disk does not take is lost silently, with everything after it. Whatever becomes of the
  writes to the log, clients get the replies they would get without a log. A restart, after the
  stream was closed or the process killed, first executes the commands the log held before and those whose entries
  came before the first one that was cut, and it keeps their entries in the file. If no entry was
  cut, or if the library writes nothing more for the failed stream, these are all the commands it executes
  and all that is left in the file, and the server is ready to append; otherwise it goes on with
  whatever the torn entry and the late bytes make as RESP.
\<close>

theorem full_disk_keeps_prefix:
  assumes "\<forall>c\<in>set ds \<union> fst ` set ccs. command_ok c" and "aof_is_open a" and "stream_good a"
    and "aof_disk a = Some (frames ds)" and "serve_stream d rooms late 0 ccs (a, x) = (rs, a', x')"
    and "a'' \<in> {a', close_stream last_bytes a'}"
  shows "(rs, x') = answer_all d ccs x
    \<and> (let survivors = ds @ logged_whole rooms 0 (map fst (writes_of ccs))
       in \<exists>extra kept. replay True True True d clks (aof_new True (aof_disk a'')) y =
            (length survivors + length extra,
             \<lparr>aof_disk = Some (frames survivors @ kept), aof_is_open = True\<rparr>,
             run_commands d clks 0 (survivors @ extra) y)
          \<and> (stream_good a' \<or> (\<forall>n. late n = []) \<and> last_bytes = [] \<longrightarrow> extra = [] \<and> kept = []))"
proof -
  let ?new = "logged_whole rooms 0 (map fst (writes_of ccs))"
  obtain torn more0 where disk: "aof_is_open a'" "aof_disk a' = Some (frames (ds @ ?new) @ torn @ more0)"
    and torn: "torn_entry (fst ` set ccs) torn" and good: "stream_good a' \<longrightarrow> torn = [] \<and> more0 = []"
    and quiet: "(\<forall>n. late n = []) \<longrightarrow> more0 = []"
    using serve_stream_disk [OF assms(2-5)] by auto
  define more where "more = more0 @ (if a'' = a' \<or> stream_good a' then [] else last_bytes)"
  have disk'': "aof_disk a'' = Some (frames (ds @ ?new) @ torn @ more)"
    using assms(6) disk by (auto simp: more_def close_stream_def)
  have ok: "\<forall>c\<in>set (ds @ ?new). command_ok c"
    using assms(1) logged_whole_commands [of rooms 0 ccs] by auto
  obtain vs ex r where drained: "drain (torn @ more) = (vs, ex, r)"
    by (cases "drain (torn @ more)") auto
  obtain kept where run: "replay True True True d clks (aof_new True (aof_disk a'')) y =
      (length (ds @ ?new) + length (commands_of vs), \<lparr>aof_disk = Some (frames (ds @ ?new) @ kept), aof_is_open = True\<rparr>,
       run_commands d clks 0 ((ds @ ?new) @ commands_of vs) y)"
    using replay_then_more [OF ok _ drained, of "aof_new True (aof_disk a'')" d clks y] disk''
    by (auto simp: aof_new_def)
  have "commands_of vs = [] \<and> kept = []" if "stream_good a' \<or> (\<forall>n. late n = []) \<and> last_bytes = []"
  proof -
    have "more = []"
      using that good quiet by (auto simp: more_def)
    moreover have "drain torn = ([], None, torn)"
      using torn assms(1) torn_value_incomplete drain_incomplete
      by (fastforce simp: torn_entry_def command_ok_def)
    ultimately have "vs = []" and "replay True True True d clks (aof_new True (aof_disk a'')) y =
        (length (ds @ ?new), \<lparr>aof_disk = Some (frames (ds @ ?new)), aof_is_open = True\<rparr>,
         run_commands d clks 0 (ds @ ?new) y)"
      using drained disk''
        replay_frames [OF ok, of "aof_new True (aof_disk a'')" torn None True True True d clks y]
      by (simp_all add: aof_new_def)
    with run show ?thesis by simp
  qed
  with run serve_stream_answers [of d rooms late 0 ccs a x] assms(5) show ?thesis
    unfolding Let_def by (auto simp: prod_eq_iff)
qed

theorem full_disk_keeps_prefix_witness:
  "let set_k = \<lparr>cmd_name = ''SET'', cmd_args = [''k'', ''v'']\<rparr>; incr_n = \<lparr>cmd_name = ''INCR'', cmd_args = [''n'']\<rparr>;
       d = make_default (\<lambda>a b. []) False; x = initial_ctx (initial_stats 0);
       a = \<lparr>aof_disk = Some (frames []), aof_is_open = True, stream_good = True\<rparr>;
       ccs = [(set_k, \<lambda>i. 0), (incr_n, \<lambda>i. 1), (set_k, \<lambda>i. 2)];
       (rs, a', x') = serve_stream d (\<lambda>n. if n = 0 then 1000 else 5) (\<lambda>n. []) 0 ccs (a, x)
   in (rs, x') = answer_all d ccs x
      \<and> replay True True True d (\<lambda>n i. 9) (aof_new True (aof_disk (close_stream [] a'))) x =
          (1, \<lparr>aof_disk = Some (frames [set_k]), aof_is_open = True\<rparr>, run_commands d (\<lambda>n i. 9) 0 [set_k] x)"
proof -
  let ?set = "\<lparr>cmd_name = ''SET'', cmd_args = [''k'', ''v'']\<rparr>" and ?incr = "\<lparr>cmd_name = ''INCR'', cmd_args = [''n'']\<rparr>"
  let ?d = "make_default (\<lambda>a b. []) False" and ?x = "initial_ctx (initial_stats 0)"
  let ?a = "\<lparr>aof_disk = Some (frames []), aof_is_open = True, stream_good = True\<rparr>"
  let ?ccs = "[(?set, \<lambda>i. 0), (?incr, \<lambda>i. 1), (?set, \<lambda>i. 2)]" and ?rooms = "\<lambda>n::nat. if n = 0 then 1000 else 5 :: nat"
  obtain rs a' x' where run: "serve_stream ?d ?rooms (\<lambda>n. []) 0 ?ccs (?a, ?x) = (rs, a', x')"
    by (cases "serve_stream ?d ?rooms (\<lambda>n. []) 0 ?ccs (?a, ?x)") auto
  have ok: "\<forall>c\<in>set [] \<union> fst ` set ?ccs. command_ok c"
    by (simp add: command_ok_eval)
  have "length (serialize (command_frame ?set)) \<le> 1000" and "\<not> length (serialize (command_frame ?incr)) \<le> 5"
    by code_simp+
  then have whole: "logged_whole ?rooms 0 (map fst (writes_of ?ccs)) = [?set]"
    by (simp add: writes_of_def is_write_command_def write_commands_def us_count_def)
  from full_disk_keeps_prefix [OF ok _ _ _ run, of "close_stream [] a'" "[]" "\<lambda>n i. 9" ?x] show ?thesis
    unfolding Let_def whole run by (auto simp del: frames_simps)
qed

end
