(* ===== verification/Event_Loop.thy ===== *)
theory Event_Loop
  imports Server_Runs
begin

text \<open>
  The event loop as a program. \<open>Server\<close> describes the running server by a step relation; here the
  choices the outside world makes (which operation completes next, with which bytes, errors and clock
  readings) are a list of actions, and a run is computed from it. Along the way the run reports what
  the clients can tell: which command of which client was answered how, what a connection said on its
  own account, and when the expiry thread swept.
\<close>

section \<open>Definitions\<close>

datatype action =
    AcceptDone accept_result
  | ReadDone nat bool string "nat \<Rightarrow> clock" "nat \<Rightarrow> time_point"
  | WriteDone nat bool
  | IdleFired nat bool bool
  | PostedWrite
  | PollFired bool bool
  | SignalRaised int
  | ExpirySweep time_point
  | Release nat

text \<open>One action, if it can happen now.\<close>

fun perform :: "dispatcher \<Rightarrow> (std_exn \<Rightarrow> string) \<Rightarrow> action \<Rightarrow> server \<Rightarrow> server option" where
  "perform d lib (AcceptDone res) s =
     (if running s \<and> accept_pending s \<and> (res = AcceptAborted \<longrightarrow> stopping s) then Some (on_accept res s) else None)"
| "perform d lib (ReadDone cid ec chunk clks ends) s =
     (case um_find (srv_conns s) cid of
        None \<Rightarrow> None
      | Some conn \<Rightarrow>
          if running s \<and> read_in_progress conn \<and> length chunk \<le> 4096
          then (case on_read_complete d lib clks ec chunk (conn, srv_aof s, srv_ctx s) of
                  (conn', a', x') \<Rightarrow> Some (put_conn cid conn' a' x' s))
          else None)"
| "perform d lib (WriteDone cid ec) s =
     (case um_find (srv_conns s) cid of
        None \<Rightarrow> None
      | Some conn \<Rightarrow>
          if running s \<and> write_in_progress conn
          then Some (put_conn cid (on_write_complete ec (length (write_buf conn)) conn) (srv_aof s) (srv_ctx s) s)
          else None)"
| "perform d lib (IdleFired cid aborted ec) s =
     (case um_find (srv_conns s) cid of
        None \<Rightarrow> None
      | Some conn \<Rightarrow>
          if running s \<and> idle_armed conn
          then Some (put_conn cid (on_idle_timer aborted ec conn) (srv_aof s) (srv_ctx s) s)
          else None)"
| "perform d lib PostedWrite s =
     (case ctx_posted (srv_ctx s) of
        [] \<Rightarrow> None
      | (cid, frame) # rest \<Rightarrow>
          (case um_find (srv_conns s) cid of
             None \<Rightarrow> None
           | Some conn \<Rightarrow>
               if running s
               then Some (put_conn cid (do_write frame conn) (srv_aof s) ((srv_ctx s)\<lparr>ctx_posted := rest\<rparr>) s)
               else None))"
| "perform d lib (PollFired aborted ec) s =
     (if running s \<and> poll_armed s then Some (on_poll_timer aborted ec s) else None)"
| "perform d lib (SignalRaised n) s =
     (if n \<in> set handled_signals then Some (vortek_signal_handler n s) else None)"
| "perform d lib (ExpirySweep now) s =
     Some (s\<lparr>srv_ctx := (srv_ctx s)\<lparr>ctx_store := sweep now (ctx_store (srv_ctx s))\<rparr>\<rparr>)"
| "perform d lib (Release cid) s =
     (case um_find (srv_conns s) cid of
        None \<Rightarrow> None
      | Some conn \<Rightarrow>
          if running s \<and> unreferenced cid conn s
          then Some (s\<lparr>srv_conns := AList.delete cid (srv_conns s), srv_ctx := connection_destroyed conn (srv_ctx s)\<rparr>)
          else None)"

text \<open>
  What a run reports. A command a handler answered comes with the client, the clock readings it
  made, the time it was over and the reply; \<open>Said\<close> is an answer of the connection itself (\<^verbatim>\<open>AUTH\<close>, \<^verbatim>\<open>NOAUTH\<close>,
  protocol errors); \<open>Registered\<close> is a \<^verbatim>\<open>SUBSCRIBE\<close> or \<^verbatim>\<open>UNSUBSCRIBE\<close>, which writes its own confirmations.
\<close>

datatype event =
    Answered nat command clock time_point reply
  | Said nat string
  | Registered nat command
  | Swept time_point

fun client_of :: "event \<Rightarrow> nat option" where
  "client_of (Answered cid c clk t r) = Some cid"
| "client_of (Said cid txt) = Some cid"
| "client_of (Registered cid c) = Some cid"
| "client_of (Swept t) = None"

fun command_event :: "dispatcher \<Rightarrow> clock \<Rightarrow> time_point \<Rightarrow> command \<Rightarrow> conn_state \<Rightarrow> event" where
  "command_event d clk t c (conn, a, x) =
     (if cmd_name c = ''AUTH'' \<or> \<not> authenticated conn
      then Said (conn_id conn) (fst (snd (handle_command d clk c (conn, a, x))))
      else if cmd_name c = ''SUBSCRIBE'' \<or> cmd_name c = ''UNSUBSCRIBE'' then Registered (conn_id conn) c
      else Answered (conn_id conn) c clk t (fst (dispatch d c clk x)))"

text \<open>The reports of the loop in \<^verbatim>\<open>handle_data\<close>, round by round.\<close>

function loop_events ::
  "dispatcher \<Rightarrow> (std_exn \<Rightarrow> string) \<Rightarrow> (nat \<Rightarrow> clock) \<Rightarrow> (nat \<Rightarrow> time_point) \<Rightarrow> nat \<Rightarrow> string \<Rightarrow> string
     \<Rightarrow> conn_state \<Rightarrow> event list" where
  "loop_events d lib clks ends n buf chunk st =
     (case feed buf chunk of
        (Inl ex, buf') \<Rightarrow> [Said (conn_id (fst st)) (serialize (RespError (''ERR '' @ what_of lib ex)))]
      | (Inr None, buf') \<Rightarrow> []
      | (Inr (Some val), buf') \<Rightarrow>
          (case parse_command val of
             None \<Rightarrow> [Said (conn_id (fst st)) (serialize (RespError ''ERR protocol error: expected command array''))]
           | Some c \<Rightarrow>
               command_event d (clks n) (ends n) c st #
               (case handle_command d (clks n) c st of
                  (Some ex, out, st') \<Rightarrow> []
                | (None, out, st') \<Rightarrow> loop_events d lib clks ends (Suc n) buf' [] st')))"
  by pat_completeness auto

termination
  by (relation "measure (\<lambda>(d, lib, clks, ends, n, buf, chunk, st). length buf + length chunk)")
     (auto dest!: feed_shrinks [OF sym])

declare loop_events.simps [simp del]

definition read_events ::
  "dispatcher \<Rightarrow> (std_exn \<Rightarrow> string) \<Rightarrow> (nat \<Rightarrow> clock) \<Rightarrow> (nat \<Rightarrow> time_point) \<Rightarrow> string \<Rightarrow> conn_state \<Rightarrow> event list" where
  "read_events d lib clks ends chunk st =
     (let conn = fst st in
      if buffered_size (parser_buf conn) + length chunk > max_request_bytes conn
      then [Said (conn_id conn) (serialize (RespError ''ERR max request size exceeded''))]
      else loop_events d lib clks ends 0 (parser_buf conn) chunk st)"

fun action_events :: "dispatcher \<Rightarrow> (std_exn \<Rightarrow> string) \<Rightarrow> action \<Rightarrow> server \<Rightarrow> event list" where
  "action_events d lib (ReadDone cid ec chunk clks ends) s =
     (case um_find (srv_conns s) cid of
        None \<Rightarrow> []
      | Some conn \<Rightarrow>
          if ec then []
          else read_events d lib clks ends chunk
                 (reset_idle_timer (conn\<lparr>read_in_progress := False\<rparr>), srv_aof s, srv_ctx s))"
| "action_events d lib (ExpirySweep now) s = [Swept now]"
| "action_events d lib act s = []"

fun play :: "dispatcher \<Rightarrow> (std_exn \<Rightarrow> string) \<Rightarrow> action list \<Rightarrow> server \<Rightarrow> (event list \<times> server) option" where
  "play d lib [] s = Some ([], s)"
| "play d lib (act # acts) s =
     (case perform d lib act s of
        None \<Rightarrow> None
      | Some s' \<Rightarrow>
          (case play d lib acts s' of
             None \<Rightarrow> None
           | Some (es, s'') \<Rightarrow> Some (action_events d lib act s @ es, s'')))"

section \<open>The program and the step relation\<close>

lemma perform_step:
  assumes "perform d lib act s = Some s'"
  shows "server_step d lib s s'"
  using assms
  by (cases act) (auto split: if_splits option.splits list.splits prod.splits intro: server_step.intros)

lemma step_perform:
  assumes "server_step d lib s s'"
  obtains act where "perform d lib act s = Some s'"
  using assms
proof cases
  case (accept_done res)
  then show ?thesis by (intro that [of "AcceptDone res"]) simp
next
  case (read_done cid conn chunk clks ec conn' a' x')
  then show ?thesis by (intro that [of "ReadDone cid ec chunk clks (\<lambda>n. 0)"]) simp
next
  case (write_done cid conn ec)
  then show ?thesis by (intro that [of "WriteDone cid ec"]) simp
next
  case (idle_fired cid conn aborted ec)
  then show ?thesis by (intro that [of "IdleFired cid aborted ec"]) simp
next
  case (posted_write cid frame rest conn)
  then show ?thesis by (intro that [of PostedWrite]) simp
next
  case (poll_fired aborted ec)
  then show ?thesis by (intro that [of "PollFired aborted ec"]) simp
next
  case (signal_raised n)
  then show ?thesis by (intro that [of "SignalRaised n"]) simp
next
  case (expiry_sweep now)
  then show ?thesis by (intro that [of "ExpirySweep now"]) simp
next
  case (conn_destroyed cid conn)
  then show ?thesis by (intro that [of "Release cid"]) simp
qed

lemma play_append:
  "play d lib (acts @ acts') s =
     (case play d lib acts s of
        None \<Rightarrow> None
      | Some (es, s') \<Rightarrow> map_option (\<lambda>(es', s''). (es @ es', s'')) (play d lib acts' s'))"
  by (induction acts arbitrary: s) (auto simp: option.map_id [unfolded id_def] split_def split: option.splits)

lemma play_reachable:
  assumes "play d lib acts s = Some (es, s')"
  shows "reachable d lib s s'"
  using assms
  by (induction acts arbitrary: s es)
    (auto split: option.splits intro: converse_rtranclp_into_rtranclp perform_step)

lemma reachable_play:
  assumes "reachable d lib s s'"
  obtains acts es where "play d lib acts s = Some (es, s')"
proof -
  from assms have "\<exists>acts es. play d lib acts s = Some (es, s')"
  proof (induction rule: rtranclp_induct)
    case base
    show ?case by (rule exI [of _ "[]"]) simp
  next
    case (step s1 s2)
    then obtain acts es act where "play d lib acts s = Some (es, s1)" and "perform d lib act s1 = Some s2"
      by (auto elim: step_perform)
    then show ?case by (intro exI [of _ "acts @ [act]"]) (simp add: play_append)
  qed
  then show ?thesis using that by blast
qed

section \<open>Reports and output\<close>

text \<open>What an event adds to the output of its client.\<close>

fun event_text :: "(std_exn \<Rightarrow> string) \<Rightarrow> event \<Rightarrow> string" where
  "event_text lib (Answered cid c clk t (Inl ex)) = serialize (RespError (''ERR '' @ what_of lib ex))"
| "event_text lib (Answered cid c clk t (Inr v)) = serialize v"
| "event_text lib (Said cid txt) = txt"
| "event_text lib (Registered cid c) = []"
| "event_text lib (Swept t) = []"

definition exn_text :: "(std_exn \<Rightarrow> string) \<Rightarrow> cpp_exn option \<Rightarrow> string" where
  "exn_text lib exn = (case exn of None \<Rightarrow> [] | Some ex \<Rightarrow> serialize (RespError (''ERR '' @ what_of lib ex)))"

lemma loop_events_round:
  assumes "feed buf chunk = (Inr (Some val), buf')"
  shows "loop_events d lib clks ends n buf chunk st =
    (case parse_command val of
       None \<Rightarrow> [Said (conn_id (fst st)) (serialize (RespError ''ERR protocol error: expected command array''))]
     | Some c \<Rightarrow>
         command_event d (clks n) (ends n) c st #
         (case handle_command d (clks n) c st of
            (Some ex, out, st') \<Rightarrow> []
          | (None, out, st') \<Rightarrow> loop_events d lib clks ends (Suc n) buf' [] st'))"
  by (subst loop_events.simps) (simp only: assms prod.case sum.case option.case)

lemma loop_events_stop:
  assumes "drain (buf @ chunk) = ([], exn, rest)"
  shows "loop_events d lib clks ends n buf chunk st =
    (case exn of None \<Rightarrow> [] | Some ex \<Rightarrow> [Said (conn_id (fst st)) (exn_text lib exn)])"
proof -
  have feed: "feed (buf @ chunk) [] = feed buf chunk"
    by (simp add: feed_def)
  from assms show ?thesis
    by (subst (asm) drain.simps, subst loop_events.simps)
      (auto simp: feed exn_text_def split: prod.splits sum.splits option.splits)
qed

text \<open>
  An induction over the rounds of the loop: the parser stops, delivers something that is no command,
  or delivers a command that throws or is followed by the rest of the loop.
\<close>

lemma handle_loop_induct [case_names stop bad thrown more]:
  assumes "\<And>n buf chunk st exn rest. drain (buf @ chunk) = ([], exn, rest) \<Longrightarrow> P n buf chunk st"
    and "\<And>n buf chunk st v buf'. feed buf chunk = (Inr (Some v), buf') \<Longrightarrow> parse_command v = None \<Longrightarrow> P n buf chunk st"
    and "\<And>n buf chunk st v buf' c ex out st'. feed buf chunk = (Inr (Some v), buf') \<Longrightarrow> parse_command v = Some c \<Longrightarrow>
      handle_command d (clks n) c st = (Some ex, out, st') \<Longrightarrow> P n buf chunk st"
    and "\<And>n buf chunk st v buf' c out st'. feed buf chunk = (Inr (Some v), buf') \<Longrightarrow> parse_command v = Some c \<Longrightarrow>
      handle_command d (clks n) c st = (None, out, st') \<Longrightarrow> P (Suc n) buf' [] st' \<Longrightarrow> P n buf chunk st"
  shows "P n buf chunk st"
proof -
  obtain vs exn rest where "drain (buf @ chunk) = (vs, exn, rest)"
    by (cases "drain (buf @ chunk)")
  then show ?thesis
  proof (induction vs arbitrary: n buf chunk st)
    case Nil
    then show ?case by (rule assms(1))
  next
    case (Cons v vs n buf chunk st)
    obtain buf' where f: "feed buf chunk = (Inr (Some v), buf')" and "drain (buf' @ []) = (vs, exn, rest)"
      using handle_loop_feed [OF Cons.prems] by (metis append_Nil2)
    note IH = Cons.IH [OF this(2)]
    show ?case
    proof (cases "parse_command v")
      case None
      with f show ?thesis by (rule assms(2))
    next
      case (Some c)
      obtain exn' out st' where h: "handle_command d (clks n) c st = (exn', out, st')"
        by (cases "handle_command d (clks n) c st")
      show ?thesis
      proof (cases exn')
        case None
        with h assms(4) [OF f Some _ IH] show ?thesis by simp
      next
        case (Some ex)
        with h assms(3) [OF f \<open>parse_command v = Some c\<close>] show ?thesis by simp
      qed
    qed
  qed
qed

text \<open>The text of one event is what its command adds to the responses.\<close>

lemma command_event_text:
  "handle_command d clk c st = (exn, out, st') \<Longrightarrow>
     event_text lib (command_event d clk t c st) = out @ exn_text lib exn"
  by (cases st)
    (auto simp: handle_command_def execute_logged_def exn_text_def Let_def split_def
      split: if_splits sum.splits prod.splits)

lemma loop_events_text:
  "handle_loop d clks n buf chunk resp st = (exn, buf', out, st') \<Longrightarrow>
     out @ exn_text lib exn = resp @ concat (map (event_text lib) (loop_events d lib clks ends n buf chunk st))"
proof (induction n buf chunk st arbitrary: resp rule: handle_loop_induct [where d = d and clks = clks])
  case (stop n buf chunk st exn rest)
  then show ?case
    by (auto simp: handle_loop_stop loop_events_stop exn_text_def split: option.splits)
next
  case (bad n buf chunk st v buf1)
  then show ?case by (auto simp: handle_loop_round loop_events_round exn_text_def)
next
  case (thrown n buf chunk st v buf1 c ex out1 st1)
  then show ?case
    using command_event_text [OF thrown(3), where lib = lib and t = "ends n"]
    by (auto simp: handle_loop_round loop_events_round)
next
  case (more n buf chunk st v buf1 c out1 st1)
  then show ?case
    using command_event_text [OF more(3), where lib = lib and t = "ends n"]
    by (auto simp: handle_loop_round loop_events_round exn_text_def)
qed

text \<open>All events of a read are of its connection.\<close>

lemma command_event_client: "client_of (command_event d clk t c st) = Some (conn_id (fst st))"
  by (cases st) simp

lemma loop_events_client:
  "e \<in> set (loop_events d lib clks ends n buf chunk st) \<Longrightarrow> client_of e = Some (conn_id (fst st))"
proof (induction n buf chunk st rule: handle_loop_induct [where d = d and clks = clks])
  case (stop n buf chunk st exn rest)
  then show ?case by (auto simp: loop_events_stop split: option.splits)
next
  case (bad n buf chunk st v buf1)
  then show ?case by (auto simp: loop_events_round)
next
  case (thrown n buf chunk st v buf1 c ex out1 st1)
  then show ?case by (auto simp: loop_events_round command_event_client)
next
  case (more n buf chunk st v buf1 c out1 st1)
  have "conn_id (fst st1) = conn_id (fst st)"
    using handle_command_setup [of st d "clks n" c] more(3) by (simp add: same_setup_def)
  with more show ?case by (auto simp: loop_events_round command_event_client)
qed

lemma read_events_client:
  "e \<in> set (read_events d lib clks ends chunk st) \<Longrightarrow> client_of e = Some (conn_id (fst st))"
  by (auto simp: read_events_def Let_def split: if_splits dest: loop_events_client)

text \<open>
  A read without \<^verbatim>\<open>SUBSCRIBE\<close> and \<^verbatim>\<open>UNSUBSCRIBE\<close> leaves of the connection's output exactly what it reports, in
  one piece at the end of what was there.
\<close>

definition unregistered :: "nat \<Rightarrow> event list \<Rightarrow> bool" where
  "unregistered cid es \<longleftrightarrow> (\<forall>c. Registered cid c \<notin> set es)"

lemma unregistered_simps [simp]:
  "unregistered cid []" "unregistered cid (es @ es') \<longleftrightarrow> unregistered cid es \<and> unregistered cid es'"
  "unregistered cid (e # es) \<longleftrightarrow> (\<forall>c. e \<noteq> Registered cid c) \<and> unregistered cid es"
  by (auto simp: unregistered_def)

lemma handle_command_unregistered:
  assumes "\<forall>c'. command_event d clk t c (conn, a, x) \<noteq> Registered (conn_id conn) c'"
  shows "\<exists>au. fst (snd (snd (handle_command d clk c (conn, a, x)))) = conn\<lparr>authenticated := au\<rparr>"
proof -
  have same: "conn\<lparr>authenticated := authenticated conn\<rparr> = conn"
    by simp
  have "snd (handle_auth c conn) \<in> {conn, conn\<lparr>authenticated := True\<rparr>}"
    by (simp add: handle_auth_def)
  then have "fst (snd (snd (handle_command d clk c (conn, a, x)))) \<in> {conn, conn\<lparr>authenticated := True\<rparr>}"
    using assms by (auto simp: handle_command_def split_def split: if_splits sum.split)
  then show ?thesis
    using same by (metis insertE singletonD)
qed

lemma handle_loop_unregistered:
  assumes "unregistered (conn_id (fst st)) (loop_events d lib clks ends n buf chunk st)"
  shows "\<exists>au. fst (snd (snd (snd (handle_loop d clks n buf chunk resp st)))) = fst st\<lparr>authenticated := au\<rparr>"
  using assms
proof (induction n buf chunk st arbitrary: resp rule: handle_loop_induct [where d = d and clks = clks])
  case (stop n buf chunk st exn rest)
  then show ?case
    by (auto simp: handle_loop_stop intro: exI [of _ "authenticated (fst st)"])
next
  case (bad n buf chunk st v buf1)
  then show ?case
    by (auto simp: handle_loop_round intro: exI [of _ "authenticated (fst st)"])
next
  case (thrown n buf chunk st v buf1 c ex out1 st1)
  then show ?case
    using handle_command_unregistered [of d "clks n" "ends n" c "fst st" "fst (snd st)" "snd (snd st)"]
    by (simp add: handle_loop_round loop_events_round)
next
  case (more n buf chunk st v buf1 c out1 st1)
  obtain au where au: "fst st1 = fst st\<lparr>authenticated := au\<rparr>"
    using handle_command_unregistered [of d "clks n" "ends n" c "fst st" "fst (snd st)" "snd (snd st)"] more
    by (auto simp: loop_events_round)
  from more.IH [of "resp @ out1"] more show ?case
    by (auto simp: handle_loop_round loop_events_round au)
qed

lemma accepted_do_write_open: "socket_open (do_write w conn) \<Longrightarrow> accepted (do_write w conn) = accepted conn @ [w]"
  by (auto simp: accepted_do_write) (auto simp: conn_io_defs split: if_splits)

lemma accepted_fields [simp]:
  "accepted (conn\<lparr>authenticated := au\<rparr>) = accepted conn" "accepted (conn\<lparr>parser_buf := b\<rparr>) = accepted conn"
  "accepted (conn\<lparr>close_after_write := cl\<rparr>) = accepted conn" "accepted (conn\<lparr>read_in_progress := rd\<rparr>) = accepted conn"
  "accepted (do_read conn) = accepted conn" "accepted (reset_idle_timer conn) = accepted conn"
  "accepted (close_socket conn) = accepted conn" "accepted (on_idle_timer aborted ec conn) = accepted conn"
  by (simp_all add: accepted_def conn_io_defs)

lemma handle_data_output:
  assumes "unregistered (conn_id conn) (read_events d lib clks ends chunk (conn, a, x))"
    and "socket_open (fst (handle_data d lib clks chunk (conn, a, x)))"
  shows "concat (accepted (fst (handle_data d lib clks chunk (conn, a, x)))) =
    concat (accepted conn) @ concat (map (event_text lib) (read_events d lib clks ends chunk (conn, a, x)))"
proof (cases "buffered_size (parser_buf conn) + length chunk > max_request_bytes conn")
  case True
  with assms(2) show ?thesis
    by (simp add: handle_data_def read_events_def accepted_do_write_open)
next
  case False
  then have events: "read_events d lib clks ends chunk (conn, a, x) = loop_events d lib clks ends 0 (parser_buf conn) chunk (conn, a, x)"
    by (simp add: read_events_def)
  obtain exn buf out conn' a' x'
    where loop: "handle_loop d clks 0 (parser_buf conn) chunk [] (conn, a, x) = (exn, buf, out, conn', a', x')"
    by (cases "handle_loop d clks 0 (parser_buf conn) chunk [] (conn, a, x)")
  obtain au where conn': "conn' = conn\<lparr>authenticated := au\<rparr>"
    using handle_loop_unregistered [of "(conn, a, x)" d lib clks ends 0 "parser_buf conn" chunk "[]"] assms(1) events loop
    by auto
  define w where "w = out @ exn_text lib exn"
  define buf2 where "buf2 = (if exn = None then buf else [])"
  have "handle_data d lib clks chunk (conn, a, x) =
      (if w \<noteq> [] then do_write w (conn'\<lparr>parser_buf := buf2\<rparr>) else do_read (conn'\<lparr>parser_buf := buf2\<rparr>), a', x')"
    using False loop by (cases exn) (simp_all add: handle_data_def w_def buf2_def exn_text_def reset_def Let_def)
  moreover have "w = concat (map (event_text lib) (read_events d lib clks ends chunk (conn, a, x)))"
    using loop_events_text [OF loop, of lib ends] by (simp add: events w_def)
  ultimately show ?thesis
    using assms(2) by (auto simp: conn' accepted_do_write_open simp del: concat_eq_Nil_conv split: if_splits)
qed

end
