(* ===== verification/Output_Order.thy ===== *)
theory Output_Order
  imports Server_Runs "HOL-Library.Sublist"
begin

text \<open>
  The output side of the connections over whole runs of the server. Replies, confirmations and published
  messages reach a connection from different handlers; this theory shows that they go out in the
  order in which they were handed over, and that no handler touches the buffer of a write that
  is under way, which \<^verbatim>\<open>asio::async_write\<close> requires.
\<close>

section \<open>Definitions\<close>

text \<open>
  What handlers other than the completion of a write may do to the output of a connection: hand over
  more, and start a write only if none is under way. The buffer of a write under way is the one started last.
\<close>

definition flight_ok :: "connection \<Rightarrow> bool" where
  "flight_ok conn \<longleftrightarrow> (write_in_progress conn \<longrightarrow> async_writes conn \<noteq> [] \<and> last (async_writes conn) = write_buf conn)"

definition output_grows :: "connection \<Rightarrow> connection \<Rightarrow> bool" where
  "output_grows conn conn' \<longleftrightarrow> prefix (accepted conn) (accepted conn')
     \<and> prefix (async_writes conn) (async_writes conn')
     \<and> (write_in_progress conn \<longrightarrow> write_in_progress conn' \<and> write_buf conn' = write_buf conn
          \<and> async_writes conn' = async_writes conn)
     \<and> (flight_ok conn \<longrightarrow> flight_ok conn')"

text \<open>
  An address is never given to a second connection, and the connection that has it has handed over at
  least \<open>acc\<close> and started at least \<open>snt\<close>.
\<close>

definition output_from :: "nat \<Rightarrow> string list \<Rightarrow> string list \<Rightarrow> server \<Rightarrow> bool" where
  "output_from cid acc snt s \<longleftrightarrow> cid < srv_next_id s
     \<and> (\<forall>conn. um_find (srv_conns s) cid = Some conn \<longrightarrow>
          prefix acc (accepted conn) \<and> prefix snt (async_writes conn))"

section \<open>Handlers of a connection\<close>

lemma output_grows_refl [simp]: "output_grows conn conn"
  by (simp add: output_grows_def)

lemma output_grows_trans: "output_grows a b \<Longrightarrow> output_grows b c \<Longrightarrow> output_grows a c"
  by (auto simp: output_grows_def)

text \<open>Only four fields matter.\<close>

lemma output_grows_fields:
  assumes "async_writes conn' = async_writes conn" and "write_queue conn' = write_queue conn"
    and "write_in_progress conn' = write_in_progress conn" and "write_buf conn' = write_buf conn"
  shows "output_grows conn conn'"
  using assms by (simp add: output_grows_def accepted_def flight_ok_def)

lemma output_grows_do_write: "output_grows conn (do_write w conn)"
  using accepted_do_write [of w conn]
  by (auto simp: output_grows_def) (auto simp: conn_io_defs flight_ok_def)

lemma output_grows_primitives:
  "output_grows conn (do_read conn)" "output_grows conn (reset_idle_timer conn)"
  "output_grows conn (close_socket conn)" "output_grows conn (on_idle_timer aborted ec conn)"
  by (rule output_grows_fields; simp add: conn_io_defs)+

lemma output_grows_do_write_upd:
  assumes "output_grows conn conn'"
  shows "output_grows conn (do_write w conn')"
  using assms output_grows_do_write by (rule output_grows_trans)

lemma output_grows_channels: "output_grows conn (conn\<lparr>subscribed_channels := sc\<rparr>)"
  by (rule output_grows_fields) simp_all

lemma output_grows_command: "output_grows (fst st) (fst (snd (snd (handle_command d clk c st))))"
proof -
  obtain conn a x where st: "st = (conn, a, x)" by (cases st)
  have "output_grows conn (fst (handle_subscribe c conn x))"
    by (rule handle_subscribe_conn [of c conn x])
      (simp add: output_grows_do_write_upd [OF output_grows_channels])
  moreover have "output_grows conn (fst (handle_unsubscribe c conn x))"
    by (rule handle_unsubscribe_conn [of c conn x])
      (simp_all add: output_grows_do_write_upd [OF output_grows_channels] output_grows_primitives)
  moreover have "output_grows conn (snd (handle_auth c conn))"
    by (rule output_grows_fields) (simp_all add: handle_auth_def)
  ultimately show ?thesis
    by (auto simp: st handle_command_def split: prod.splits sum.splits)
qed

lemma output_grows_read:
  "output_grows conn (fst (on_read_complete d lib clks ec chunk (conn, a, x)))"
proof -
  have loop: "output_grows (fst st) (fst (snd (snd (snd (handle_loop d clks n buf chunk resp st)))))" for n buf resp st
    by (rule handle_loop_invariant) (auto intro: output_grows_trans [OF _ output_grows_command])
  have data: "output_grows conn (fst (handle_data d lib clks chunk (conn, a, x)))" for conn
  proof (cases "buffered_size (parser_buf conn) + length chunk > max_request_bytes conn")
    case True
    then show ?thesis
      by (simp add: handle_data_def) (rule output_grows_do_write_upd, rule output_grows_fields, simp_all)
  next
    case False
    obtain exn buf out conn' a' x' where run:
        "handle_loop d clks 0 (parser_buf conn) chunk [] (conn, a, x) = (exn, buf, out, conn', a', x')"
      by (cases "handle_loop d clks 0 (parser_buf conn) chunk [] (conn, a, x)") auto
    then have "output_grows conn conn'"
      using loop [of "(conn, a, x)" 0 "parser_buf conn" "[]"] by simp
    then have buf: "output_grows conn (conn'\<lparr>parser_buf := b\<rparr>)" for b
      by (rule output_grows_trans) (rule output_grows_fields, simp_all)
    with False run show ?thesis
      by (cases exn)
        (auto simp: handle_data_def Let_def output_grows_do_write_upd
          intro: output_grows_trans [OF buf output_grows_primitives(1)])
  qed
  have "output_grows conn (reset_idle_timer (conn\<lparr>read_in_progress := False\<rparr>))"
    "output_grows conn (close_socket (conn\<lparr>read_in_progress := False\<rparr>))"
    by (rule output_grows_fields; simp add: conn_io_defs)+
  then show ?thesis
    using output_grows_trans [OF _ data] by (simp add: on_read_complete_def Let_def)
qed

lemma output_write_complete:
  "prefix (accepted conn) (accepted (on_write_complete ec n conn))"
  "prefix (async_writes conn) (async_writes (on_write_complete ec n conn))"
  by (simp_all add: accepted_write_complete) (auto simp: conn_io_defs)

section \<open>Steps of the server\<close>

text \<open>
  One step and one connection that is there before and after it: the step completes the write
  of this connection, or its output grows.
\<close>

lemma step_output:
  assumes step: "server_step d lib s s'" and old: "um_find (srv_conns s) cid = Some conn"
    and new: "um_find (srv_conns s') cid = Some conn'" and id: "cid < srv_next_id s"
  obtains (completed) ec where "write_in_progress conn" "conn' = on_write_complete ec (length (write_buf conn)) conn"
  | (grows) "output_grows conn conn'"
proof -
  from step show ?thesis
  proof cases
    case (accept_done res)
    then show ?thesis
      using old new on_accept_conns [OF id] grows by simp
  next
    case (read_done c conn1 chunk clks ec conn2 a2 x2)
    then have "output_grows conn1 conn2"
      using output_grows_read [of conn1 d lib clks ec chunk "srv_aof s" "srv_ctx s"] by simp
    with read_done old new grows show ?thesis
      by (cases "c = cid") (auto simp: put_conn_def update_conv)
  next
    case (write_done c conn1 ec)
    show ?thesis
    proof (cases "c = cid")
      case True
      with write_done old have "conn1 = conn" by simp
      with write_done True new have "conn' = on_write_complete ec (length (write_buf conn)) conn"
        by (simp add: put_conn_def)
      then show ?thesis
        using write_done \<open>conn1 = conn\<close> by (intro completed [of ec]) simp_all
    next
      case False
      with write_done old new have "conn' = conn" by (simp add: put_conn_def)
      then show ?thesis by (simp add: grows)
    qed
  next
    case (idle_fired c conn1 aborted ec)
    with old new grows output_grows_primitives(4) show ?thesis
      by (cases "c = cid") (auto simp: put_conn_def update_conv)
  next
    case (posted_write c frame rest conn1)
    with old new grows output_grows_do_write show ?thesis
      by (cases "c = cid") (auto simp: put_conn_def update_conv)
  next
    case (poll_fired aborted ec)
    with old new grows show ?thesis by (simp add: on_poll_timer_conns)
  next
    case (conn_destroyed c conn1)
    with old new grows show ?thesis by (cases "c = cid") (auto simp: delete_conv')
  qed (use old new grows in \<open>auto simp: vortek_signal_handler_def\<close>)
qed

lemma step_next_id: "server_step d lib s s' \<Longrightarrow> srv_next_id s \<le> srv_next_id s'"
  by (erule server_stepE) (auto simp: server_update_defs split: accept_result.split)

lemma step_no_new:
  assumes "server_step d lib s s'" and "um_find (srv_conns s) cid = None" and "cid < srv_next_id s"
  shows "um_find (srv_conns s') cid = None"
  using assms(1)
proof cases
  case (accept_done res)
  then show ?thesis using assms(2) on_accept_conns [OF assms(3)] by simp
qed (use assms(2) in \<open>auto simp: put_conn_def update_conv vortek_signal_handler_def on_poll_timer_conns delete_conv'\<close>)

lemma step_output_from:
  assumes step: "server_step d lib s s'" and before: "output_from cid acc snt s"
  shows "output_from cid acc snt s'"
proof -
  have id: "cid < srv_next_id s"
    using before by (simp add: output_from_def)
  have "prefix acc (accepted conn') \<and> prefix snt (async_writes conn')"
    if new: "um_find (srv_conns s') cid = Some conn'" for conn'
  proof -
    obtain conn where old: "um_find (srv_conns s) cid = Some conn"
      using step_no_new [OF step _ id] new by fastforce
    with before have "prefix acc (accepted conn)" "prefix snt (async_writes conn)"
      by (simp_all add: output_from_def)
    then show ?thesis
      by (rule_tac step_output [OF step old new id])
        (use output_write_complete [of conn] in \<open>auto simp: output_grows_def intro: prefix_order.trans\<close>)
  qed
  with step_next_id [OF step] id show ?thesis
    by (simp add: output_from_def)
qed

interpretation outgoing: preserved "server_step d lib" "output_from cid acc snt" for d lib cid acc snt
  by unfold_locales (rule step_output_from)

section \<open>Properties\<close>

text \<open>
  C11: Output stays in order. Take any two moments of a run of the server and a connection that exists at
  both. What had been handed over for writing at the first moment, by replies, confirmations and
  published messages alike, is at the second still the beginning of what has been handed over; what had been
  started stays the beginning of what has been started; and what has been started is always
  a beginning of what has been handed over. So every message goes out whole, at most once and in order.
\<close>

theorem output_in_order:
  assumes "main_boot parse_file disk can_open can_read can_resize can_reopen can_bind (make_default double_div True) now clks args = Inr s0"
    and "reachable (make_default double_div True) lib s0 s" and "reachable (make_default double_div True) lib s s'"
    and "um_find (srv_conns s) cid = Some conn" and "um_find (srv_conns s') cid = Some conn'"
  shows "prefix (accepted conn) (accepted conn') \<and> prefix (async_writes conn) (async_writes conn')
    \<and> prefix (async_writes conn') (accepted conn')"
proof -
  have "server_inv s"
    by (rule srv.run_keeps [OF assms(2) main_boot_inv [OF assms(1)]])
  then have "output_from cid (accepted conn) (async_writes conn) s"
    using server_inv_entry [OF _ assms(4)] assms(4) by (simp add: output_from_def conn_entry_ok_def)
  from outgoing.run_keeps [OF assms(3) this] assms(5) show ?thesis
    by (simp add: output_from_def accepted_def)
qed

theorem output_in_order_witness:
  "\<exists>conn'. um_find (srv_conns example_left) 0 = Some conn'
    \<and> prefix [make_subscribe_reply ''subscribe'' ''news'' 1] (accepted conn')"
proof -
  obtain conn where conn: "um_find (srv_conns example_subscribed) 0 = Some conn"
      "accepted conn = [make_subscribe_reply ''subscribe'' ''news'' 1]"
    using example_subscribed_conn by blast
  obtain conn' where "um_find (srv_conns example_left) 0 = Some conn'"
    using example_left(2) by blast
  moreover have "reachable example_table (\<lambda>e. []) example_subscribed example_left"
    using example_steps(2) by (rule r_into_rtranclp)
  ultimately show ?thesis
    using output_in_order [OF example_boot example_steps(1) _ conn(1)] conn(2) by simp
qed

text \<open>
  C12: The buffer of a write under way is not touched. While an asynchronous write of a connection is in
  progress, any step of the server other than its completion leaves the buffer as it is, starts
  no second write on the socket and leaves the write in progress.
\<close>

theorem write_buffer_stable:
  assumes "main_boot parse_file disk can_open can_read can_resize can_reopen can_bind (make_default double_div True) now clks args = Inr s0"
    and "reachable (make_default double_div True) lib s0 s" and "server_step (make_default double_div True) lib s s'"
    and "um_find (srv_conns s) cid = Some conn" and "um_find (srv_conns s') cid = Some conn'"
    and "write_in_progress conn"
  shows "(\<exists>ec. conn' = on_write_complete ec (length (write_buf conn)) conn)
    \<or> (write_in_progress conn' \<and> write_buf conn' = write_buf conn \<and> async_writes conn' = async_writes conn)"
proof -
  have "server_inv s"
    by (rule srv.run_keeps [OF assms(2) main_boot_inv [OF assms(1)]])
  then have "cid < srv_next_id s"
    using server_inv_entry [OF _ assms(4)] by (simp add: conn_entry_ok_def)
  then show ?thesis
    using assms(6) by (cases rule: step_output [OF assms(3-5)]) (auto simp: output_grows_def)
qed

theorem write_buffer_stable_witness:
  "\<exists>conn conn'. um_find (srv_conns example_subscribed) 0 = Some conn
    \<and> um_find (srv_conns example_left) 0 = Some conn'
    \<and> ((\<exists>ec. conn' = on_write_complete ec (length (write_buf conn)) conn)
        \<or> (write_in_progress conn' \<and> write_buf conn' = write_buf conn \<and> async_writes conn' = async_writes conn))"
proof -
  obtain conn where conn: "um_find (srv_conns example_subscribed) 0 = Some conn" "write_in_progress conn"
    using example_subscribed_conn by blast
  obtain conn' where conn': "um_find (srv_conns example_left) 0 = Some conn'"
    using example_left(2) by blast
  from write_buffer_stable [OF example_boot example_steps conn(1) conn' conn(2)] conn(1) conn' show ?thesis
    by blast
qed

end
