(* ===== verification/Message_Delivery.thy ===== *)
theory Message_Delivery
  imports Output_Order Event_Loop
begin

text \<open>
  From \<^verbatim>\<open>PUBLISH\<close> to the socket. \<^verbatim>\<open>PUBLISH\<close> posts one frame for every subscriber to the event
  loop (\<open>Pubsub_Cmds\<close>), and the loop hands the frames to the connections later, between all the other things
  it does. This theory keeps an account, for one connection along a run, of the frames posted for it, the frames
  handed over to it and what it writes on its own account, and shows that the account is balanced at
  every moment at which the connection is open: no frame is lost, none comes twice, none overtakes another.
\<close>

section \<open>Definitions\<close>

text \<open>The frames on their way to a connection, and what it has accepted for writing.\<close>

definition pending_for :: "nat \<Rightarrow> server_ctx \<Rightarrow> string list" where
  "pending_for cid x = map snd (filter (\<lambda>(c, frame). c = cid) (ctx_posted x))"

definition output_of :: "nat \<Rightarrow> server \<Rightarrow> string list" where
  "output_of cid s = (case um_find (srv_conns s) cid of None \<Rightarrow> [] | Some conn \<Rightarrow> accepted conn)"

text \<open>
  What an action means for a connection: the head of the queue of posted writes is handed over to it;
  a read, of any connection, posts frames for it; its own read writes replies and confirmations.
\<close>

datatype movement = Published string | Handed string | Own string

fun movements :: "nat \<Rightarrow> action \<Rightarrow> server \<Rightarrow> server \<Rightarrow> movement list" where
  "movements cid PostedWrite s s' =
     (case ctx_posted (srv_ctx s) of
        [] \<Rightarrow> []
      | (c, frame) # rest \<Rightarrow> if c = cid then [Handed frame] else [])"
| "movements cid (ReadDone c ec chunk clks ends) s s' =
     map Published (drop (length (pending_for cid (srv_ctx s))) (pending_for cid (srv_ctx s')))
     @ (if c = cid then map Own (drop (length (output_of cid s)) (output_of cid s')) else [])"
| "movements cid act s s' = []"

fun traffic :: "dispatcher \<Rightarrow> (std_exn \<Rightarrow> string) \<Rightarrow> nat \<Rightarrow> action list \<Rightarrow> server \<Rightarrow> movement list" where
  "traffic d lib cid [] s = []"
| "traffic d lib cid (act # acts) s =
     (case perform d lib act s of
        None \<Rightarrow> []
      | Some s' \<Rightarrow> movements cid act s s' @ traffic d lib cid acts s')"

definition published :: "movement list \<Rightarrow> string list" where
  "published ms = concat (map (\<lambda>m. case m of Published w \<Rightarrow> [w] | Handed w \<Rightarrow> [] | Own w \<Rightarrow> []) ms)"

definition handed :: "movement list \<Rightarrow> string list" where
  "handed ms = concat (map (\<lambda>m. case m of Published w \<Rightarrow> [] | Handed w \<Rightarrow> [w] | Own w \<Rightarrow> []) ms)"

definition written :: "movement list \<Rightarrow> string list" where
  "written ms = concat (map (\<lambda>m. case m of Published w \<Rightarrow> [] | Handed w \<Rightarrow> [w] | Own w \<Rightarrow> [w]) ms)"

lemma ledger_simps [simp]:
  "published [] = []" "handed [] = []" "written [] = []"
  "published (ms @ ns) = published ms @ published ns" "handed (ms @ ns) = handed ms @ handed ns"
  "written (ms @ ns) = written ms @ written ns"
  "published [Handed w] = []" "handed [Handed w] = [w]" "written [Handed w] = [w]"
  by (simp_all add: published_def handed_def written_def)

lemma ledger_map [simp]:
  "published (map Published ws) = ws" "handed (map Published ws) = []" "written (map Published ws) = []"
  "published (map Own ws) = []" "handed (map Own ws) = []" "written (map Own ws) = ws"
  by (induction ws) (simp_all add: published_def handed_def written_def)

section \<open>Handlers only append to the queue\<close>

lemma pending_for_mono:
  "prefix (ctx_posted x) (ctx_posted x') \<Longrightarrow> prefix (pending_for cid x) (pending_for cid x')"
  by (auto simp: pending_for_def prefix_def)

lemma make_default_appends:
  "list_all (\<lambda>(n, f). \<forall>c clk x. prefix (ctx_posted x) (ctx_posted (snd (f c clk x))))
     (make_default double_div has_broker)"
  by (simp add: make_default_table on_store_def with_stats_def split_def cmd_publish_def foldl_push_message)

lemma dispatch_appends:
  "prefix (ctx_posted x) (ctx_posted (snd (dispatch (make_default double_div has_broker) c clk x)))"
proof (cases rule: dispatch_cases [of "make_default double_div has_broker" c clk x])
  case (known f)
  with make_default_appends [of double_div has_broker] show ?thesis
    by (fastforce simp: list_all_iff dest: map_of_SomeD)
qed simp

lemma subscribe_loops_post:
  "ctx_posted (snd (snd (subscribe_loop chs replies conn x))) = ctx_posted x"
  "ctx_posted (snd (snd (unsubscribe_args_loop chs replies conn x))) = ctx_posted x"
  by (induction chs arbitrary: replies conn x) (simp_all add: split_def)

lemma subscribe_posts:
  "ctx_posted (snd (handle_subscribe c conn x)) = ctx_posted x"
  "ctx_posted (snd (handle_unsubscribe c conn x)) = ctx_posted x"
  by (simp_all add: handle_subscribe_def handle_unsubscribe_def split_def subscribe_loops_post)

abbreviation posted_of :: "conn_state \<Rightarrow> (nat \<times> string) list" where
  "posted_of st \<equiv> ctx_posted (snd (snd st))"

lemma handle_command_posts:
  "prefix (posted_of st) (posted_of (snd (snd (handle_command (make_default double_div has_broker) clk c st))))"
proof -
  obtain conn a x where st: "st = (conn, a, x)" by (cases st)
  have "posted_of (snd (snd (handle_command (make_default double_div has_broker) clk c st))) \<in>
      {ctx_posted x, ctx_posted (snd (dispatch (make_default double_div has_broker) c clk x))}"
    using subscribe_posts [of c conn x]
    by (simp add: st handle_command_def execute_logged_def count_command_def Let_def split_def split: sum.split)
  then show ?thesis
    using dispatch_appends [of x double_div has_broker c clk] by (auto simp: st)
qed

lemma on_read_complete_posts:
  "prefix (ctx_posted x)
     (posted_of (on_read_complete (make_default double_div has_broker) lib clks ec chunk (conn, a, x)))"
proof -
  let ?d = "make_default double_div has_broker"
  have "prefix (ctx_posted x) (posted_of (snd (snd (snd (handle_loop ?d clks n buf chunk resp (conn, a, x))))))" for n buf resp conn
    by (rule handle_loop_invariant) (auto intro: prefix_order.trans [OF _ handle_command_posts])
  then show ?thesis
    by (auto simp: on_read_complete_def handle_data_def Let_def split_def split: option.split)
qed

lemma destroyed_posts: "ctx_posted (connection_destroyed conn x) = ctx_posted x"
  by (simp add: connection_destroyed_def Let_def)

section \<open>Steps of the server\<close>

lemma on_read_complete_setup: "same_setup conn (fst (on_read_complete d lib clks ec chunk (conn, a, x)))"
proof -
  have "same_setup conn (reset_idle_timer (conn\<lparr>read_in_progress := False\<rparr>))"
    by (rule same_setup_reset_idle) simp
  from same_setup_trans [OF this handle_data_setup] same_setup_close [of conn "conn\<lparr>read_in_progress := False\<rparr>"]
  show ?thesis by (simp add: on_read_complete_def Let_def)
qed

lemma step_open:
  assumes step: "server_step d lib s s'" and old: "um_find (srv_conns s) cid = Some conn"
    and new: "um_find (srv_conns s') cid = Some conn'" and id: "cid < srv_next_id s" and "socket_open conn'"
  shows "socket_open conn"
  using step
proof cases
  case (accept_done res)
  then show ?thesis using old new on_accept_conns [OF id] assms(5) by simp
next
  case (read_done c conn1 chunk clks ec conn2 a2 x2)
  then have "socket_open conn2 \<Longrightarrow> socket_open conn1"
    using on_read_complete_setup [of conn1 d lib clks ec chunk "srv_aof s" "srv_ctx s"] by (simp add: same_setup_def)
  with read_done old new assms(5) show ?thesis
    by (cases "c = cid") (auto simp: put_conn_def update_conv)
next
  case (write_done c conn1 ec)
  have "socket_open (on_write_complete ec n conn1) \<Longrightarrow> socket_open conn1" for n
    by (auto simp: conn_io_defs split: if_splits)
  with write_done old new assms(5) show ?thesis
    by (cases "c = cid") (auto simp: put_conn_def update_conv)
next
  case (idle_fired c conn1 aborted ec)
  have "socket_open (on_idle_timer aborted ec conn1) \<Longrightarrow> socket_open conn1"
    by (auto simp: conn_io_defs split: if_splits)
  with idle_fired old new assms(5) show ?thesis
    by (cases "c = cid") (auto simp: put_conn_def update_conv)
next
  case (posted_write c frame rest conn1)
  with old new assms(5) do_write_open show ?thesis
    by (cases "c = cid") (auto simp: put_conn_def update_conv)
next
  case (poll_fired aborted ec)
  with old new assms(5) show ?thesis by (simp add: on_poll_timer_conns)
next
  case (conn_destroyed c conn1)
  with old new assms(5) show ?thesis by (cases "c = cid") (auto simp: delete_conv')
qed (use old new assms(5) in \<open>auto simp: vortek_signal_handler_def\<close>)

section \<open>The account\<close>

text \<open>The queue: what was on its way or is published is what is handed over or still on its way.\<close>

lemma perform_queue:
  assumes "perform (make_default double_div has_broker) lib act s = Some s'"
  shows "handed (movements cid act s s') @ pending_for cid (srv_ctx s') =
    pending_for cid (srv_ctx s) @ published (movements cid act s s')"
proof (cases act)
  case (ReadDone c ec chunk clks ends)
  with assms obtain conn where
    "srv_ctx s' = snd (snd (on_read_complete (make_default double_div has_broker) lib clks ec chunk (conn, srv_aof s, srv_ctx s)))"
    by (auto simp: put_conn_def split_def split: option.splits if_splits)
  then have "prefix (pending_for cid (srv_ctx s)) (pending_for cid (srv_ctx s'))"
    using pending_for_mono on_read_complete_posts by metis
  with ReadDone show ?thesis
    by (auto simp: prefix_def)
next
  case PostedWrite
  with assms show ?thesis
    by (auto simp: pending_for_def put_conn_def split: list.splits option.splits if_splits)
next
  case (AcceptDone res)
  with assms show ?thesis
    by (auto simp: pending_for_def server_update_defs split: if_splits accept_result.splits)
qed (use assms in \<open>auto simp: pending_for_def server_update_defs put_conn_def destroyed_posts
    split: if_splits option.splits\<close>)

text \<open>The output: it grows by what is handed over and by what the connection writes itself.\<close>

lemma perform_output:
  assumes run: "perform d lib act s = Some s'" and old: "um_find (srv_conns s) cid = Some conn"
    and new: "um_find (srv_conns s') cid = Some conn'" and id: "cid < srv_next_id s" and opened: "socket_open conn'"
  shows "accepted conn' = accepted conn @ written (movements cid act s s')"
proof (cases act)
  case (ReadDone c ec chunk clks ends)
  with run old new have "c = cid \<Longrightarrow> conn' = fst (on_read_complete d lib clks ec chunk (conn, srv_aof s, srv_ctx s))"
    and "c \<noteq> cid \<Longrightarrow> conn' = conn"
    by (auto simp: put_conn_def update_conv split: option.splits if_splits prod.splits)
  with output_grows_read [of conn d lib clks ec chunk "srv_aof s" "srv_ctx s"] ReadDone old new show ?thesis
    by (auto simp: output_of_def output_grows_def prefix_def)
next
  case PostedWrite
  with run obtain c frame rest conn1 where posted: "ctx_posted (srv_ctx s) = (c, frame) # rest"
    "um_find (srv_conns s) c = Some conn1" "srv_conns s' = AList.update c (do_write frame conn1) (srv_conns s)"
    by (auto simp: put_conn_def split: list.splits option.splits if_splits)
  with old new opened PostedWrite accepted_do_write_open [of frame conn] show ?thesis
    by (cases "c = cid") (auto simp: update_conv)
next
  case (AcceptDone res)
  with run old new on_accept_conns [OF id, of res] show ?thesis
    by (auto split: if_splits)
next
  case (WriteDone c ec)
  with run old new show ?thesis
    by (cases "c = cid") (auto simp: put_conn_def update_conv accepted_write_complete split: option.splits if_splits)
next
  case (IdleFired c aborted ec)
  with run old new show ?thesis
    by (cases "c = cid") (auto simp: put_conn_def update_conv split: option.splits if_splits)
next
  case (Release c)
  with run old new show ?thesis
    by (cases "c = cid") (auto simp: delete_conv' split: option.splits if_splits)
qed (use run old new in \<open>auto simp: server_update_defs split: if_splits\<close>)

lemma play_account:
  assumes "play (make_default double_div has_broker) lib acts s = Some (es, s')" and "cid < srv_next_id s"
  shows "handed (traffic (make_default double_div has_broker) lib cid acts s) @ pending_for cid (srv_ctx s') =
      pending_for cid (srv_ctx s) @ published (traffic (make_default double_div has_broker) lib cid acts s)"
    and "um_find (srv_conns s') cid = Some conn' \<Longrightarrow> socket_open conn' \<Longrightarrow>
      \<exists>conn. um_find (srv_conns s) cid = Some conn \<and> socket_open conn
        \<and> accepted conn' = accepted conn @ written (traffic (make_default double_div has_broker) lib cid acts s)"
  using assms
proof (induction acts arbitrary: s es)
  let ?d = "make_default double_div has_broker"
  case (Cons act acts)
  {
    case 1
    then obtain s1 es1 where act: "perform ?d lib act s = Some s1" and rest: "play ?d lib acts s1 = Some (es1, s')"
      by (auto split: option.splits)
    then have "cid < srv_next_id s1"
      using 1(2) step_next_id [OF perform_step] by fastforce
    with Cons.IH(1) [OF rest] perform_queue [OF act, of cid] act show ?case
      by simp
  next
    case 2
    then obtain s1 es1 where act: "perform ?d lib act s = Some s1" and rest: "play ?d lib acts s1 = Some (es1, s')"
      by (auto split: option.splits)
    note step = perform_step [OF act] and id = 2(4)
    then have "cid < srv_next_id s1"
      using step_next_id by fastforce
    from Cons.IH(2) [OF 2(1,2) rest this] obtain conn1 where conn1: "um_find (srv_conns s1) cid = Some conn1" "socket_open conn1"
      "accepted conn' = accepted conn1 @ written (traffic ?d lib cid acts s1)"
      by blast
    obtain conn where conn: "um_find (srv_conns s) cid = Some conn"
      using step_no_new [OF step _ id] conn1(1) by fastforce
    with perform_output [OF act conn conn1(1) id conn1(2)] step_open [OF step conn conn1(1) id conn1(2)] conn1(3) act
    show ?case by simp
  }
qed simp_all

section \<open>A publication\<close>

text \<open>The subscriber of the run in \<open>Server_Runs\<close> publishes a message on its own channel, and gets it.\<close>

abbreviation example_publish :: command where
  "example_publish \<equiv> \<lparr>cmd_name = ''PUBLISH'', cmd_args = [''news'', ''hi'']\<rparr>"

abbreviation example_message :: string where
  "example_message \<equiv> make_message_frame ''news'' ''hi''"

lemma example_publish_ok:
  "command_ok example_publish" "plain example_publish" "length (frames [example_publish]) \<le> 100"
  "length (serialize (RespInteger 1)) \<le> 100" "length example_message \<le> 100"
  by (simp add: command_ok_eval, simp add: plain_def, code_simp+)

definition example_published :: server where
  "example_published = example_read False (frames [example_publish]) example_subscribed"

definition example_delivered :: server where
  "example_delivered =
     put_conn 0 (do_write example_message (the (um_find (srv_conns example_published) 0)))
       (srv_aof example_published) ((srv_ctx example_published)\<lparr>ctx_posted := []\<rparr>) example_published"

lemma read_plain:
  assumes "parser_buf conn = []" and "authenticated conn" and "command_ok c" and "plain c"
    and "length (frames [c]) \<le> max_request_bytes conn"
    and "execute_logged d c (clks 0) (a, x) = (Inr r, a', x')"
  shows "handle_data d lib clks (frames [c]) (conn, a, x) =
    (do_write (serialize r) (conn\<lparr>parser_buf := []\<rparr>), a', count_command conn x')"
proof -
  have ok: "\<forall>c\<in>set [c]. command_ok c \<and> plain c"
    using assms(3,4) by simp
  have "pipeline d clks 0 [c] (conn, a, x) = (None, serialize r, conn, a', count_command conn x')"
    using assms(6) by simp
  with handle_loop_pipeline [OF drain_empty ok assms(2), of "[]" "frames [c]" d clks 0 "[]" a x]
  show ?thesis
    using assms(1,5) by (auto simp: handle_data_def buffered_size_def simp del: frames_simps)
qed

lemma example_subscribed_ctx:
  "publish_callbacks ''news'' (ctx_broker (srv_ctx example_subscribed)) = [(0, ''news'')]"
  "ctx_posted (srv_ctx example_subscribed) = []" "srv_aof example_subscribed = None" "running example_subscribed"
proof -
  show "publish_callbacks ''news'' (ctx_broker (srv_ctx example_subscribed)) = [(0, ''news'')]"
    using example_joined_fields(4) [of "''news''"]
    by (auto simp: example_subscribed_eq put_conn_def publish_callbacks_def subscribe_def subs_of_def Let_def
        split: option.splits)
  show "ctx_posted (srv_ctx example_subscribed) = []"
    by (simp add: example_subscribed_eq put_conn_def example_joined_def on_accept_def create_connection_def
        server_do_accept_def Let_def example_boot_fields)
      (simp add: example_boot_def server_run_def new_server_def setup_signal_handlers_def server_update_defs initial_ctx_def)
  show "srv_aof example_subscribed = None" "running example_subscribed"
    using example_joined_fields(1,2) by (simp_all add: example_subscribed_eq put_conn_def running_def)
qed

lemma example_subscribed_conn_full:
  obtains conn where "um_find (srv_conns example_subscribed) 0 = Some conn" "read_in_progress conn"
    "parser_buf conn = []" "authenticated conn" "max_request_bytes conn = 1048576" "socket_open conn"
    "write_in_progress conn" "pending_write_bytes conn \<le> 100" "max_pending_write_bytes conn = 1048576"
  using example_subscribe_ok(3) example_conn_fields
  by (simp add: example_subscribed_eq put_conn_def do_read_def do_write_def flush_write_queue_def Let_def)

lemma example_published_state:
  obtains conn where "um_find (srv_conns example_published) 0 = Some conn" "socket_open conn"
    "pending_write_bytes conn \<le> 200" "max_pending_write_bytes conn = 1048576"
    "ctx_posted (srv_ctx example_published) = [(0, example_message)]" "running example_published"
proof -
  obtain conn where conn: "um_find (srv_conns example_subscribed) 0 = Some conn" "read_in_progress conn"
    "parser_buf conn = []" "authenticated conn" "max_request_bytes conn = 1048576" "socket_open conn"
    "write_in_progress conn" "pending_write_bytes conn \<le> 100" "max_pending_write_bytes conn = 1048576"
    by (rule example_subscribed_conn_full)
  let ?conn = "reset_idle_timer (conn\<lparr>read_in_progress := False\<rparr>)"
  have fields: "parser_buf ?conn = []" "authenticated ?conn" "max_request_bytes ?conn = 1048576" "socket_open ?conn"
    "write_in_progress ?conn" "pending_write_bytes ?conn \<le> 100" "max_pending_write_bytes ?conn = 1048576"
    using conn by (simp_all add: reset_idle_timer_def)
  let ?x = "(srv_ctx example_subscribed)\<lparr>ctx_posted := [(0, example_message)]\<rparr>"
  have "execute_logged example_table example_publish (\<lambda>i. 0) (None, srv_ctx example_subscribed) =
      (Inr (RespInteger 1), None, ?x)"
    using example_subscribed_ctx(1,2)
    by (simp add: execute_logged_def dispatch_def make_default_table cmd_publish_def publish_def push_message_def)
  from read_plain [where lib = "\<lambda>e. []" and clks = "\<lambda>n i. 0", OF fields(1,2) example_publish_ok(1,2) _ this]
  have eq: "example_published = put_conn 0 (do_write (serialize (RespInteger 1)) (?conn\<lparr>parser_buf := []\<rparr>)) None
      (count_command ?conn ?x) example_subscribed"
    using example_publish_ok(3) fields(3) conn(1) example_subscribed_ctx(3)
    by (simp add: example_published_def example_read_def on_read_complete_def Let_def del: frames_simps)
  show ?thesis
    by (rule that [of "do_write (serialize (RespInteger 1)) (?conn\<lparr>parser_buf := []\<rparr>)"])
      (use fields example_publish_ok(4) example_subscribed_ctx(4) in
        \<open>simp_all add: eq put_conn_def do_write_def count_command_def running_def Let_def del: serialize.simps\<close>)
qed

lemma example_delivery_steps:
  "server_step example_table (\<lambda>e. []) example_subscribed example_published"
  "server_step example_table (\<lambda>e. []) example_published example_delivered"
proof -
  obtain conn where "um_find (srv_conns example_subscribed) 0 = Some conn" "read_in_progress conn"
    by (rule example_subscribed_conn_full)
  with example_subscribed_ctx(4) example_publish_ok(3)
  show "server_step example_table (\<lambda>e. []) example_subscribed example_published"
    unfolding example_published_def by (intro example_read_step) (simp_all del: frames_simps)
  obtain conn where "um_find (srv_conns example_published) 0 = Some conn"
    "ctx_posted (srv_ctx example_published) = [(0, example_message)]" "running example_published"
    by (rule example_published_state)
  then show "server_step example_table (\<lambda>e. []) example_published example_delivered"
    using posted_write [of example_published 0 example_message "[]" conn] by (simp add: example_delivered_def)
qed

section \<open>Properties\<close>

text \<open>
  C27: Published messages arrive, each once and in order. Take any stretch of a run of the server and
  a connection that is open at its end. The frames that were on their way to it at the beginning, followed by those
  published for it meanwhile, are exactly the frames handed over to it, followed by those still on their
  way; and what it has accepted for writing has grown by exactly the frames handed over and by what it wrote on its own
  account, in the order in which this happened. Nothing is lost, duplicated or overtaken.
\<close>

theorem messages_arrive_in_order:
  assumes "main_boot parse_file disk can_open can_read can_resize can_reopen can_bind (make_default double_div True) now clks args = Inr s0"
    and "reachable (make_default double_div True) lib s0 s" and "play (make_default double_div True) lib acts s = Some (es, s')"
    and "um_find (srv_conns s) cid = Some conn" and "um_find (srv_conns s') cid = Some conn'" and "socket_open conn'"
  shows "let ms = traffic (make_default double_div True) lib cid acts s
    in pending_for cid (srv_ctx s) @ published ms = handed ms @ pending_for cid (srv_ctx s')
       \<and> accepted conn' = accepted conn @ written ms"
proof -
  have "server_inv s"
    by (rule srv.run_keeps [OF assms(2) main_boot_inv [OF assms(1)]])
  then have "cid < srv_next_id s"
    using server_inv_entry [OF _ assms(4)] by (auto simp: conn_entry_ok_def)
  from play_account [OF assms(3) this] assms(4-6) show ?thesis
    by (simp add: Let_def)
qed

theorem messages_arrive_in_order_witness:
  "\<exists>conn conn'. um_find (srv_conns example_published) 0 = Some conn
    \<and> um_find (srv_conns example_delivered) 0 = Some conn'
    \<and> pending_for 0 (srv_ctx example_published) = [example_message] \<and> pending_for 0 (srv_ctx example_delivered) = []
    \<and> accepted conn' = accepted conn @ [example_message]"
proof -
  obtain conn where conn: "um_find (srv_conns example_published) 0 = Some conn" "socket_open conn"
      "pending_write_bytes conn \<le> 200" "max_pending_write_bytes conn = 1048576"
      "ctx_posted (srv_ctx example_published) = [(0, example_message)]" "running example_published"
    by (rule example_published_state)
  have conn': "um_find (srv_conns example_delivered) 0 = Some (do_write example_message conn)"
    using conn(1) by (simp add: example_delivered_def put_conn_def)
  have opened: "socket_open (do_write example_message conn)"
    using conn(2-4) example_publish_ok(5) by (simp add: do_write_def flush_write_queue_def Let_def)
  have reach: "reachable example_table (\<lambda>e. []) example_boot example_published"
    using example_steps(1) example_delivery_steps(1) by (rule rtranclp.rtrancl_into_rtrancl)
  have act: "perform example_table (\<lambda>e. []) PostedWrite example_published = Some example_delivered"
    using conn(1,5,6) by (simp add: example_delivered_def)
  then have run: "play example_table (\<lambda>e. []) [PostedWrite] example_published = Some ([], example_delivered)"
    by simp
  have "pending_for 0 (srv_ctx example_published) = [example_message]"
    using conn(5) by (simp add: pending_for_def)
  with messages_arrive_in_order [OF example_boot reach run conn(1) conn' opened] conn(1,5) conn' act show ?thesis
    by (simp add: Let_def)
qed

end
