(* ===== verification/One_History.thy ===== *)
theory One_History
  imports Event_Loop Message_Delivery Command_Spec
begin

text \<open>
  Many clients, one history. The commands of all clients are executed one after the other by the
  event loop, while the expiry thread sweeps in between. This theory shows that whatever the clients and the
  network do, there is one sequence of commands such that every reply to every client is the one the
  specification of \<open>Command_Spec\<close> gives at its place in the sequence, and that each client receives
  exactly the replies to its own commands, in its own order.
\<close>

section \<open>Definitions\<close>

text \<open>What the events of a run mean for the data, and the replies they report.\<close>

fun happenings :: "event list \<Rightarrow> happening list" where
  "happenings [] = []"
| "happenings (Answered cid c clk t r # es) = Execute c clk t # happenings es"
| "happenings (Swept t # es) = Sweeping t # happenings es"
| "happenings (Said cid txt # es) = happenings es"
| "happenings (Registered cid c # es) = happenings es"

fun replies_in :: "event list \<Rightarrow> reply list" where
  "replies_in [] = []"
| "replies_in (Answered cid c clk t r # es) = r # replies_in es"
| "replies_in (Swept t # es) = replies_in es"
| "replies_in (Said cid txt # es) = replies_in es"
| "replies_in (Registered cid c # es) = replies_in es"

text \<open>The abstract data after a history, and the time it ends.\<close>

fun spec_after :: "happening list \<Rightarrow> astate \<Rightarrow> astate" where
  "spec_after [] m = m"
| "spec_after (Execute c clk t # hs) m = spec_after hs (snd (spec_command c clk m))"
| "spec_after (Sweeping t # hs) m = spec_after hs m"

fun over_at :: "time_point \<Rightarrow> happening list \<Rightarrow> time_point" where
  "over_at t [] = t"
| "over_at t (Execute c clk t' # hs) = over_at t' hs"
| "over_at t (Sweeping t' # hs) = over_at t' hs"

text \<open>All the text a run reports for one client.\<close>

definition client_text :: "(std_exn \<Rightarrow> string) \<Rightarrow> nat \<Rightarrow> event list \<Rightarrow> string" where
  "client_text lib cid es = concat (map (event_text lib) (filter (\<lambda>e. client_of e = Some cid) es))"

section \<open>Sequences of events\<close>

lemma happenings_append [simp]: "happenings (es @ es') = happenings es @ happenings es'"
  by (induction es rule: happenings.induct) simp_all

lemma replies_in_append [simp]: "replies_in (es @ es') = replies_in es @ replies_in es'"
  by (induction es rule: replies_in.induct) simp_all

lemma spec_history_append: "spec_history (hs @ hs') m = spec_history hs m @ spec_history hs' (spec_after hs m)"
  by (induction hs m rule: spec_after.induct) (simp_all add: split_def)

lemma spec_after_append: "spec_after (hs @ hs') m = spec_after hs' (spec_after hs m)"
  by (induction hs m rule: spec_after.induct) simp_all

lemma in_order_append: "in_order t (hs @ hs') \<longleftrightarrow> in_order t hs \<and> in_order (over_at t hs) hs'"
  by (induction t hs rule: over_at.induct) auto

lemma over_at_append: "over_at t (hs @ hs') = over_at (over_at t hs) hs'"
  by (induction t hs rule: over_at.induct) simp_all

lemma client_text_append [simp]: "client_text lib cid (es @ es') = client_text lib cid es @ client_text lib cid es'"
  by (simp add: client_text_def)

section \<open>The data\<close>

text \<open>
  The store looks like the abstract data. A list of events explains a change of the store if its replies
  match the specification and the store looks like the abstract data again at the end.
\<close>

definition agrees :: "time_point \<Rightarrow> astate \<Rightarrow> server_ctx \<Rightarrow> bool" where
  "agrees t m x \<longleftrightarrow> kv_ok (ctx_store x) \<and> seen t (ctx_store x) = fade t m"

definition explains :: "event list \<Rightarrow> server_ctx \<Rightarrow> server_ctx \<Rightarrow> bool" where
  "explains es x x' \<longleftrightarrow> (\<forall>t m. agrees t m x \<longrightarrow> in_order t (happenings es) \<longrightarrow>
     list_all2 matches (spec_history (happenings es) m) (replies_in es)
     \<and> agrees (over_at t (happenings es)) (spec_after (happenings es) m) x')"

lemma agrees_cong: "ctx_store x' = ctx_store x \<Longrightarrow> agrees t m x' = agrees t m x"
  by (simp add: agrees_def)

lemma explains_same:
  "ctx_store x' = ctx_store x \<Longrightarrow> happenings es = [] \<Longrightarrow> replies_in es = [] \<Longrightarrow> explains es x x'"
  by (simp add: explains_def agrees_cong [of x' x])

lemma explains_append:
  assumes "explains es x x1" and "explains es' x1 x2"
  shows "explains (es @ es') x x2"
  using assms unfolding explains_def
  by (auto simp: spec_history_append spec_after_append in_order_append over_at_append
      intro!: list_all2_appendI)

lemma explains_Cons: "explains [e] x x1 \<Longrightarrow> explains es x1 x2 \<Longrightarrow> explains (e # es) x x2"
  using explains_append [of "[e]" x x1 es x2] by simp

lemma explains_dispatch:
  fixes double_div has_broker
  defines "d \<equiv> make_default double_div has_broker"
  assumes store: "ctx_store x' = ctx_store (snd (dispatch d c clk x))"
  shows "explains [Answered cid c clk t (fst (dispatch d c clk x))] x x'"
proof -
  have "matches (fst (spec_command c clk m)) (fst (dispatch d c clk x)) \<and> agrees t (snd (spec_command c clk m)) x'"
    if before: "agrees t0 m x" and order: "in_order t0 [Execute c clk t]" for t0 m
  proof -
    have ok: "kv_ok (ctx_store x)" "seen t0 (ctx_store x) = fade t0 m" and clk: "mono clk" "t0 \<le> clk 0" "\<And>i. clk i \<le> t"
      using before order by (auto simp: agrees_def)
    note sim = dispatch_simulates [OF ok(1) clk(1) seen_later [OF ok(2) clk(2)],
        where c = c and double_div = double_div and has_broker = has_broker]
    show ?thesis
      using sim(1) sim(2) [OF clk(3)] dispatch_keeps(1) [OF ok(1), of double_div has_broker c clk]
      by (simp add: agrees_def store d_def)
  qed
  then show ?thesis
    by (auto simp: explains_def split_def)
qed

lemma explains_command:
  assumes run: "handle_command (make_default double_div has_broker) clk c (conn, a, x) = (exn, out, conn', a', x')"
  shows "explains [command_event (make_default double_div has_broker) clk t c (conn, a, x)] x x'"
proof -
  let ?d = "make_default double_div has_broker"
  consider (own) "cmd_name c = ''AUTH'' \<or> \<not> authenticated conn"
    | (registry) "cmd_name c \<noteq> ''AUTH''" "authenticated conn" "cmd_name c = ''SUBSCRIBE'' \<or> cmd_name c = ''UNSUBSCRIBE''"
    | (data) "cmd_name c \<noteq> ''AUTH''" "authenticated conn" "cmd_name c \<noteq> ''SUBSCRIBE''" "cmd_name c \<noteq> ''UNSUBSCRIBE''"
    by blast
  then show ?thesis
  proof cases
    case own
    with run have "x' = x"
      by (auto simp: handle_command_def split: if_splits prod.splits)
    with own show ?thesis by (intro explains_same) simp_all
  next
    case registry
    with run have "x' = snd (handle_subscribe c conn x) \<or> x' = snd (handle_unsubscribe c conn x)"
      by (auto simp: handle_command_def split: if_splits prod.splits)
    then have "ctx_store x' = ctx_store x"
      using handle_subscribe_ctx [of c conn x] handle_unsubscribe_ctx [of c conn x] by auto
    with registry show ?thesis by (intro explains_same) auto
  next
    case data
    with run have store: "ctx_store x' = ctx_store (snd (dispatch ?d c clk x))"
      by (auto simp: handle_command_def execute_logged_def Let_def split_def split: sum.splits prod.splits)
    have event: "command_event ?d clk t c (conn, a, x) = Answered (conn_id conn) c clk t (fst (dispatch ?d c clk x))"
      using data by simp
    show ?thesis
      unfolding event by (rule explains_dispatch [OF store])
  qed
qed

lemma explains_loop:
  assumes "handle_loop (make_default double_div has_broker) clks n buf chunk resp (conn, a, x) = (exn, buf', out, conn', a', x')"
  shows "explains (loop_events (make_default double_div has_broker) lib clks ends n buf chunk (conn, a, x)) x x'"
proof -
  let ?d = "make_default double_div has_broker"
  have "explains (loop_events ?d lib clks ends n buf chunk st) (snd (snd st))
      (snd (snd (snd (snd (snd (handle_loop ?d clks n buf chunk resp st))))))" for n buf chunk resp st
  proof (induction n buf chunk st arbitrary: resp rule: handle_loop_induct [where d = ?d and clks = clks])
    case (stop n buf chunk st exn rest)
    then show ?case
      by (auto simp: handle_loop_stop loop_events_stop intro!: explains_same split: option.splits)
  next
    case (bad n buf chunk st v buf1)
    then show ?case by (auto simp: handle_loop_round loop_events_round intro!: explains_same)
  next
    case (thrown n buf chunk st v buf1 c ex out1 st1)
    then show ?case
      using explains_command [of double_div has_broker "clks n" c "fst st" "fst (snd st)" "snd (snd st)" _ _ "fst st1" "fst (snd st1)" "snd (snd st1)" "ends n"]
      by (simp add: handle_loop_round loop_events_round)
  next
    case (more n buf chunk st v buf1 c out1 st1)
    then show ?case
      using explains_Cons [OF explains_command [of double_div has_broker "clks n" c "fst st" "fst (snd st)" "snd (snd st)" _ _ "fst st1" "fst (snd st1)" "snd (snd st1)" "ends n"]]
      by (simp add: handle_loop_round loop_events_round)
  qed
  from this [of n buf chunk "(conn, a, x)" resp] show ?thesis
    by (simp add: assms)
qed

lemma explains_read:
  assumes "handle_data (make_default double_div has_broker) lib clks chunk (conn, a, x) = (conn', a', x')"
  shows "explains (read_events (make_default double_div has_broker) lib clks ends chunk (conn, a, x)) x x'"
proof (cases "buffered_size (parser_buf conn) + length chunk > max_request_bytes conn")
  case True
  with assms show ?thesis
    by (auto simp: handle_data_def read_events_def intro!: explains_same)
next
  case False
  obtain exn buf out conn1 a1 x1 where loop: "handle_loop (make_default double_div has_broker) clks 0 (parser_buf conn) chunk []
      (conn, a, x) = (exn, buf, out, conn1, a1, x1)"
    by (cases "handle_loop (make_default double_div has_broker) clks 0 (parser_buf conn) chunk [] (conn, a, x)")
  with False assms have "x' = x1"
    by (auto simp: handle_data_def Let_def split: option.splits if_splits)
  with False explains_loop [OF loop] show ?thesis
    by (simp add: read_events_def)
qed

text \<open>Every action of the event loop is explained by the events it reports.\<close>

lemma explains_sweep: "explains [Swept now] x (x\<lparr>ctx_store := sweep now (ctx_store x)\<rparr>)"
  unfolding explains_def
proof (intro allI impI)
  fix t m
  assume "agrees t m x" and "in_order t (happenings [Swept now])"
  then have ok: "kv_ok (ctx_store x)" and "seen t (ctx_store x) = fade t m" and "t \<le> now"
    by (simp_all add: agrees_def)
  from seen_later [OF this(2,3)] related_sweep [OF ok order_refl] kv.inv_sweep [OF ok]
  show "list_all2 matches (spec_history (happenings [Swept now]) m) (replies_in [Swept now])
    \<and> agrees (over_at t (happenings [Swept now])) (spec_after (happenings [Swept now]) m)
        (x\<lparr>ctx_store := sweep now (ctx_store x)\<rparr>)"
    by (simp add: agrees_def)
qed

lemma explains_action:
  assumes "perform (make_default double_div has_broker) lib act s = Some s'"
  shows "explains (action_events (make_default double_div has_broker) lib act s) (srv_ctx s) (srv_ctx s')"
proof (cases act)
  case (ReadDone cid ec chunk clks ends)
  with assms obtain conn conn' a' x' where find: "um_find (srv_conns s) cid = Some conn"
    and read: "on_read_complete (make_default double_div has_broker) lib clks ec chunk (conn, srv_aof s, srv_ctx s) = (conn', a', x')"
    and s': "s' = put_conn cid conn' a' x' s"
    by (auto split: option.splits if_splits prod.splits)
  then show ?thesis
    using explains_read [of double_div has_broker lib clks chunk "reset_idle_timer (conn\<lparr>read_in_progress := False\<rparr>)"]
    by (auto simp: ReadDone on_read_complete_def put_conn_def Let_def intro!: explains_same split: if_splits)
next
  case (ExpirySweep now)
  with assms explains_sweep show ?thesis by auto
next
  case (Release cid)
  with assms show ?thesis
    by (auto simp: connection_destroyed_def Let_def intro!: explains_same split: option.splits if_splits)
qed (use assms in \<open>auto simp: server_update_defs intro!: explains_same
      split: option.splits list.splits if_splits accept_result.splits\<close>)

lemma explains_play:
  assumes "play (make_default double_div has_broker) lib acts s = Some (es, s')"
  shows "explains es (srv_ctx s) (srv_ctx s')"
  using assms
proof (induction acts arbitrary: s es)
  case Nil
  then show ?case by (simp add: explains_same)
next
  case (Cons act acts)
  then obtain s1 es1 where "perform (make_default double_div has_broker) lib act s = Some s1"
    and "play (make_default double_div has_broker) lib acts s1 = Some (es1, s')"
    and "es = action_events (make_default double_div has_broker) lib act s @ es1"
    by (auto split: option.splits)
  with Cons.IH explains_action explains_append show ?case by blast
qed

section \<open>The output of each client\<close>

text \<open>
  A client that has not asked for a subscription is in no channel and no message waits for it.
\<close>

definition unheard :: "nat \<Rightarrow> server_ctx \<Rightarrow> bool" where
  "unheard cid x \<longleftrightarrow> cid \<notin> snd ` subscriptions (ctx_broker x) \<and> cid \<notin> fst ` set (ctx_posted x)"

lemma unheard_command:
  assumes run: "handle_command (make_default double_div has_broker) clk c (conn, a, x) = (exn, out, conn', a', x')"
    and agree: "subs_agree conn (ctx_broker x)" and "unheard cid x"
    and quiet: "\<forall>c'. command_event (make_default double_div has_broker) clk t c (conn, a, x) \<noteq> Registered cid c'"
  shows "unheard cid x'"
proof -
  let ?d = "make_default double_div has_broker"
  have posted: "cid \<notin> fst ` set (ctx_posted (snd (dispatch ?d c clk x)))"
    using dispatch_posted [of x double_div has_broker c clk] agree assms(3) by (auto simp: subs_agree_def unheard_def)
  show ?thesis
  proof (cases "cmd_name c \<noteq> ''AUTH'' \<and> authenticated conn \<and> cmd_name c \<in> {''SUBSCRIBE'', ''UNSUBSCRIBE''}")
    case True
    then have "cid \<noteq> conn_id conn"
      using quiet by auto
    have "step_agrees (conn, a, x) (conn', a', x')"
      using handle_command_agrees [of "(conn, a, x)" double_div has_broker clk c] run by simp
    with agree have "others_kept (conn_id conn) (ctx_broker x) (ctx_broker x')"
      by (simp add: step_agrees_def)
    then have "cid \<notin> snd ` subscriptions (ctx_broker x')"
      using assms(3) \<open>cid \<noteq> conn_id conn\<close> by (force simp: others_kept_def unheard_def)
    moreover have "ctx_posted x' = ctx_posted x"
      using True run handle_subscribe_ctx [of c conn x] handle_unsubscribe_ctx [of c conn x]
      by (auto simp: handle_command_def split: prod.splits)
    ultimately show ?thesis
      using assms(3) by (simp add: unheard_def)
  next
    case False
    then have "x' = x \<or> x' = snd (dispatch ?d c clk x) \<or> x' = count_command conn (snd (dispatch ?d c clk x))"
      using run by (auto simp: handle_command_def execute_logged_def Let_def split_def split: if_splits sum.splits prod.splits)
    with posted assms(3) show ?thesis
      by (auto simp: unheard_def dispatch_keeps)
  qed
qed

lemma unheard_loop:
  assumes "subs_agree (fst st) (ctx_broker (snd (snd st)))" and "unheard cid (snd (snd st))"
    and "unregistered cid (loop_events (make_default double_div has_broker) lib clks ends n buf chunk st)"
  shows "unheard cid (snd (snd (snd (snd (snd (handle_loop (make_default double_div has_broker) clks n buf chunk resp st))))))"
  using assms
proof (induction n buf chunk st arbitrary: resp rule: handle_loop_induct [where d = "make_default double_div has_broker" and clks = clks])
  case (stop n buf chunk st exn rest)
  then show ?case by (simp add: handle_loop_stop)
next
  case (bad n buf chunk st v buf1)
  then show ?case by (simp add: handle_loop_round)
next
  case (thrown n buf chunk st v buf1 c ex out1 st1)
  then show ?case
    using unheard_command [of double_div has_broker "clks n" c "fst st" "fst (snd st)" "snd (snd st)" _ _ "fst st1" "fst (snd st1)" "snd (snd st1)" cid "ends n"]
    by (simp add: handle_loop_round loop_events_round)
next
  case (more n buf chunk st v buf1 c out1 st1)
  have "subs_agree (fst st1) (ctx_broker (snd (snd st1)))"
    using handle_command_agrees [of st double_div has_broker "clks n" c] more(3,5) by (simp add: step_agrees_def)
  moreover have "unheard cid (snd (snd st1))"
    using unheard_command [of double_div has_broker "clks n" c "fst st" "fst (snd st)" "snd (snd st)" _ _ "fst st1" "fst (snd st1)" "snd (snd st1)" cid "ends n"] more
    by (simp add: loop_events_round)
  ultimately show ?case
    using more by (simp add: handle_loop_round loop_events_round)
qed

lemma unheard_read:
  assumes "handle_data (make_default double_div has_broker) lib clks chunk (conn, a, x) = (conn', a', x')"
    and "subs_agree conn (ctx_broker x)" and "unheard cid x"
    and "unregistered cid (read_events (make_default double_div has_broker) lib clks ends chunk (conn, a, x))"
  shows "unheard cid x'"
proof (cases rule: handle_data_cases [of conn chunk "make_default double_div has_broker" lib clks a x])
  case refused
  with assms show ?thesis by simp
next
  case (handled conn1 buf a1 x1 out)
  then have "x' = x1"
    using assms(1) by simp
  with handled unheard_loop [of "(conn, a, x)" cid double_div has_broker lib clks ends 0 "parser_buf conn" chunk "[]"] assms(2-4)
  show ?thesis
    by (simp add: read_events_def buffered_size_def)
qed

text \<open>
  The reports so far and the server: an open connection whose client never asked for a subscription has
  been handed exactly the text reported for it.
\<close>

definition told :: "(std_exn \<Rightarrow> string) \<Rightarrow> event list \<Rightarrow> server \<Rightarrow> bool" where
  "told lib es s \<longleftrightarrow> server_inv s
     \<and> (\<forall>e\<in>set es. \<forall>cid. client_of e = Some cid \<longrightarrow> cid < srv_next_id s)
     \<and> (\<forall>cid. unregistered cid es \<longrightarrow> unheard cid (srv_ctx s)
          \<and> (\<forall>conn. um_find (srv_conns s) cid = Some conn \<longrightarrow> socket_open conn \<longrightarrow>
                concat (accepted conn) = client_text lib cid es))"

lemma client_text_fresh:
  "told lib es s \<Longrightarrow> client_text lib (srv_next_id s) es = []"
  by (fastforce simp: told_def client_text_def filter_empty_conv)

text \<open>Actions that report nothing about a client.\<close>

lemma told_quiet:
  assumes told: "told lib es s" and "server_inv s'" and "srv_next_id s \<le> srv_next_id s'"
    and ctx: "\<And>cid. unheard cid (srv_ctx s) \<Longrightarrow> unheard cid (srv_ctx s')"
    and conns: "\<And>cid conn'. um_find (srv_conns s') cid = Some conn' \<Longrightarrow> socket_open conn' \<Longrightarrow> unheard cid (srv_ctx s) \<Longrightarrow>
      (\<exists>conn. um_find (srv_conns s) cid = Some conn \<and> socket_open conn \<and> accepted conn' = accepted conn)
      \<or> (cid = srv_next_id s \<and> accepted conn' = [])"
    and evs: "\<forall>e\<in>set evs. client_of e = None"
  shows "told lib (es @ evs) s'"
proof -
  have none: "client_text lib cid evs = []" "unregistered cid evs" for cid
    using evs by (auto simp: client_text_def unregistered_def filter_empty_conv)
  have "concat (accepted conn') = client_text lib cid es"
    if "unregistered cid es" "um_find (srv_conns s') cid = Some conn'" "socket_open conn'" for cid conn'
    using conns [OF that(2,3)] that(1) told client_text_fresh [OF told] by (auto simp: told_def)
  then show ?thesis
    using told assms(2,3) ctx evs none by (fastforce simp: told_def)
qed

lemma unheard_simps [simp]:
  "unheard cid (x\<lparr>ctx_store := k\<rparr>) = unheard cid x" "unheard cid (x\<lparr>ctx_stats := st\<rparr>) = unheard cid x"
  by (simp_all add: unheard_def)

lemma unheard_destroyed: "unheard cid x \<Longrightarrow> broker_ok (ctx_broker x) \<Longrightarrow> unheard cid (connection_destroyed conn x)"
  by (auto simp: unheard_def connection_destroyed_def Let_def subscriptions_unsubscribe_all)

lemma unheard_accept: "unheard cid (srv_ctx (on_accept res s)) = unheard cid (srv_ctx s)"
  and unheard_poll: "unheard cid (srv_ctx (on_poll_timer aborted ec s)) = unheard cid (srv_ctx s)"
  by (simp_all add: server_update_defs split: accept_result.split)

lemma on_accept_told:
  assumes "um_find (srv_conns (on_accept res s)) cid = Some conn'" and "socket_open conn'"
  shows "um_find (srv_conns s) cid = Some conn' \<or> cid = srv_next_id s \<and> accepted conn' = []"
  using assms
  by (auto simp: server_update_defs update_conv accepted_def new_connection_def start_def do_read_def reset_idle_timer_def
      split: accept_result.splits if_splits)

text \<open>A read: its events belong to its own client.\<close>

lemma told_read:
  fixes double_div
  defines "d \<equiv> make_default double_div True"
  assumes told: "told lib es s" and find: "um_find (srv_conns s) cid = Some conn"
    and read: "on_read_complete d lib clks ec chunk (conn, srv_aof s, srv_ctx s) = (conn', a', x')"
    and inv: "server_inv (put_conn cid conn' a' x' s)"
  shows "told lib (es @ (if ec then [] else read_events d lib clks ends chunk
      (reset_idle_timer (conn\<lparr>read_in_progress := False\<rparr>), srv_aof s, srv_ctx s))) (put_conn cid conn' a' x' s)"
proof -
  let ?conn = "reset_idle_timer (conn\<lparr>read_in_progress := False\<rparr>)"
  define evs where "evs = (if ec then [] else read_events d lib clks ends chunk (?conn, srv_aof s, srv_ctx s))"
  have entry: "conn_id conn = cid" "subs_agree conn (ctx_broker (srv_ctx s))" "cid < srv_next_id s"
    using server_inv_entry [OF _ find] told by (auto simp: told_def conn_entry_ok_def)
  then have same: "conn_id ?conn = cid" "subs_agree ?conn (ctx_broker (srv_ctx s))" "accepted ?conn = accepted conn"
    by (simp_all add: reset_idle_timer_def subs_agree_def accepted_def)
  have mine: "client_of e = Some cid" if "e \<in> set evs" for e
    using that read_events_client [of e d lib clks ends chunk "(?conn, srv_aof s, srv_ctx s)"] same(1)
    by (auto simp: evs_def split: if_splits)
  have data: "\<not> ec \<Longrightarrow> handle_data d lib clks chunk (?conn, srv_aof s, srv_ctx s) = (conn', a', x')"
    "ec \<Longrightarrow> x' = srv_ctx s \<and> \<not> socket_open conn'"
    using read by (auto simp: on_read_complete_def Let_def close_socket_def)
  have heard: "unheard c x'" if "unregistered c evs" "unheard c (srv_ctx s)" for c
    using unheard_read [OF data(1) [unfolded d_def] same(2)] data(2) that by (cases ec) (auto simp: evs_def d_def)
  have own: "concat (accepted conn') = concat (accepted conn) @ concat (map (event_text lib) evs)"
    if "unregistered cid evs" "socket_open conn'"
    using handle_data_output [of ?conn d lib clks ends chunk "srv_aof s" "srv_ctx s"] data that same
    by (cases ec) (auto simp: evs_def)
  have opened: "socket_open conn' \<Longrightarrow> socket_open conn"
    using on_read_complete_setup [of conn d lib clks ec chunk "srv_aof s" "srv_ctx s"] read by (simp add: same_setup_def)
  have texts: "client_text lib cid evs = concat (map (event_text lib) evs)" "c \<noteq> cid \<Longrightarrow> client_text lib c evs = []" for c
    using mine by (auto simp: client_text_def filter_empty_conv filter_id_conv)
  have "concat (accepted e) = client_text lib c (es @ evs)"
    if "unregistered c (es @ evs)" "um_find (srv_conns (put_conn cid conn' a' x' s)) c = Some e" "socket_open e" for c e
  proof (cases "c = cid")
    case True
    with that have "e = conn'" by (simp add: put_conn_def)
    with True that own opened told find texts(1) show ?thesis by (auto simp: told_def)
  next
    case False
    with that told texts(2) show ?thesis by (auto simp: told_def put_conn_def update_conv)
  qed
  moreover have "unheard c x'" if "unregistered c (es @ evs)" for c
    using heard [of c] that told by (auto simp: told_def)
  moreover have "\<forall>e\<in>set (es @ evs). \<forall>c. client_of e = Some c \<longrightarrow> c < srv_next_id s"
    using told mine entry(3) by (auto simp: told_def)
  ultimately have "told lib (es @ evs) (put_conn cid conn' a' x' s)"
    using inv by (auto simp: told_def put_conn_def)
  then show ?thesis by (simp add: evs_def)
qed

text \<open>Actions that touch one connection and add nothing to its output.\<close>

lemma told_put:
  assumes told: "told lib es s" and inv: "server_inv (put_conn c conn' a' x' s)" and find: "um_find (srv_conns s) c = Some conn"
    and ctx: "\<And>cid. unheard cid (srv_ctx s) \<Longrightarrow> unheard cid x'"
    and conn: "unheard c (srv_ctx s) \<Longrightarrow> socket_open conn' \<Longrightarrow> socket_open conn \<and> accepted conn' = accepted conn"
  shows "told lib es (put_conn c conn' a' x' s)"
proof -
  have "\<exists>old. um_find (srv_conns s) cid = Some old \<and> socket_open old \<and> accepted e = accepted old"
    if "um_find (srv_conns (put_conn c conn' a' x' s)) cid = Some e" "socket_open e" "unheard cid (srv_ctx s)" for cid e
    using that find conn by (cases "cid = c") (auto simp: put_conn_def update_conv)
  then have "told lib (es @ []) (put_conn c conn' a' x' s)"
    using ctx by (intro told_quiet [OF told inv]) (auto simp: put_conn_def)
  then show ?thesis by simp
qed

lemma on_idle_timer_open: "socket_open (on_idle_timer aborted ec conn) \<Longrightarrow> socket_open conn"
  by (auto simp: conn_io_defs split: if_splits)

lemma told_connection_action:
  assumes told: "told lib es s" and act: "perform d lib act s = Some s'" and inv: "server_inv s'"
    and kind: "act = WriteDone cid ec \<or> act = IdleFired cid ab ec \<or> act = PostedWrite"
  shows "told lib es s'"
proof -
  consider (written) "act = WriteDone cid ec" | (idle) "act = IdleFired cid ab ec" | (posted) "act = PostedWrite"
    using kind by blast
  then show ?thesis
  proof cases
    case written
    with act obtain conn where "um_find (srv_conns s) cid = Some conn"
      and "s' = put_conn cid (on_write_complete ec (length (write_buf conn)) conn) (srv_aof s) (srv_ctx s) s"
      by (auto split: option.splits if_splits)
    with inv show ?thesis
      by (auto simp: accepted_write_complete dest: on_write_complete_open intro!: told_put [OF told])
  next
    case idle
    with act obtain conn where "um_find (srv_conns s) cid = Some conn"
      and "s' = put_conn cid (on_idle_timer ab ec conn) (srv_aof s) (srv_ctx s) s"
      by (auto split: option.splits if_splits)
    with inv show ?thesis
      by (auto dest: on_idle_timer_open intro!: told_put [OF told])
  next
    case posted
    with act obtain c frame rest conn where "ctx_posted (srv_ctx s) = (c, frame) # rest" "um_find (srv_conns s) c = Some conn"
      "s' = put_conn c (do_write frame conn) (srv_aof s) ((srv_ctx s)\<lparr>ctx_posted := rest\<rparr>) s"
      by (auto split: option.splits if_splits list.splits)
    with inv show ?thesis
      by (auto simp: unheard_def intro!: told_put [OF told])
  qed
qed

lemma told_action:
  fixes double_div
  defines "d \<equiv> make_default double_div True"
  assumes told: "told lib es s" and act: "perform d lib act s = Some s'"
  shows "told lib (es @ action_events d lib act s) s'"
proof -
  have step: "server_step d lib s s'"
    using act by (rule perform_step)
  have old: "server_inv s"
    using told by (simp add: told_def)
  have inv: "server_inv s'"
    using srv.step_keeps [OF step [unfolded d_def] old] .
  have broker: "broker_ok (ctx_broker (srv_ctx s))"
    using old by (simp add: server_inv_def ctx_inv_def)
  note quiet = told_quiet [OF told inv step_next_id [OF step]]
  show ?thesis
  proof (cases act)
    case (AcceptDone res)
    with act have "s' = on_accept res s" by (auto split: if_splits)
    then show ?thesis
      by (intro quiet) (auto simp: AcceptDone unheard_accept dest!: on_accept_told)
  next
    case (ReadDone cid ec chunk clks ends)
    with act obtain conn conn' a' x' where find: "um_find (srv_conns s) cid = Some conn"
      and read: "on_read_complete d lib clks ec chunk (conn, srv_aof s, srv_ctx s) = (conn', a', x')"
      and s': "s' = put_conn cid conn' a' x' s"
      by (auto split: option.splits if_splits prod.splits)
    from told_read [OF told find read [unfolded d_def] inv [unfolded s']] show ?thesis
      by (simp add: ReadDone find s' d_def)
  next
    case (PollFired aborted ec)
    with act show ?thesis
      by (intro quiet) (auto simp: on_poll_timer_conns unheard_poll split: if_splits)
  next
    case (SignalRaised n)
    with act show ?thesis
      by (intro quiet) (auto simp: vortek_signal_handler_def split: if_splits)
  next
    case (ExpirySweep now)
    with act show ?thesis
      by (intro quiet) auto
  next
    case (Release cid)
    with act show ?thesis
      by (intro quiet) (auto simp: delete_conv' unheard_destroyed broker split: option.splits if_splits)
  qed (use told_connection_action [OF told act inv] in auto)
qed

lemma told_play:
  assumes "told lib es s" and "play (make_default double_div True) lib acts s = Some (es', s')"
  shows "told lib (es @ es') s'"
  using assms
proof (induction acts arbitrary: s es es')
  case (Cons act acts)
  let ?d = "make_default double_div True"
  obtain s1 es1 where act: "perform ?d lib act s = Some s1"
    and rest: "play ?d lib acts s1 = Some (es1, s')" and "es' = action_events ?d lib act s @ es1"
    using Cons.prems(2) by (auto split: option.splits)
  with Cons.IH [OF told_action [OF Cons.prems(1) act] rest] show ?case by simp
qed simp

lemma main_boot_told:
  assumes "main_boot parse_file disk can_open can_read can_resize can_reopen can_bind (make_default double_div True) now clks args = Inr s"
  shows "told lib [] s"
proof -
  note inv = main_boot_inv [OF assms] and none = main_boot_conns [OF assms]
  then have "unheard cid (srv_ctx s)" for cid
    by (auto simp: unheard_def server_inv_def ctx_inv_def live_ids_def)
  with inv none show ?thesis
    by (simp add: told_def)
qed

section \<open>A run with two clients\<close>

lemma read_events_plain:
  assumes "parser_buf conn = []" and "authenticated conn" and "command_ok c" and "plain c"
    and "length (frames [c]) \<le> max_request_bytes conn"
  shows "read_events d lib clks ends (frames [c]) (conn, a, x) =
    [Answered (conn_id conn) c (clks 0) (ends 0) (fst (dispatch d c (clks 0) x))]"
proof -
  have fed: "feed [] (frames [c]) = (Inr (Some (command_frame c)), [])"
    by (rule feed_frame [OF assms(3)]) simp
  have "command_event d (clks 0) (ends 0) c (conn, a, x) =
      Answered (conn_id conn) c (clks 0) (ends 0) (fst (dispatch d c (clks 0) x))"
    using assms(2,4) by (simp add: plain_def)
  moreover have "loop_events d lib clks ends n [] [] st = []" for n st
    by (simp add: loop_events_stop)
  ultimately show ?thesis
    using assms(1,3,5)
    by (simp add: read_events_def buffered_size_def loop_events_round [OF fed] parse_command_frame
        del: frames_simps split: prod.split option.split)
qed

abbreviation example_put :: command where
  "example_put \<equiv> \<lparr>cmd_name = ''SET'', cmd_args = [''k'', ''v'']\<rparr>"

abbreviation example_fetch :: command where
  "example_fetch \<equiv> \<lparr>cmd_name = ''GET'', cmd_args = [''k'']\<rparr>"

lemma example_commands_ok:
  "command_ok example_put" "command_ok example_fetch" "plain example_put" "plain example_fetch"
  "length (frames [example_put]) \<le> 100" "length (frames [example_fetch]) \<le> 100"
  "length (serialize (RespBulkString ''v'')) \<le> 100"
  by (simp_all add: command_ok_eval plain_def) code_simp+

text \<open>The connection of a client that has just joined the server of \<open>Server_Runs\<close>, when its first read completes.\<close>

definition example_client :: "nat \<Rightarrow> connection" where
  "example_client cid = reset_idle_timer ((start (new_connection cid True True [] 1048576 300 1048576))\<lparr>read_in_progress := False\<rparr>)"

lemma example_client_fields:
  "parser_buf (example_client cid) = []" "authenticated (example_client cid)" "conn_id (example_client cid) = cid"
  "max_request_bytes (example_client cid) = 1048576" "socket_open (example_client cid)"
  "pending_write_bytes (example_client cid) = 0" "max_pending_write_bytes (example_client cid) = 1048576"
  by (simp_all add: example_client_def new_connection_def conn_io_defs)

definition example_two :: server where
  "example_two = on_accept (Accepted True) example_joined"

lemma example_two_fields:
  "running example_two" "srv_aof example_two = None" "ctx_store (srv_ctx example_two) = kv_empty"
  "um_find (srv_conns example_two) 0 = Some (start (new_connection 0 True True [] 1048576 300 1048576))"
  "um_find (srv_conns example_two) 1 = Some (start (new_connection 1 True True [] 1048576 300 1048576))"
  by (simp_all add: example_two_def example_joined_def example_boot_def server_run_def new_server_def
      setup_signal_handlers_def server_update_defs running_def default_config_def initial_ctx_def initial_stats_def
      connection_constructed_def new_connection_def int64_defs)

lemma example_client_read:
  assumes "um_find (srv_conns s) cid = Some (start (new_connection cid True True [] 1048576 300 1048576))" and "running s"
    and "command_ok c" and "plain c" and "length (frames [c]) \<le> 100" and "srv_aof s = None"
    and "dispatch d c (\<lambda>i. t) (srv_ctx s) = (Inr r, x')"
  shows "perform d lib (ReadDone cid False (frames [c]) (\<lambda>n i. t) (\<lambda>n. t)) s =
      Some (put_conn cid (do_write (serialize r) (example_client cid)) None (count_command (example_client cid) x') s)"
    and "action_events d lib (ReadDone cid False (frames [c]) (\<lambda>n i. t) (\<lambda>n. t)) s = [Answered cid c (\<lambda>i. t) t (Inr r)]"
proof -
  let ?clks = "\<lambda>n i. t"
  have run: "execute_logged d c (?clks 0) (None, srv_ctx s) = (Inr r, None, x')"
    using assms(7) by (simp add: execute_logged_def)
  have "(example_client cid)\<lparr>parser_buf := []\<rparr> = example_client cid"
    using example_client_fields(1) [of cid] by (cases "example_client cid") simp
  with read_plain [of "example_client cid" c d ?clks None "srv_ctx s" r None x' lib, OF example_client_fields(1,2) assms(3,4) _ run]
  have "handle_data d lib (\<lambda>n i. t) (frames [c]) (example_client cid, None, srv_ctx s) =
      (do_write (serialize r) (example_client cid), None, count_command (example_client cid) x')"
    using assms(5) example_client_fields(4) by simp
  moreover have "read_in_progress (start (new_connection cid True True [] 1048576 300 1048576))"
    by (simp add: new_connection_def conn_io_defs)
  ultimately show "perform d lib (ReadDone cid False (frames [c]) (\<lambda>n i. t) (\<lambda>n. t)) s =
      Some (put_conn cid (do_write (serialize r) (example_client cid)) None (count_command (example_client cid) x') s)"
    using assms(1,2,5,6) by (simp add: on_read_complete_def del: frames_simps flip: example_client_def)
  show "action_events d lib (ReadDone cid False (frames [c]) (\<lambda>n i. t) (\<lambda>n. t)) s = [Answered cid c (\<lambda>i. t) t (Inr r)]"
    using assms(1,5,6,7) read_events_plain [OF example_client_fields(1,2) assms(3,4), of cid d lib "\<lambda>n i. t" "\<lambda>n. t" None "srv_ctx s"]
    by (simp add: example_client_fields(3,4) del: frames_simps flip: example_client_def)
qed

abbreviation example_actions :: "action list" where
  "example_actions \<equiv> [AcceptDone (Accepted True), AcceptDone (Accepted True),
     ReadDone 0 False (frames [example_put]) (\<lambda>n i. 0) (\<lambda>n. 0), ExpirySweep 1,
     ReadDone 1 False (frames [example_fetch]) (\<lambda>n i. 2) (\<lambda>n. 2)]"

lemma example_play:
  obtains s conn where "play example_table (\<lambda>e. []) example_actions example_boot =
      Some ([Answered 0 example_put (\<lambda>i. 0) 0 (Inr (RespSimpleString ''OK'')), Swept 1,
             Answered 1 example_fetch (\<lambda>i. 2) 2 (Inr (RespBulkString ''v''))], s)"
    "um_find (srv_conns s) 1 = Some conn" "socket_open conn"
proof -
  let ?x1 = "(srv_ctx example_two)\<lparr>ctx_store := kv_set 0 ''k'' (StringValue ''v'') 0 kv_empty\<rparr>"
  let ?x2 = "count_command (example_client 0) ?x1"
  let ?s3 = "put_conn 0 (do_write (serialize (RespSimpleString ''OK'')) (example_client 0)) None ?x2 example_two"
  let ?x3 = "?x2\<lparr>ctx_store := sweep 1 (ctx_store ?x2)\<rparr>"
  let ?s4 = "?s3\<lparr>srv_ctx := ?x3\<rparr>"
  let ?conn = "do_write (serialize (RespBulkString ''v'')) (example_client 1)"
  let ?s5 = "put_conn 1 ?conn None (count_command (example_client 1) ?x3) ?s4"
  have "dispatch example_table example_put (\<lambda>i. 0) (srv_ctx example_two) = (Inr (RespSimpleString ''OK''), ?x1)"
    by (simp add: dispatch_def make_default_table on_store_def cmd_set_def example_two_fields)
  note put = example_client_read [OF example_two_fields(4,1) example_commands_ok(1,3,5) example_two_fields(2) this, of "\<lambda>e. []"]
  have conn1: "um_find (srv_conns ?s4) 1 = Some (start (new_connection 1 True True [] 1048576 300 1048576))"
    and s4: "running ?s4" "srv_aof ?s4 = None"
    using example_two_fields by (simp_all add: put_conn_def running_def)
  have "kv_get 2 ''k'' (sweep 1 (kv_set 0 ''k'' (StringValue ''v'') 0 kv_empty)) =
      kv_get 2 ''k'' (kv_set 0 ''k'' (StringValue ''v'') 0 kv_empty)"
    by (simp add: kv.get_law kv.sweep_view kv.inv_set)
  also have "\<dots> = Some (StringValue ''v'')"
    by (simp add: kv.get_set_forever)
  finally have "kv_get 2 ''k'' (sweep 1 (kv_set 0 ''k'' (StringValue ''v'') 0 kv_empty)) = Some (StringValue ''v'')" .
  then have "dispatch example_table example_fetch (\<lambda>i. 2) (srv_ctx ?s4) = (Inr (RespBulkString ''v''), ?x3)"
    by (simp add: dispatch_def make_default_table on_store_def cmd_get_def)
  note fetch = example_client_read [OF conn1 s4(1) example_commands_ok(2,4,6) s4(2) this, of "\<lambda>e. []"]
  have accepts: "perform example_table (\<lambda>e. []) (AcceptDone (Accepted True)) example_boot = Some example_joined"
    "perform example_table (\<lambda>e. []) (AcceptDone (Accepted True)) example_joined = Some example_two"
    using example_boot_fields example_joined_fields(1)
    by (simp_all add: example_joined_def example_two_def) (simp add: on_accept_def create_connection_def server_do_accept_def Let_def)
  have "perform example_table (\<lambda>e. []) (ExpirySweep 1) ?s3 = Some ?s4"
    by (simp add: put_conn_def)
  with accepts put fetch show ?thesis
    using example_commands_ok(7) example_client_fields [of 1]
    by (intro that [of ?s5 ?conn])
      (simp_all del: perform.simps frames_simps action_events.simps(1), simp_all add: put_conn_def conn_io_defs)
qed

section \<open>Properties\<close>

text \<open>
  C1: All clients together see one history of the specified data. Take any run of a server that
  \<^verbatim>\<open>main\<close> has started: any number of clients that come, go and send anything, cut by TCP anywhere, with writes,
  timers, signals and sweeps of the expiry thread in between, the clock not going back. In the order in which
  the event loop executed the commands of all clients, every reply is the one of the specification, and
  at the end the store holds what the specification says. And each connection that is open and has not asked for a
  subscription has been handed exactly the serialized replies to the commands of its own client, in
  their order, with the connection's own answers to \<^verbatim>\<open>AUTH\<close> and to malformed input.
\<close>

theorem clients_share_one_history:
  assumes "main_boot parse_file disk can_open can_read can_resize can_reopen can_bind (make_default double_div True) now clks args = Inr s0"
    and "play (make_default double_div True) lib acts s0 = Some (es, s)" and "in_order t (happenings es)"
  shows "list_all2 matches (spec_history (happenings es) (abs_store (ctx_store (srv_ctx s0)))) (replies_in es)
    \<and> seen (over_at t (happenings es)) (ctx_store (srv_ctx s)) =
        fade (over_at t (happenings es)) (spec_after (happenings es) (abs_store (ctx_store (srv_ctx s0))))
    \<and> (\<forall>cid conn. um_find (srv_conns s) cid = Some conn \<and> socket_open conn \<and> unregistered cid es \<longrightarrow>
          concat (accepted conn) = client_text lib cid es)"
proof -
  have "agrees t (abs_store (ctx_store (srv_ctx s0))) (srv_ctx s0)"
    using main_boot_inv [OF assms(1)] by (simp add: agrees_def seen_abs_store server_inv_def ctx_inv_def)
  with explains_play [OF assms(2)] assms(3)
  have "list_all2 matches (spec_history (happenings es) (abs_store (ctx_store (srv_ctx s0)))) (replies_in es)"
    and "agrees (over_at t (happenings es)) (spec_after (happenings es) (abs_store (ctx_store (srv_ctx s0)))) (srv_ctx s)"
    by (simp_all add: explains_def)
  moreover have "told lib es s"
    using told_play [OF main_boot_told [OF assms(1)] assms(2)] by simp
  ultimately show ?thesis
    by (auto simp: agrees_def told_def)
qed

theorem clients_share_one_history_witness:
  "\<exists>es s conn. play example_table (\<lambda>e. []) example_actions example_boot = Some (es, s)
     \<and> um_find (srv_conns s) 1 = Some conn \<and> concat (accepted conn) = serialize (RespBulkString ''v'')
     \<and> list_all2 matches (spec_history (happenings es) (abs_store (ctx_store (srv_ctx example_boot)))) (replies_in es)"
proof -
  obtain s conn where run: "play example_table (\<lambda>e. []) example_actions example_boot =
      Some ([Answered 0 example_put (\<lambda>i. 0) 0 (Inr (RespSimpleString ''OK'')), Swept 1,
             Answered 1 example_fetch (\<lambda>i. 2) 2 (Inr (RespBulkString ''v''))], s)" (is "_ = Some (?es, s)")
    and conn: "um_find (srv_conns s) 1 = Some conn" "socket_open conn"
    by (rule example_play)
  have "in_order 0 (happenings ?es)" and "unregistered 1 ?es"
    and "client_text (\<lambda>e. []) 1 ?es = serialize (RespBulkString ''v'')"
    by (simp_all add: mono_def client_text_def)
  with clients_share_one_history [OF example_boot run, of 0] run conn show ?thesis
    by (intro exI [of _ ?es] exI [of _ s] exI [of _ conn]) auto
qed

end
