(* ===== verification/Observability.thy ===== *)
theory Observability
  imports One_History
begin

text \<open>
  What the server says about itself. \<^verbatim>\<open>METRICS\<close> prints counters that the connections and the server keep
  up to date from their constructors, destructors and loops; this theory reads its text the way a monitoring system
  does and compares the numbers with the run they are about.
\<close>

section \<open>Definitions\<close>

text \<open>Reading the exposition text: one line per metric, its name, a blank and its value.\<close>

fun split_lines :: "string \<Rightarrow> string list" where
  "split_lines [] = []"
| "split_lines (c # s) =
     (if c = LF then [] # split_lines s
      else case split_lines s of [] \<Rightarrow> [[c]] | l # ls \<Rightarrow> (c # l) # ls)"

definition scrape :: "string \<Rightarrow> string \<rightharpoonup> string" where
  "scrape body = map_of (map (\<lambda>l. (takeWhile (\<lambda>c. c \<noteq> CHR '' '') l, tl (dropWhile (\<lambda>c. c \<noteq> CHR '' '') l))) (split_lines body))"

text \<open>The commands a run reports as answered without an exception.\<close>

fun is_served :: "event \<Rightarrow> bool" where
  "is_served (Answered cid c clk t (Inr v)) \<longleftrightarrow> True"
| "is_served e \<longleftrightarrow> False"

definition served :: "event list \<Rightarrow> nat" where
  "served es = length (filter is_served es)"

section \<open>Reading the text\<close>

lemma split_lines_line: "LF \<notin> set l \<Longrightarrow> split_lines (l @ LF # s) = l # split_lines s"
  by (induction l) auto

lemma scrape_pairs:
  assumes "\<forall>(n, v)\<in>set ps. CHR '' '' \<notin> set n \<and> LF \<notin> set n \<and> LF \<notin> set v"
  shows "scrape (concat (map (\<lambda>(n, v). n @ '' '' @ v @ [LF]) ps)) = map_of ps"
  using assms
proof (induction ps)
  case Nil
  show ?case by (simp add: scrape_def)
next
  case (Cons p ps)
  obtain n v where p: "p = (n, v)" by (cases p)
  with Cons.prems have name: "\<forall>c\<in>set n. c \<noteq> CHR '' ''" and line: "LF \<notin> set (n @ '' '' @ v)"
    by auto
  note split_lines_line [OF line, of "concat (map (\<lambda>(n, v). n @ '' '' @ v @ [LF]) ps)"]
  moreover have "takeWhile (\<lambda>c. c \<noteq> CHR '' '') (n @ '' '' @ v) = n" "dropWhile (\<lambda>c. c \<noteq> CHR '' '') (n @ '' '' @ v) = '' '' @ v"
    using name by (simp_all add: takeWhile_append_all dropWhile_append_all)
  ultimately show ?case
    using Cons by (simp add: p scrape_def)
qed

lemma to_string_line: "LF \<notin> set (to_string i)"
  by (auto simp: to_string_def is_digit_def dest: nat_to_string_digits)

lemma metrics_text:
  assumes "\<And>a b. LF \<notin> set (double_div a b)"
  shows "\<exists>body. cmd_metrics double_div stats \<lparr>cmd_name = n, cmd_args = []\<rparr> clk s = (Inr (RespBulkString body), s)
    \<and> scrape body = map_of
        [(''vortek_uptime_seconds'', to_string (uptime_seconds (clk 1) stats)),
         (''vortek_connected_clients'', to_string (connected_clients stats)),
         (''vortek_total_commands_processed'', to_string (total_commands stats)),
         (''vortek_commands_per_second'', double_div (total_commands stats) (max 1 (uptime_seconds (clk 0) stats))),
         (''vortek_key_count'', to_string (int (kv_size s))),
         (''vortek_memory_bytes_approx'', to_string (int (approx_memory_bytes s))),
         (''vortek_ready'', to_string (if ready stats then 1 else 0))]" (is "\<exists>body. _ \<and> _ = map_of ?ps")
proof -
  have "cmd_metrics double_div stats \<lparr>cmd_name = n, cmd_args = []\<rparr> clk s =
      (Inr (RespBulkString (concat (map (\<lambda>(n, v). n @ '' '' @ v @ [LF]) ?ps))), s)"
    by (simp add: cmd_metrics_def metrics_body_def Let_def)
  moreover have "\<forall>(n, v)\<in>set ?ps. CHR '' '' \<notin> set n \<and> LF \<notin> set n \<and> LF \<notin> set v"
    using assms to_string_line by simp
  ultimately show ?thesis
    using scrape_pairs [of ?ps] by blast
qed

section \<open>Counting commands\<close>

lemma wrap64_add: "wrap64 (wrap64 a + b) = wrap64 (a + b)"
  by (simp add: wrap64_def)

definition counts :: "event list \<Rightarrow> server_ctx \<Rightarrow> server_ctx \<Rightarrow> bool" where
  "counts es x x' \<longleftrightarrow> (fits64 (total_commands (ctx_stats x)) \<longrightarrow>
     total_commands (ctx_stats x') = wrap64 (total_commands (ctx_stats x) + int (served es)))"

lemma counts_same: "ctx_stats x' = ctx_stats x \<Longrightarrow> served es = 0 \<Longrightarrow> counts es x x'"
  by (simp add: counts_def)

lemma counts_append:
  assumes "counts es x x1" and "counts es' x1 x2"
  shows "counts (es @ es') x x2"
  unfolding counts_def
proof
  assume "fits64 (total_commands (ctx_stats x))"
  with assms(1) have x1: "total_commands (ctx_stats x1) = wrap64 (total_commands (ctx_stats x) + int (served es))"
    by (simp add: counts_def)
  with assms(2) have "total_commands (ctx_stats x2) =
      wrap64 (wrap64 (total_commands (ctx_stats x) + int (served es)) + int (served es'))"
    by (simp add: counts_def)
  then show "total_commands (ctx_stats x2) = wrap64 (total_commands (ctx_stats x) + int (served (es @ es')))"
    by (simp add: wrap64_add served_def add.assoc)
qed

lemma counts_command:
  assumes "handle_command (make_default double_div has_broker) clk c (conn, a, x) = (exn, out, conn', a', x')"
    and "conn_has_stats conn"
  shows "counts [command_event (make_default double_div has_broker) clk t c (conn, a, x)] x x'"
proof -
  let ?d = "make_default double_div has_broker"
  have "ctx_stats (snd (handle_subscribe c conn x)) = ctx_stats x" "ctx_stats (snd (handle_unsubscribe c conn x)) = ctx_stats x"
    using handle_subscribe_ctx [of c conn x] handle_unsubscribe_ctx [of c conn x] by auto
  moreover have "ctx_stats (snd (dispatch ?d c clk x)) = ctx_stats x"
    by (rule dispatch_keeps(3))
  ultimately show ?thesis
    using assms
    by (auto simp: counts_def served_def handle_command_def execute_logged_def count_command_def wrap64_add Let_def split_def
        split: if_splits sum.splits prod.splits)
qed

lemma counts_loop:
  assumes "conn_has_stats (fst st)"
  shows "counts (loop_events (make_default double_div has_broker) lib clks ends n buf chunk st) (snd (snd st))
    (snd (snd (snd (snd (snd (handle_loop (make_default double_div has_broker) clks n buf chunk resp st))))))"
  using assms
proof (induction n buf chunk st arbitrary: resp rule: handle_loop_induct [where d = "make_default double_div has_broker" and clks = clks])
  case (stop n buf chunk st exn rest)
  then show ?case
    by (auto simp: handle_loop_stop loop_events_stop served_def intro!: counts_same split: option.splits)
next
  case (bad n buf chunk st v buf1)
  then show ?case by (auto simp: handle_loop_round loop_events_round served_def intro!: counts_same)
next
  case (thrown n buf chunk st v buf1 c ex out1 st1)
  then show ?case
    using counts_command [of double_div has_broker "clks n" c "fst st" "fst (snd st)" "snd (snd st)" _ _ "fst st1" "fst (snd st1)" "snd (snd st1)" "ends n"]
    by (simp add: handle_loop_round loop_events_round)
next
  case (more n buf chunk st v buf1 c out1 st1)
  have "conn_has_stats (fst st1)"
    using handle_command_setup [of st "make_default double_div has_broker" "clks n" c] more(3,5) by (simp add: same_setup_def)
  moreover have "counts [command_event (make_default double_div has_broker) (clks n) (ends n) c st] (snd (snd st)) (snd (snd st1))"
    using counts_command [of double_div has_broker "clks n" c "fst st" "fst (snd st)" "snd (snd st)" _ _ "fst st1" "fst (snd st1)" "snd (snd st1)" "ends n"] more
    by simp
  ultimately show ?case
    using more counts_append by (fastforce simp: handle_loop_round loop_events_round)
qed

lemma counts_read:
  assumes "handle_data (make_default double_div has_broker) lib clks chunk (conn, a, x) = (conn', a', x')" and "conn_has_stats conn"
  shows "counts (read_events (make_default double_div has_broker) lib clks ends chunk (conn, a, x)) x x'"
proof (cases rule: handle_data_cases [of conn chunk "make_default double_div has_broker" lib clks a x])
  case refused
  with assms show ?thesis
    by (auto simp: read_events_def buffered_size_def served_def intro!: counts_same)
next
  case (handled conn1 buf a1 x1 out)
  with assms counts_loop [of "(conn, a, x)" double_div has_broker lib clks ends 0 "parser_buf conn" chunk "[]"] show ?thesis
    by (auto simp: read_events_def buffered_size_def)
qed

lemma counts_action:
  assumes act: "perform (make_default double_div has_broker) lib act s = Some s'" and inv: "server_inv s"
  shows "counts (action_events (make_default double_div has_broker) lib act s) (srv_ctx s) (srv_ctx s')"
proof (cases act)
  case (ReadDone cid ec chunk clks ends)
  with act obtain conn conn' a' x' where find: "um_find (srv_conns s) cid = Some conn"
    and read: "on_read_complete (make_default double_div has_broker) lib clks ec chunk (conn, srv_aof s, srv_ctx s) = (conn', a', x')"
    and s': "s' = put_conn cid conn' a' x' s"
    by (auto split: option.splits if_splits prod.splits)
  have "conn_has_stats (reset_idle_timer (conn\<lparr>read_in_progress := False\<rparr>))"
    using server_inv_entry [OF inv find] by (simp add: conn_entry_ok_def reset_idle_timer_def)
  with find read s' show ?thesis
    using counts_read [of double_div has_broker lib clks chunk "reset_idle_timer (conn\<lparr>read_in_progress := False\<rparr>)"]
    by (auto simp: ReadDone on_read_complete_def put_conn_def served_def Let_def intro!: counts_same split: if_splits)
next
  case (Release cid)
  with act show ?thesis
    by (auto simp: counts_def served_def connection_destroyed_def Let_def split: option.splits if_splits)
next
  case (AcceptDone res)
  with act show ?thesis
    by (auto simp: counts_def served_def server_update_defs connection_constructed_def split: if_splits accept_result.split)
qed (use act in \<open>auto simp: server_update_defs counts_def served_def split: option.splits list.splits if_splits\<close>)

lemma counts_play:
  assumes "play (make_default double_div True) lib acts s = Some (es, s')" and "server_inv s"
  shows "counts es (srv_ctx s) (srv_ctx s')"
  using assms
proof (induction acts arbitrary: s es)
  case Nil
  then show ?case by (simp add: counts_same served_def)
next
  case (Cons act acts)
  let ?d = "make_default double_div True"
  obtain s1 es1 where act: "perform ?d lib act s = Some s1"
    and rest: "play ?d lib acts s1 = Some (es1, s')" and es: "es = action_events ?d lib act s @ es1"
    using Cons.prems(1) by (auto split: option.splits)
  have "server_inv s1"
    using srv.step_keeps [OF perform_step [OF act] Cons.prems(2)] .
  from counts_append [OF counts_action [OF act Cons.prems(2)] Cons.IH [OF rest this]] show ?case
    by (simp add: es)
qed

section \<open>The start\<close>

lemma run_commands_stats: "ctx_stats (run_commands (make_default double_div has_broker) clks n cs x) = ctx_stats x"
  by (induction cs arbitrary: n x) (simp_all add: dispatch_keeps(3))

lemma replay_stats:
  "ctx_stats (snd (snd (replay can_read can_resize can_open (make_default double_div has_broker) clks a x))) = ctx_stats x"
  by (auto simp: replay_def replay_loop_eq Let_def run_commands_stats split: option.split prod.split)

lemma main_boot_total:
  assumes "main_boot parse_file disk can_open can_read can_resize can_reopen can_bind (make_default double_div True) now clks args = Inr s"
  shows "total_commands (ctx_stats (srv_ctx s)) = 0"
  using assms
  by (auto simp: main_boot_def server_run_def new_server_def setup_signal_handlers_def server_update_defs split_def
      replay_stats initial_stats_def initial_ctx_def split: parse_outcome.splits if_splits)

section \<open>Properties\<close>

text \<open>
  C28: The metrics tell the truth. At any moment of a run \<^verbatim>\<open>METRICS\<close> can be read line by line, and it
  reports as connected clients the number of connections there are, as commands processed the number
  of commands handlers have answered since the start (in 64 bits), as keys the number of entries of the store,
  which is at least the number of keys that can be seen at any time, and that the server is ready
  exactly if it is not stopping. \<^verbatim>\<open>std::to_string\<close> of a \<^verbatim>\<open>double\<close> is assumed to print no line feed.
\<close>

theorem metrics_truthful:
  assumes "main_boot parse_file disk can_open can_read can_resize can_reopen can_bind (make_default double_div True) now clks args = Inr s0"
    and "play (make_default double_div True) lib acts s0 = Some (es, s)"
    and "\<And>a b. LF \<notin> set (double_div a b)"
  shows "\<exists>body. dispatch (make_default double_div True) \<lparr>cmd_name = ''METRICS'', cmd_args = []\<rparr> clk (srv_ctx s) =
      (Inr (RespBulkString body), srv_ctx s)
    \<and> scrape body ''vortek_connected_clients'' = Some (to_string (int (length (srv_conns s))))
    \<and> scrape body ''vortek_total_commands_processed'' = Some (to_string (wrap64 (int (served es))))
    \<and> scrape body ''vortek_key_count'' = Some (to_string (int (card (dom (abs_store (ctx_store (srv_ctx s)))))))
    \<and> card (dom (seen T (ctx_store (srv_ctx s)))) \<le> card (dom (abs_store (ctx_store (srv_ctx s))))
    \<and> scrape body ''vortek_ready'' = Some (if stopping s then ''0'' else ''1'')"
proof -
  let ?x = "srv_ctx s" and ?d = "make_default double_div True"
  have inv: "server_inv s"
    using srv.run_keeps [OF play_reachable [OF assms(2)] main_boot_inv [OF assms(1)]] .
  then have stats: "connected_clients (ctx_stats ?x) = int (length (srv_conns s))" "ready (ctx_stats ?x) \<longleftrightarrow> \<not> stopping s"
    and store: "kv_ok (ctx_store ?x)"
    by (simp_all add: server_inv_def ctx_inv_def)
  have total: "total_commands (ctx_stats ?x) = wrap64 (int (served es))"
    using counts_play [OF assms(2) main_boot_inv [OF assms(1)]] main_boot_total [OF assms(1)] by (simp add: counts_def)
  have dom: "dom (abs_store (ctx_store ?x)) = dom (um_find (kv_data (ctx_store ?x)))"
    by (auto simp: abs_store_def)
  then have size: "kv_size (ctx_store ?x) = card (dom (abs_store (ctx_store ?x)))"
    using store um.size_card [of "kv_data (ctx_store ?x)"] by (simp add: kv_size_def kv_ok_def)
  have "dom (seen T (ctx_store ?x)) \<subseteq> dom (abs_store (ctx_store ?x))"
    by (auto simp: seen_abs_store fade_def split: option.splits if_splits)
  moreover have "finite (dom (abs_store (ctx_store ?x)))"
    unfolding dom by (rule finite_dom_map_of)
  ultimately have "card (dom (seen T (ctx_store ?x))) \<le> card (dom (abs_store (ctx_store ?x)))"
    by (intro card_mono)
  moreover have "to_string 0 = ''0''" "to_string 1 = ''1''"
    by code_simp+
  moreover obtain body where "cmd_metrics double_div (ctx_stats ?x) \<lparr>cmd_name = ''METRICS'', cmd_args = []\<rparr> clk (ctx_store ?x) =
      (Inr (RespBulkString body), ctx_store ?x)"
    and "scrape body ''vortek_connected_clients'' = Some (to_string (int (length (srv_conns s))))"
    and "scrape body ''vortek_total_commands_processed'' = Some (to_string (wrap64 (int (served es))))"
    and "scrape body ''vortek_key_count'' = Some (to_string (int (kv_size (ctx_store ?x))))"
    and "scrape body ''vortek_ready'' = Some (to_string (if stopping s then 0 else 1))"
    using metrics_text [of double_div "ctx_stats ?x" "''METRICS''" clk "ctx_store ?x", OF assms(3)] stats total by auto
  ultimately show ?thesis
    by (intro exI [of _ body]) (simp add: dispatch_def make_default_table with_stats_def on_store_def size)
qed

theorem metrics_truthful_witness:
  "\<exists>es s body. play example_table (\<lambda>e. []) example_actions example_boot = Some (es, s)
    \<and> dispatch example_table \<lparr>cmd_name = ''METRICS'', cmd_args = []\<rparr> (\<lambda>i. 3) (srv_ctx s) = (Inr (RespBulkString body), srv_ctx s)
    \<and> scrape body ''vortek_connected_clients'' = Some (to_string (int (length (srv_conns s))))
    \<and> scrape body ''vortek_total_commands_processed'' = Some ''2''"
proof -
  obtain s where run: "play example_table (\<lambda>e. []) example_actions example_boot =
      Some ([Answered 0 example_put (\<lambda>i. 0) 0 (Inr (RespSimpleString ''OK'')), Swept 1,
             Answered 1 example_fetch (\<lambda>i. 2) 2 (Inr (RespBulkString ''v''))], s)" (is "_ = Some (?es, s)")
    by (rule example_play)
  have "wrap64 (int (served ?es)) = 2"
    by (simp add: served_def int64_defs)
  moreover have "to_string 2 = ''2''"
    by code_simp
  ultimately show ?thesis
    using metrics_truthful [OF example_boot run, of "\<lambda>i. 3" 3] run by auto
qed

end
