(* ===== verification/Progress.thy ===== *)
theory Progress
  imports Event_Loop Output_Order
begin

text \<open>
  What the server gets done. The other theories say that nothing wrong happens; here infinite
  runs are shown to lead somewhere, under assumptions on the outside world alone: what was handed to a
  connection is written if its client keeps reading, and a client that stays silent is disconnected.
\<close>

section \<open>Definitions\<close>

text \<open>The buffers whose write is over: all that were started but the one under way.\<close>

definition written :: "connection \<Rightarrow> string list" where
  "written conn = (if write_in_progress conn then butlast (async_writes conn) else async_writes conn)"

text \<open>The connection is of no more interest: the server has ended, or the connection is closed or gone.\<close>

definition lost :: "nat \<Rightarrow> server \<Rightarrow> bool" where
  "lost cid s \<longleftrightarrow> \<not> running s
     \<or> (case um_find (srv_conns s) cid of None \<Rightarrow> True | Some conn \<Rightarrow> \<not> socket_open conn)"

definition writing :: "nat \<Rightarrow> server \<Rightarrow> bool" where
  "writing cid s \<longleftrightarrow> (case um_find (srv_conns s) cid of None \<Rightarrow> False | Some conn \<Rightarrow> write_in_progress conn)"

definition armed :: "nat \<Rightarrow> server \<Rightarrow> bool" where
  "armed cid s \<longleftrightarrow> (case um_find (srv_conns s) cid of None \<Rightarrow> False | Some conn \<Rightarrow> idle_armed conn)"

text \<open>
  The assumptions on the outside world. A client that keeps reading: a write does not stay under way for ever. A
  timer that works: it never completes with an error, and a wait is over at some time unless traffic on the
  connection starts it anew.
\<close>

definition client_reads :: "dispatcher \<Rightarrow> (std_exn \<Rightarrow> string) \<Rightarrow> nat \<Rightarrow> (nat \<Rightarrow> server) \<Rightarrow> bool" where
  "client_reads d lib cid f \<longleftrightarrow>
     (\<forall>i. \<exists>j\<ge>i. lost cid (f j) \<or> \<not> writing cid (f j) \<or> perform d lib (WriteDone cid False) (f j) = Some (f (Suc j)))"

definition traffic :: "dispatcher \<Rightarrow> (std_exn \<Rightarrow> string) \<Rightarrow> nat \<Rightarrow> server \<Rightarrow> server \<Rightarrow> bool" where
  "traffic d lib cid s s' \<longleftrightarrow>
     (\<exists>ec chunk clks ends. perform d lib (ReadDone cid ec chunk clks ends) s = Some s')
     \<or> (\<exists>ec. perform d lib (WriteDone cid ec) s = Some s')"

definition timer_works :: "dispatcher \<Rightarrow> (std_exn \<Rightarrow> string) \<Rightarrow> nat \<Rightarrow> (nat \<Rightarrow> server) \<Rightarrow> bool" where
  "timer_works d lib cid f \<longleftrightarrow>
     (\<forall>i c. perform d lib (IdleFired c False True) (f i) \<noteq> Some (f (Suc i)))
     \<and> (\<forall>i. \<exists>j\<ge>i. lost cid (f j) \<or> \<not> armed cid (f j) \<or> traffic d lib cid (f j) (f (Suc j))
            \<or> perform d lib (IdleFired cid False False) (f j) = Some (f (Suc j)))"

section \<open>Writes\<close>

lemma flight_ok_complete:
  "flight_ok (on_write_complete ec n conn)" if "flight_ok conn"
  using that by (auto simp: flight_ok_def conn_io_defs)

lemma written_complete:
  assumes "flight_ok conn" and "write_in_progress conn" and "socket_open (on_write_complete ec n conn)"
  shows "length (written (on_write_complete ec n conn)) = Suc (length (written conn))"
  using assms by (auto simp: flight_ok_def written_def conn_io_defs split: if_splits)

lemma written_accepted: "prefix (written conn) (accepted conn)"
  by (auto simp: written_def accepted_def intro: prefix_order.trans [OF prefixeq_butlast])

text \<open>On an open connection something is being written as long as something is left to write.\<close>

lemma unwritten_busy:
  assumes "conn_ok conn" and "socket_open conn" and "length (written conn) < length (accepted conn)"
  shows "write_in_progress conn"
  using assms by (cases "write_in_progress conn") (auto simp: conn_ok_def written_def accepted_def)

definition flights_ok :: "server \<Rightarrow> bool" where
  "flights_ok s \<longleftrightarrow> server_inv s \<and> (\<forall>cid conn. um_find (srv_conns s) cid = Some conn \<longrightarrow> flight_ok conn)"

lemma step_flights_ok:
  assumes step: "server_step (make_default double_div True) lib s s'" and old: "flights_ok s"
  shows "flights_ok s'"
proof -
  have inv: "server_inv s'"
    using srv.step_keeps [OF step] old by (simp add: flights_ok_def)
  have "flight_ok conn'" if new: "um_find (srv_conns s') cid = Some conn'" for cid conn'
  proof (cases "um_find (srv_conns s) cid")
    case None
    from step show ?thesis
    proof cases
      case (accept_done res)
      with new None show ?thesis
        by (auto simp: server_update_defs update_conv flight_ok_def new_connection_def start_def do_read_def
            reset_idle_timer_def split: accept_result.splits if_splits)
    qed (use new None in \<open>auto simp: put_conn_def update_conv vortek_signal_handler_def on_poll_timer_conns delete_conv' split: if_splits\<close>)
  next
    case (Some conn)
    then have "cid < srv_next_id s" and "flight_ok conn"
      using old server_inv_entry [OF _ Some] by (auto simp: flights_ok_def conn_entry_ok_def)
    then show ?thesis
      by (cases rule: step_output [OF step Some new]) (auto simp: output_grows_def flight_ok_complete)
  qed
  with inv show ?thesis by (simp add: flights_ok_def)
qed

interpretation flights: preserved "server_step (make_default double_div True) lib" flights_ok for double_div lib
  by unfold_locales (rule step_flights_ok)

text \<open>One more write gets over.\<close>

definition awaits :: "nat \<Rightarrow> nat \<Rightarrow> server \<Rightarrow> bool" where
  "awaits cid n s \<longleftrightarrow> flights_ok s \<and> \<not> lost cid s
     \<and> (\<forall>conn. um_find (srv_conns s) cid = Some conn \<longrightarrow> write_in_progress conn \<and> length (written conn) = n)"

definition gone_beyond :: "nat \<Rightarrow> nat \<Rightarrow> server \<Rightarrow> bool" where
  "gone_beyond cid n s \<longleftrightarrow> lost cid s
     \<or> (\<forall>conn. um_find (srv_conns s) cid = Some conn \<longrightarrow> n \<le> length (written conn))"

lemma step_awaits:
  assumes step: "server_step (make_default double_div True) lib s s'" and before: "awaits cid n s"
  shows "awaits cid n s' \<or> gone_beyond cid (Suc n) s'"
proof (cases "lost cid s'")
  case False
  obtain conn where old: "um_find (srv_conns s) cid = Some conn"
    using before by (auto simp: awaits_def lost_def split: option.splits)
  obtain conn' where new: "um_find (srv_conns s') cid = Some conn'" and opened: "socket_open conn'"
    using False by (auto simp: lost_def split: option.splits)
  have conn: "flight_ok conn" "write_in_progress conn" "length (written conn) = n" "cid < srv_next_id s"
    using before old server_inv_entry [OF _ old] by (auto simp: awaits_def flights_ok_def conn_entry_ok_def)
  have inv: "flights_ok s'"
    using step_flights_ok [OF step] before by (simp add: awaits_def)
  show ?thesis
  proof (cases rule: step_output [OF step old new conn(4)])
    case (1 ec)
    with written_complete [OF conn(1,2)] opened conn(3) new show ?thesis by (simp add: gone_beyond_def)
  next
    case 2
    with conn new inv False show ?thesis by (auto simp: awaits_def output_grows_def written_def)
  qed
qed (simp add: gone_beyond_def)

lemma completion_helps:
  assumes "perform d lib (WriteDone cid False) s = Some s'" and before: "awaits cid n s"
  shows "gone_beyond cid (Suc n) s'"
proof -
  obtain conn where old: "um_find (srv_conns s) cid = Some conn"
    and s': "s' = put_conn cid (on_write_complete False (length (write_buf conn)) conn) (srv_aof s) (srv_ctx s) s"
    using assms(1) by (auto split: option.splits if_splits)
  then have "flight_ok conn" "write_in_progress conn" "length (written conn) = n"
    using before by (auto simp: awaits_def flights_ok_def)
  with written_complete [of conn False "length (write_buf conn)"] show ?thesis
    by (auto simp: gone_beyond_def lost_def s' put_conn_def)
qed

interpretation writer: fair_progress "server_step (make_default double_div True) lib" "awaits cid n" "gone_beyond cid (Suc n)"
  "\<lambda>s s'. perform (make_default double_div True) lib (WriteDone cid False) s = Some s'" for double_div lib cid n
  by unfold_locales (use step_awaits completion_helps in blast)+

lemma written_up_to:
  fixes double_div
  defines "d \<equiv> make_default double_div True"
  assumes trace: "server_trace d lib f" and reads: "client_reads d lib cid f" and start: "flights_ok (f i)"
    and acc: "\<And>j conn'. i \<le> j \<Longrightarrow> um_find (srv_conns (f j)) cid = Some conn' \<Longrightarrow> m \<le> length (accepted conn')"
  shows "n \<le> m \<Longrightarrow> \<exists>j\<ge>i. gone_beyond cid n (f j)"
proof (induction n)
  case 0
  show ?case by (auto simp: gone_beyond_def)
next
  case (Suc n)
  then obtain j where j: "i \<le> j" "gone_beyond cid n (f j)" by auto
  have steps: "server_step d lib (f k) (f (Suc k))" for k
    using trace by (simp add: server_trace_def)
  show ?case
  proof (cases "gone_beyond cid (Suc n) (f j)")
    case False
    then obtain conn where conn: "um_find (srv_conns (f j)) cid = Some conn" "\<not> lost cid (f j)" "length (written conn) = n"
      using j(2) by (auto simp: gone_beyond_def)
    have ok: "flights_ok (f j)"
      using flights.trace_keeps [of i j _ _ f, OF j(1) steps [unfolded d_def] start] .
    then have "conn_ok conn"
      using server_inv_entry [OF _ conn(1)] by (auto simp: flights_ok_def conn_entry_ok_def conn_inv_def)
    moreover have "n < length (accepted conn)"
      using acc [OF j(1) conn(1)] Suc.prems by simp
    ultimately have "write_in_progress conn"
      using unwritten_busy [of conn] conn by (auto simp: lost_def)
    with ok conn have "awaits cid n (f j)"
      by (simp add: awaits_def)
    moreover obtain k where "k \<ge> j" "lost cid (f k) \<or> \<not> writing cid (f k) \<or> perform d lib (WriteDone cid False) (f k) = Some (f (Suc k))"
      using reads by (auto simp: client_reads_def)
    moreover from this(2) have "\<not> awaits cid n (f k) \<or> perform d lib (WriteDone cid False) (f k) = Some (f (Suc k))"
      by (auto simp: awaits_def writing_def lost_def split: option.splits)
    ultimately obtain k where "k \<ge> j" "gone_beyond cid (Suc n) (f k)"
      using writer.leads_to [of double_div lib f cid n j] steps unfolding d_def by blast
    with j(1) show ?thesis by (meson order_trans)
  qed (use j(1) in blast)
qed

section \<open>Idle connections\<close>

text \<open>As long as its socket is open a connection keeps its idle timer.\<close>

definition keeps_watch :: "connection \<Rightarrow> connection \<Rightarrow> bool" where
  "keeps_watch conn conn' \<longleftrightarrow> (socket_open conn' \<longrightarrow> socket_open conn \<and> (idle_armed conn \<longrightarrow> idle_armed conn'))"

lemma keeps_watch_trans: "keeps_watch a b \<Longrightarrow> keeps_watch b c \<Longrightarrow> keeps_watch a c"
  by (simp add: keeps_watch_def)

lemma keeps_watch_primitives:
  "keeps_watch conn conn" "keeps_watch conn (do_write w conn)" "keeps_watch conn (do_read conn)"
  "keeps_watch conn (reset_idle_timer conn)" "keeps_watch conn (close_socket conn)"
  "keeps_watch conn (conn\<lparr>subscribed_channels := sc\<rparr>)" "keeps_watch conn (conn\<lparr>parser_buf := b\<rparr>)"
  "keeps_watch conn (conn\<lparr>read_in_progress := rd\<rparr>)" "keeps_watch conn (conn\<lparr>close_after_write := cl\<rparr>)"
  "keeps_watch conn (snd (handle_auth c conn))" "keeps_watch conn (on_write_complete ec n conn)"
  by (auto simp: keeps_watch_def conn_io_defs handle_auth_def)

lemma keeps_watch_command: "keeps_watch (fst st) (fst (snd (snd (handle_command d clk c st))))"
proof -
  obtain conn a x where st: "st = (conn, a, x)" by (cases st)
  have "keeps_watch conn (fst (handle_subscribe c conn x))"
    by (rule handle_subscribe_conn [of c conn x]) (auto intro: keeps_watch_trans keeps_watch_primitives)
  moreover have "keeps_watch conn (fst (handle_unsubscribe c conn x))"
    by (rule handle_unsubscribe_conn [of c conn x]) (auto intro: keeps_watch_trans keeps_watch_primitives)
  ultimately show ?thesis
    using keeps_watch_primitives(1,10) [of conn]
    by (auto simp: st handle_command_def split: prod.splits sum.splits) (metis snd_conv)+
qed

lemma keeps_watch_read: "keeps_watch conn (fst (on_read_complete d lib clks ec chunk (conn, a, x)))"
proof -
  have data: "keeps_watch conn (fst (handle_data d lib clks chunk (conn, a, x)))" for conn
  proof (cases rule: handle_data_cases [of conn chunk d lib clks a x])
    case refused
    then show ?thesis
      by (simp only: fst_conv) (intro keeps_watch_trans [OF _ keeps_watch_primitives(2)], simp add: keeps_watch_def)
  next
    case (handled conn' buf a' x' out)
    have "keeps_watch conn (fst (snd (snd (snd (handle_loop d clks 0 (parser_buf conn) chunk [] (conn, a, x))))))"
      by (rule handle_loop_invariant [where I = "\<lambda>st. keeps_watch conn (fst st)"])
        (auto intro: keeps_watch_trans [OF _ keeps_watch_command] keeps_watch_primitives)
    then have "keeps_watch conn (conn'\<lparr>parser_buf := buf\<rparr>)"
      using handled(2) by (simp add: keeps_watch_def)
    with handled(4) show ?thesis
      by (auto intro: keeps_watch_trans keeps_watch_primitives)
  qed
  have "keeps_watch conn (reset_idle_timer (conn\<lparr>read_in_progress := False\<rparr>))"
    "keeps_watch conn (close_socket (conn\<lparr>read_in_progress := False\<rparr>))"
    by (auto intro: keeps_watch_trans keeps_watch_primitives)
  then show ?thesis
    using keeps_watch_trans [OF _ data] by (simp add: on_read_complete_def Let_def)
qed

definition watched :: "server \<Rightarrow> bool" where
  "watched s \<longleftrightarrow> srv_idle_timeout s \<noteq> 0
     \<and> (\<forall>cid conn. um_find (srv_conns s) cid = Some conn \<longrightarrow> socket_open conn \<longrightarrow> idle_armed conn)"

text \<open>A step other than an error of an idle timer.\<close>

definition sound_step :: "dispatcher \<Rightarrow> (std_exn \<Rightarrow> string) \<Rightarrow> server \<Rightarrow> server \<Rightarrow> bool" where
  "sound_step d lib s s' \<longleftrightarrow> server_step d lib s s' \<and> (\<forall>c. perform d lib (IdleFired c False True) s \<noteq> Some s')"

lemma step_idle_timeout: "server_step d lib s s' \<Longrightarrow> srv_idle_timeout s' = srv_idle_timeout s"
  by (erule server_stepE) (auto simp: server_update_defs split: accept_result.split)

lemma step_watched:
  assumes "sound_step d lib s s'" and old: "watched s"
  shows "watched s'"
proof -
  have step: "server_step d lib s s'" and sound: "perform d lib (IdleFired c False True) s \<noteq> Some s'" for c
    using assms(1) by (simp_all add: sound_step_def)
  have put: "idle_armed e" if "um_find (srv_conns (put_conn c conn' a' x' s)) cid = Some e" "socket_open e"
    "um_find (srv_conns s) c = Some conn" "keeps_watch conn conn'" for c cid conn conn' a' x' e
    using that old by (cases "c = cid") (auto simp: watched_def keeps_watch_def put_conn_def update_conv)
  have "idle_armed conn'" if new: "um_find (srv_conns s') cid = Some conn'" "socket_open conn'" for cid conn'
    using step
  proof cases
    case (accept_done res)
    with new old show ?thesis
      by (auto simp: watched_def server_update_defs update_conv new_connection_def start_def do_read_def
          reset_idle_timer_def split: accept_result.splits if_splits)
  next
    case (read_done c conn1 chunk clks ec conn2 a2 x2)
    with keeps_watch_read [of conn1 d lib clks ec chunk "srv_aof s" "srv_ctx s"] put new show ?thesis by fastforce
  next
    case (write_done c conn1 ec)
    with put new keeps_watch_primitives(11) show ?thesis by blast
  next
    case (idle_fired c conn1 aborted ec)
    with sound [of c] have "aborted \<or> \<not> ec"
      by auto
    then have "keeps_watch conn1 (on_idle_timer aborted ec conn1)"
      by (auto simp: keeps_watch_def conn_io_defs)
    with idle_fired put new show ?thesis by blast
  next
    case (posted_write c frame rest conn1)
    with put new keeps_watch_primitives(2) show ?thesis by blast
  qed (use new old in \<open>auto simp: watched_def vortek_signal_handler_def on_poll_timer_conns delete_conv' split: if_splits\<close>)
  with step_idle_timeout [OF step] old show ?thesis
    by (simp add: watched_def)
qed

interpretation watch: preserved "sound_step d lib" watched for d lib
  by unfold_locales (rule step_watched)

lemma timeout_helps:
  assumes "perform d lib (IdleFired cid False False) s = Some s'"
  shows "lost cid s'"
  using assms by (auto simp: lost_def put_conn_def conn_io_defs split: option.splits if_splits)

section \<open>A run\<close>

text \<open>
  The server of \<open>Server_Runs\<close>: its client subscribes, the confirmation is written, and from then on nothing happens
  but a signal that is raised again and again; or the idle timer fires first.
\<close>

definition example_act :: "action \<Rightarrow> server \<Rightarrow> server" where
  "example_act act s = the (perform example_table (\<lambda>e. []) act s)"

definition example_then :: "action \<Rightarrow> nat \<Rightarrow> server" where
  "example_then act n =
     (let s3 = example_act act example_subscribed
      in if n = 0 then example_boot else if n = 1 then example_joined else if n = 2 then example_subscribed
         else if n = 3 then s3 else vortek_signal_handler 15 s3)"

lemma example_then_simps:
  "example_then act 0 = example_boot" "example_then act 1 = example_joined" "example_then act 2 = example_subscribed"
  "example_then act 3 = example_act act example_subscribed"
  "4 \<le> n \<Longrightarrow> example_then act n = vortek_signal_handler 15 (example_act act example_subscribed)"
  by (simp_all add: example_then_def)

lemma less_4: "(n::nat) < 4 \<longleftrightarrow> n = 0 \<or> n = 1 \<or> n = 2 \<or> n = 3"
  by auto

lemma example_then_trace:
  assumes "perform example_table (\<lambda>e. []) act example_subscribed = Some s"
  shows "server_trace example_table (\<lambda>e. []) (example_then act)"
    and "example_act act example_subscribed = s"
proof -
  show act: "example_act act example_subscribed = s"
    using assms by (simp add: example_act_def)
  have signal: "server_step example_table (\<lambda>e. []) s (vortek_signal_handler 15 s)" for s
    by (rule signal_raised) (simp add: handled_signals_def)
  have idle: "vortek_signal_handler 15 (vortek_signal_handler 15 s) = vortek_signal_handler 15 s" for s
    by (simp add: vortek_signal_handler_def)
  have "server_step example_table (\<lambda>e. []) (example_then act n) (example_then act (Suc n))" for n
  proof (cases "n < 4")
    case True
    then show ?thesis
      using example_joined [of "\<lambda>e. []"] example_subscribed_step perform_step [OF assms] signal [of s]
      by (auto simp: less_4 example_then_def act Let_def numeral_eq_Suc)
  next
    case False
    with signal [of "vortek_signal_handler 15 s"] show ?thesis
      by (simp add: example_then_simps act idle)
  qed
  then show "server_trace example_table (\<lambda>e. []) (example_then act)"
    by (simp add: server_trace_def)
qed

lemma example_conns:
  "um_find (srv_conns example_boot) c = None"
  "um_find (srv_conns example_joined) c = (if c = 0 then Some (start (new_connection 0 True True [] 1048576 300 1048576)) else None)"
  by (simp_all add: example_boot_fields example_joined_fields(3))
    (simp add: example_joined_def on_accept_def create_connection_def server_do_accept_def example_boot_fields Let_def)

lemma example_subscribed_state:
  obtains conn where "um_find (srv_conns example_subscribed) = (\<lambda>c. if c = 0 then Some conn else None)"
    "write_in_progress conn" "write_queue conn = []" "socket_open conn" "idle_armed conn" "\<not> close_after_write conn"
    "running example_subscribed" "accepted conn = [make_subscribe_reply ''subscribe'' ''news'' 1]"
proof -
  have conn: "idle_armed example_conn" "\<not> close_after_write example_conn"
    by (simp_all add: example_conn_def new_connection_def conn_io_defs)
  have "running example_subscribed"
    using example_joined_fields(1) by (simp add: example_subscribed_eq put_conn_def running_def)
  with conn show ?thesis
    using example_subscribe_ok(3) example_conn_fields example_conns(2)
    by (intro that [of "the (um_find (srv_conns example_subscribed) 0)"])
      (simp_all add: example_subscribed_eq put_conn_def do_read_def do_write_def flush_write_queue_def accepted_def Let_def
        update_conv fun_eq_iff)
qed

lemma timer_error:
  assumes "perform d lib (IdleFired c False True) s1 = Some s2"
  obtains conn1 where "um_find (srv_conns s1) c = Some conn1" "idle_armed conn1"
    "socket_open conn1 \<Longrightarrow> um_find (srv_conns s2) c = Some (conn1\<lparr>idle_armed := False\<rparr>)"
  using assms by (auto simp: put_conn_def on_idle_timer_def split: option.splits if_splits)

lemma example_timer:
  "server_trace example_table (\<lambda>e. []) (example_then (IdleFired 0 False False))"
  "timer_works example_table (\<lambda>e. []) 0 (example_then (IdleFired 0 False False))"
proof -
  let ?f = "example_then (IdleFired 0 False False)" and ?d = example_table and ?lib = "\<lambda>e. []"
  obtain conn where conn: "um_find (srv_conns example_subscribed) = (\<lambda>c. if c = 0 then Some conn else None)"
    "write_in_progress conn" "write_queue conn = []" "socket_open conn" "idle_armed conn" "\<not> close_after_write conn"
    "running example_subscribed" "accepted conn = [make_subscribe_reply ''subscribe'' ''news'' 1]"
    by (rule example_subscribed_state)
  define s where "s = put_conn 0 (close_socket conn) (srv_aof example_subscribed) (srv_ctx example_subscribed) example_subscribed"
  have act: "perform ?d ?lib (IdleFired 0 False False) example_subscribed = Some s"
    using conn by (simp add: s_def on_idle_timer_def)
  note run = example_then_trace [OF act]
  show "server_trace ?d ?lib ?f" by (rule run(1))
  have closed: "um_find (srv_conns s) c = (if c = 0 then Some (close_socket conn) else None)" for c
    using conn(1) by (simp add: s_def put_conn_def update_conv)
  have late: "srv_conns (?f n) = srv_conns s" if "3 \<le> n" for n
    using that run(2) by (cases "n = 3") (simp_all add: example_then_simps vortek_signal_handler_def)
  have f: "?f 0 = example_boot" "?f (Suc 0) = example_joined" "?f (Suc (Suc 0)) = example_subscribed" "?f (Suc (Suc (Suc 0))) = s"
    using run(2) by (simp_all add: example_then_def)
  have False if failed: "perform ?d ?lib (IdleFired c False True) (?f n) = Some (?f (Suc n))" for n c
  proof (rule timer_error [OF failed])
    fix conn1
    assume c1: "um_find (srv_conns (?f n)) c = Some conn1" "idle_armed conn1"
      and c2: "socket_open conn1 \<Longrightarrow> um_find (srv_conns (?f (Suc n))) c = Some (conn1\<lparr>idle_armed := False\<rparr>)"
    consider "n = 0" | "n = Suc 0" | "n = Suc (Suc 0)" | "3 \<le> n" by linarith
    then show False
    proof cases
      case 2
      with c1(1) have "socket_open conn1"
        by (auto simp: f example_conns new_connection_def conn_io_defs split: if_splits)
      from c2 [OF this] 2 conn(1) have "\<not> idle_armed conn"
        by (auto simp: f split: if_splits)
      with conn(5) show False by contradiction
    next
      case 3
      with c1(1) conn(1) have "conn1 = conn"
        by (auto simp: f split: if_splits)
      with c2 conn(4) 3 closed [of c] have "close_socket conn = conn\<lparr>idle_armed := False\<rparr>"
        by (simp add: f split: if_splits)
      from arg_cong [OF this, of socket_open] conn(4) show False by (simp add: close_socket_def)
    qed (use c1 closed late in \<open>auto simp: f example_conns close_socket_def split: if_splits\<close>)
  qed
  moreover have "\<exists>j\<ge>i. lost 0 (?f j)" for i
    using late [of "i + 3"] closed by (intro exI [of _ "i + 3"]) (simp add: lost_def close_socket_def)
  ultimately show "timer_works ?d ?lib 0 ?f"
    unfolding timer_works_def by blast
qed

section \<open>Properties\<close>

text \<open>
  C13: Replies reach the client. In any run in which the client of a connection keeps reading (a write of
  the connection does not stay under way for ever), everything that had been handed over for writing at some
  moment has been written completely at a later one, in order, unless the connection is closed or the
  server ends before.
\<close>

theorem output_gets_written:
  assumes "main_boot parse_file disk can_open can_read can_resize can_reopen can_bind (make_default double_div True) now clks args = Inr (f 0)"
    and trace: "server_trace (make_default double_div True) lib f"
    and reads: "client_reads (make_default double_div True) lib cid f"
    and conn: "um_find (srv_conns (f i)) cid = Some conn"
  shows "\<exists>j\<ge>i. lost cid (f j)
    \<or> (\<exists>conn'. um_find (srv_conns (f j)) cid = Some conn' \<and> prefix (accepted conn) (written conn'))"
proof -
  let ?d = "make_default double_div True"
  have steps: "server_step ?d lib (f k) (f (Suc k))" for k
    using trace by (simp add: server_trace_def)
  have "flights_ok (f 0)"
    using main_boot_inv [OF assms(1)] main_boot_conns [OF assms(1)] by (simp add: flights_ok_def)
  then have ok: "flights_ok (f i)"
    using flights.trace_keeps [of 0 i _ _ f] steps by blast
  have "output_from cid (accepted conn) (async_writes conn) (f i)"
    using ok server_inv_entry [OF _ conn] conn by (simp add: output_from_def flights_ok_def conn_entry_ok_def)
  then have "output_from cid (accepted conn) (async_writes conn) (f j)" if "i \<le> j" for j
    by (rule outgoing.trace_keeps [where f = f, OF that steps])
  then have later: "prefix (accepted conn) (accepted conn')"
    if "i \<le> j" "um_find (srv_conns (f j)) cid = Some conn'" for j conn'
    using that by (auto simp: output_from_def)
  obtain j where "i \<le> j" "gone_beyond cid (length (accepted conn)) (f j)"
    using written_up_to [OF trace reads ok, of "length (accepted conn)"] prefix_length_le [OF later] by blast
  moreover from this have "prefix (accepted conn) (written conn')"
    if "um_find (srv_conns (f j)) cid = Some conn'" "\<not> lost cid (f j)" for conn'
    using that prefix_length_prefix [OF later written_accepted] by (auto simp: gone_beyond_def)
  ultimately show ?thesis
    by (auto simp: lost_def split: option.splits)
qed

theorem output_gets_written_witness:
  "\<exists>j\<ge>2. lost 0 (example_then (WriteDone 0 False) j)
    \<or> (\<exists>conn'. um_find (srv_conns (example_then (WriteDone 0 False) j)) 0 = Some conn'
         \<and> prefix [make_subscribe_reply ''subscribe'' ''news'' 1] (written conn'))"
proof -
  let ?f = "example_then (WriteDone 0 False)" and ?d = example_table and ?lib = "\<lambda>e. []"
  obtain conn where conn: "um_find (srv_conns example_subscribed) = (\<lambda>c. if c = 0 then Some conn else None)"
    "write_in_progress conn" "write_queue conn = []" "socket_open conn" "idle_armed conn" "\<not> close_after_write conn"
    "running example_subscribed" "accepted conn = [make_subscribe_reply ''subscribe'' ''news'' 1]"
    by (rule example_subscribed_state)
  define s where "s = put_conn 0 (on_write_complete False (length (write_buf conn)) conn) (srv_aof example_subscribed)
      (srv_ctx example_subscribed) example_subscribed"
  have act: "perform ?d ?lib (WriteDone 0 False) example_subscribed = Some s"
    using conn by (simp add: s_def)
  note run = example_then_trace [OF act]
  have "\<not> writing 0 s"
    using conn(3) by (auto simp: writing_def s_def put_conn_def conn_io_defs)
  then have quiet: "\<not> writing 0 (?f n)" if "3 \<le> n" for n
    using that run(2) by (cases "n = 3") (simp_all add: example_then_simps writing_def vortek_signal_handler_def)
  have "\<exists>j\<ge>i. lost 0 (?f j) \<or> \<not> writing 0 (?f j) \<or> perform ?d ?lib (WriteDone 0 False) (?f j) = Some (?f (Suc j))" for i
  proof (cases "i \<le> 2")
    case True
    have "?f 2 = example_subscribed" and "?f (Suc 2) = s"
      using run(2) by (simp_all add: example_then_def)
    with True act show ?thesis by (intro exI [of _ 2]) simp
  next
    case False
    with quiet [of i] show ?thesis by (intro exI [of _ i]) simp
  qed
  then have reads: "client_reads ?d ?lib 0 ?f"
    unfolding client_reads_def by blast
  have boot: "main_boot (\<lambda>p. Inl []) (\<lambda>p. None) True True True True True ?d 0 (\<lambda>n i. 0) [''--no-aof''] = Inr (?f 0)"
    using example_boot by (simp add: example_then_simps)
  have "um_find (srv_conns (?f 2)) 0 = Some conn"
    using conn(1) by (simp add: example_then_simps)
  from output_gets_written [where f = ?f, OF boot run(1) reads this] conn(8) show ?thesis by simp
qed

text \<open>
  C22: A silent client is disconnected. If an idle timeout is configured and the timers work, then after any
  moment of a run every connection is closed at some time, or there is traffic on it, or the server ends.
\<close>

theorem idle_client_disconnected:
  assumes "main_boot parse_file disk can_open can_read can_resize can_reopen can_bind (make_default double_div True) now clks args = Inr (f 0)"
    and trace: "server_trace (make_default double_div True) lib f"
    and timer: "timer_works (make_default double_div True) lib cid f"
    and "srv_idle_timeout (f 0) \<noteq> 0"
  shows "\<exists>j\<ge>i. lost cid (f j) \<or> traffic (make_default double_div True) lib cid (f j) (f (Suc j))"
proof -
  let ?d = "make_default double_div True"
  have steps: "sound_step ?d lib (f k) (f (Suc k))" for k
    using trace timer by (simp add: server_trace_def timer_works_def sound_step_def)
  have "watched (f 0)"
    using assms(4) main_boot_conns [OF assms(1)] by (simp add: watched_def)
  then have watched: "watched (f j)" for j
    using watch.trace_keeps [of 0 j _ _ f] steps by blast
  obtain j where j: "i \<le> j" "lost cid (f j) \<or> \<not> armed cid (f j) \<or> traffic ?d lib cid (f j) (f (Suc j))
      \<or> perform ?d lib (IdleFired cid False False) (f j) = Some (f (Suc j))"
    using timer unfolding timer_works_def by blast
  moreover have "armed cid (f j) \<or> lost cid (f j)"
    using watched [of j] by (auto simp: watched_def armed_def lost_def split: option.splits)
  moreover have "\<exists>j\<ge>i. lost cid (f j)"
    if "perform ?d lib (IdleFired cid False False) (f j) = Some (f (Suc j))"
    using timeout_helps [OF that] j(1) by (intro exI [of _ "Suc j"]) simp
  ultimately show ?thesis by blast
qed

theorem idle_client_disconnected_witness:
  "\<exists>j\<ge>2. lost 0 (example_then (IdleFired 0 False False) j)
    \<or> traffic example_table (\<lambda>e. []) 0 (example_then (IdleFired 0 False False) j) (example_then (IdleFired 0 False False) (Suc j))"
proof -
  let ?f = "example_then (IdleFired 0 False False)" and ?d = example_table and ?lib = "\<lambda>e. []"
  have boot: "main_boot (\<lambda>p. Inl []) (\<lambda>p. None) True True True True True ?d 0 (\<lambda>n i. 0) [''--no-aof''] = Inr (?f 0)"
    using example_boot by (simp add: example_then_simps)
  have "srv_idle_timeout (?f 0) \<noteq> 0"
    by (simp add: example_then_simps example_boot_def server_run_def new_server_def setup_signal_handlers_def
        server_update_defs default_config_def)
  from idle_client_disconnected [where f = ?f, OF boot example_timer this] show ?thesis by blast
qed

end
