(* ===== verification/Parser_Limits.thy ===== *)
theory Parser_Limits
  imports Resp_Parser
begin

text \<open>
  The machine limits of the parser of \<^verbatim>\<open>protocol/resp_parser.cpp\<close>. \<open>Resp_Parser\<close> computes with
  natural numbers and with as much stack as it likes; here \<^verbatim>\<open>parse_bulk_string\<close> is transcribed
  once more with its 64-bit types, and \<^verbatim>\<open>parse\<close>, \<^verbatim>\<open>parse_array\<close> and its loop with a budget of
  stack frames. The theorems say when the three agree.
\<close>

section \<open>Sizes of 64 bits\<close>

text \<open>
  \<^verbatim>\<open>std::size_t\<close> and \<^verbatim>\<open>int64_t\<close> are words of 64 bits: \<^verbatim>\<open>len\<close> is compared signed, the cast to
  \<^verbatim>\<open>std::size_t\<close> keeps its bits, and the sums wrap.
\<close>

definition parse_bulk_string_64 :: "string \<Rightarrow> 64 word \<Rightarrow> cpp_exn + resp_value option \<times> 64 word" where
  "parse_bulk_string_64 buf off =
     (case read_line buf (unat off) of
        (None, _) \<Rightarrow> Inr (None, 0)
      | (Some line, after) \<Rightarrow>
          let after_len = word_of_nat after in
          (case map_option word_of_int (parse_i64 line) of
             None \<Rightarrow>
               Inl (RuntimeError (''RESP: invalid bulk string length '' @ [CHR 0x27] @ line @ [CHR 0x27]))
           | Some (len :: 64 word) \<Rightarrow>
               if sint len = - 1 then Inr (Some RespNull, after_len)
               else if sint len < 0 then Inl (RuntimeError ''RESP: negative bulk string length'')
               else let data_len = len in
                 if after_len + data_len + 2 > word_of_nat (length buf) then Inr (None, 0)
                 else Inr (Some (RespBulkString (take (unat data_len) (drop (unat after_len) buf))),
                           after_len + data_len + 2)))"

lemma sint_of_fits: "fits64 i \<Longrightarrow> sint (word_of_int i :: 64 word) = i"
  by (simp add: signed_of_int signed_take_bit_int_eq_self fits64_def int64_defs)

lemma unat_word_of_nat_64: "n < 18446744073709551616 \<Longrightarrow> unat (word_of_nat n :: 64 word) = n"
  by (simp add: unat_of_nat)

text \<open>
  C33: The size arithmetic of a bulk string does not wrap. For every buffer that a
  \<^verbatim>\<open>std::string\<close> can hold, \<^verbatim>\<open>parse_bulk_string\<close> with its 64-bit offsets, lengths and sums throws,
  waits and delivers exactly as over unbounded numbers, whatever length the client announces.
\<close>

theorem bulk_size_no_wrap:
  assumes "int (length buf) \<le> int64_max - 1" and "off \<le> length buf"
  shows "map_sum id (map_prod id unat) (parse_bulk_string_64 buf (word_of_nat off)) =
    parse_bulk_string buf off"
proof -
  have small: "length buf < 9223372036854775807"
    using assms(1) by (simp add: int64_defs)
  with assms(2) have off: "unat (word_of_nat off :: 64 word) = off"
    by (simp add: unat_word_of_nat_64)
  show ?thesis
  proof (cases "read_line buf off")
    case (Pair l after)
    have after_exact: "unat (word_of_nat after :: 64 word) = after" if "l = Some line" for line
      using read_line_bounds [of buf off line after] Pair that small
      by (intro unat_word_of_nat_64) simp
    show ?thesis
    proof (cases "\<exists>line len. l = Some line \<and> parse_i64 line = Some len \<and> 0 \<le> len")
      case True
      then obtain line len where l: "l = Some line" "parse_i64 line = Some len" "0 \<le> len"
        by blast
      then have len: "nat len \<le> 9223372036854775807" "fits64 len"
        using parse_i64_fits [OF l(2)] by (simp_all add: fits64_def int64_defs nat_le_iff)
      define w where "w = (word_of_nat after + word_of_int len + 2 :: 64 word)"
      have word_len: "(word_of_int len :: 64 word) = word_of_nat (nat len)"
        using l(3) by simp
      have "w = word_of_nat (after + nat len + 2)"
        by (simp add: w_def word_len)
      moreover have after: "after \<le> length buf"
        using read_line_bounds Pair l(1) by blast
      ultimately have "unat w = after + nat len + 2"
        using small len(1) by (simp only: unat_word_of_nat_64)
      moreover have "unat (word_of_int len :: 64 word) = nat len"
        unfolding word_len using len(1) by (intro unat_word_of_nat_64) simp
      moreover have "unat (word_of_nat (length buf) :: 64 word) = length buf"
        using small by (simp add: unat_word_of_nat_64)
      ultimately show ?thesis
        using l Pair off after_exact sint_of_fits [OF len(2)]
        by (simp add: parse_bulk_string_64_def parse_bulk_string_def Let_def word_less_nat_alt w_def)
    next
      case False
      then show ?thesis
        using Pair off after_exact
        by (auto simp: parse_bulk_string_64_def parse_bulk_string_def Let_def sint_of_fits
            dest: parse_i64_fits split: option.splits)
    qed
  qed
qed

theorem bulk_size_no_wrap_witness:
  "map_sum id (map_prod id unat) (parse_bulk_string_64 (''$9223372036854775807'' @ crlf) 1) =
    parse_bulk_string (''$9223372036854775807'' @ crlf) 1"
  using bulk_size_no_wrap [of "''$9223372036854775807'' @ crlf" 1] by (simp add: int64_defs crlf_def)

section \<open>A bounded stack\<close>

text \<open>
  \<^verbatim>\<open>parse\<close> and \<^verbatim>\<open>parse_array\<close> call each other, once per level of nesting. \<open>parse_in k\<close> is the same
  code on a stack with room for \<open>k\<close> activations of \<^verbatim>\<open>parse_array\<close>; \<open>None\<close> is the overflow, on
  which the process dies.
\<close>

function parse_in :: "nat \<Rightarrow> string \<Rightarrow> nat \<Rightarrow> parse_result option"
  and parse_array_in :: "nat \<Rightarrow> string \<Rightarrow> nat \<Rightarrow> parse_result option"
  and parse_elems_in :: "nat \<Rightarrow> string \<Rightarrow> nat \<Rightarrow> resp_value list \<Rightarrow> nat \<Rightarrow> parse_result option" where
  "parse_in k buf off =
     (if off \<ge> length buf then Some (Inr (None, 0))
      else if buf ! off = CHR ''+'' then Some (parse_simple_string buf (off + 1))
      else if buf ! off = CHR ''-'' then Some (parse_error buf (off + 1))
      else if buf ! off = CHR '':'' then Some (parse_integer buf (off + 1))
      else if buf ! off = CHR ''$'' then Some (parse_bulk_string buf (off + 1))
      else if buf ! off = CHR ''*'' then
        (case k of 0 \<Rightarrow> None | Suc k' \<Rightarrow> parse_array_in k' buf (off + 1))
      else Some (Inl (RuntimeError (''RESP: unknown type byte '' @ [CHR 0x27, buf ! off, CHR 0x27]))))"
| "parse_array_in k buf off =
     (case read_line buf off of
        (None, _) \<Rightarrow> Some (Inr (None, 0))
      | (Some line, after_count) \<Rightarrow>
          (case parse_i64 line of
             None \<Rightarrow>
               Some (Inl (RuntimeError (''RESP: invalid array count '' @ [CHR 0x27] @ line @ [CHR 0x27])))
           | Some count \<Rightarrow>
               if count = - 1 then Some (Inr (Some RespNull, after_count))
               else if count < 0 then Some (Inl (RuntimeError ''RESP: negative array count''))
               else if count > vector_max_size then Some (Inl (StdExn LengthError))
               else parse_elems_in k buf (nat count) [] after_count))"
| "parse_elems_in k buf 0 arr cur = Some (Inr (Some (RespArray arr), cur))"
| "parse_elems_in k buf (Suc n) arr cur =
     (case parse_in k buf cur of
        None \<Rightarrow> None
      | Some (Inl ex) \<Rightarrow> Some (Inl ex)
      | Some (Inr (None, _)) \<Rightarrow> Some (Inr (None, 0))
      | Some (Inr (Some elem, e)) \<Rightarrow> parse_elems_in k buf n (arr @ [elem]) e)"
  by pat_completeness auto

termination
  by (relation "inv_image (less_than <*lex*> less_than <*lex*> less_than)
        (case_sum (\<lambda>(k, buf, off). (k, 0, 0))
          (case_sum (\<lambda>(k, buf, off). (k, 2, 0)) (\<lambda>(k, buf, n, arr, cur). (k, 1, n))))") auto

declare parse_in.simps [simp del] parse_array_in.simps [simp del]

text \<open>Whatever a bounded stack computes is what the parser computes.\<close>

lemma parse_in_sound:
  "parse_in k buf off = Some r \<Longrightarrow> r = parse buf off"
  "parse_array_in k buf off = Some r \<Longrightarrow> r = parse_array buf off"
  "parse_elems_in k buf n arr cur = Some r \<Longrightarrow> r = parse_elems buf n arr cur"
proof (induction k buf off and k buf off and k buf n arr cur arbitrary: r and r and r
    rule: parse_in_parse_array_in_parse_elems_in.induct)
  case (1 k buf off)
  then show ?case
    by (auto simp: parse_in.simps [of k] parse.simps [of buf] split: if_splits nat.splits)
next
  case (2 k buf off)
  then show ?case
    by (auto simp: parse_array_in.simps [of k] parse_array.simps [of buf]
        split: prod.splits option.splits if_splits)
next
  case (4 k buf n arr cur)
  then show ?case
    by (cases "parse_in k buf cur") (force split: sum.splits prod.splits option.splits)+
qed simp

text \<open>
  A level of nesting needs a count, and a count of no digits does not parse: every activation of
  \<^verbatim>\<open>parse_array\<close> that calls \<^verbatim>\<open>parse\<close> again has four bytes of its own.
\<close>

lemma count_has_digit:
  assumes "read_line buf off = (Some line, e)" and "parse_i64 line = Some i"
  shows "off + 3 \<le> e"
proof -
  have "parse_i64 [] = None"
    by code_simp
  with assms(2) have "0 < length line"
    by (cases line) auto
  with assms(1) show ?thesis
    by (auto simp: read_line_def find_crlf_def split: option.splits)
qed

lemma parse_in_complete:
  "length buf - off \<le> 4 * k \<Longrightarrow> parse_in k buf off = Some (parse buf off)"
  "length buf + 1 - off \<le> 4 * Suc k \<Longrightarrow> parse_array_in k buf off = Some (parse_array buf off)"
  "length buf - cur \<le> 4 * k \<Longrightarrow> parse_elems_in k buf n arr cur = Some (parse_elems buf n arr cur)"
proof (induction k buf off and k buf off and k buf n arr cur
    rule: parse_in_parse_array_in_parse_elems_in.induct)
  case (1 k buf off)
  then show ?case
    by (auto simp: parse_in.simps [of k] parse.simps [of buf] split: nat.splits)
next
  case (2 k buf off)
  have "length buf - e \<le> 4 * k" if "read_line buf off = (Some line, e)" "parse_i64 line = Some i" for line e i
    using count_has_digit [OF that] 2(2) by simp
  with 2(1) show ?case
    by (auto simp: parse_array_in.simps [of k] parse_array.simps [of buf]
        split: prod.splits option.splits)
next
  case (4 k buf n arr cur)
  then show ?case
    by (fastforce dest: parse_bounds(1) split: sum.splits prod.splits option.splits)
qed simp

text \<open>A row of opened arrays: every four bytes are one more activation.\<close>

definition opened_arrays :: "nat \<Rightarrow> string" where
  "opened_arrays n = concat (replicate n (''*1'' @ crlf))"

lemma parse_in_opened:
  "parse_in k (pre @ opened_arrays n) (length pre) = (if n \<le> k then Some (Inr (None, 0)) else None)"
proof (induction n arbitrary: k pre)
  case 0
  then show ?case by (simp add: opened_arrays_def parse_in.simps)
next
  case (Suc n)
  have one: "parse_i64 ''1'' = Some 1"
    by code_simp
  have "find_crlf_idx ''1'' = None"
    by simp
  with read_line_at [of "''1''" "pre @ ''*''" "opened_arrays n"]
  have line: "read_line (pre @ CHR ''*'' # ''1'' @ crlf @ opened_arrays n) (Suc (length pre)) =
      (Some ''1'', length pre + 4)"
    by simp
  have buf: "pre @ opened_arrays (Suc n) = pre @ CHR ''*'' # ''1'' @ crlf @ opened_arrays n"
    by (simp add: opened_arrays_def)
  show ?case
    using Suc.IH [of "k - 1" "pre @ ''*1'' @ crlf"] line one
    unfolding buf
    by (cases k) (auto simp: parse_in.simps [of _ "pre @ CHR ''*'' # _" "length pre"]
        parse_array_in.simps crlf_def numeral_eq_Suc vector_max_size_def int64_max_def)
qed

text \<open>
  C38: What the parser needs of the stack. With room for \<open>k\<close> nested arrays it computes what
  \<open>parse\<close> computes or overflows; it does not overflow on up to \<open>4 * k\<close> buffered bytes; and no
  smaller room is enough, because a row of \<open>n\<close> times \<^verbatim>\<open>*1\r\n\<close>, of \<open>4 * n\<close> bytes, makes \<open>n\<close>
  activations of \<^verbatim>\<open>parse_array\<close> before the parser asks for more data.
\<close>

theorem parser_stack_need:
  "(case parse_in k buf off of None \<Rightarrow> 4 * k + off < length buf | Some r \<Rightarrow> r = parse buf off)
   \<and> length (opened_arrays n) = 4 * n
   \<and> parse_in k (opened_arrays n) 0 = (if n \<le> k then Some (Inr (None, 0)) else None)"
proof (intro conjI)
  show "case parse_in k buf off of None \<Rightarrow> 4 * k + off < length buf | Some r \<Rightarrow> r = parse buf off"
    using parse_in_sound(1) [of k buf off] parse_in_complete(1) [of buf off k]
    by (cases "length buf \<le> 4 * k + off") (auto split: option.split)
  show "length (opened_arrays n) = 4 * n"
    by (simp add: opened_arrays_def length_concat sum_list_replicate crlf_def)
  show "parse_in k (opened_arrays n) 0 = (if n \<le> k then Some (Inr (None, 0)) else None)"
    using parse_in_opened [of k "[]"] by simp
qed

end
