(* ===== verification/Shutdown.thy ===== *)
theory Shutdown
  imports Server_Runs
begin

text \<open>
  The end of the process: from the signal to the last line of \<^verbatim>\<open>main\<close>. \<^verbatim>\<open>Server::stop\<close> makes
  \<^verbatim>\<open>io_ctx_.run()\<close> return, then \<^verbatim>\<open>main\<close> destroys its objects in the reverse order of their
  declaration: the server, the log, the command table, the broker, the store, the statistics.
\<close>

section \<open>Definitions\<close>

text \<open>A callback in the broker owns its connection (\<^verbatim>\<open>self\<close> in \<^verbatim>\<open>handle_subscribe\<close>).\<close>

definition owned_by_broker :: "server \<Rightarrow> nat \<Rightarrow> bool" where
  "owned_by_broker s cid \<longleftrightarrow>
     list_ex (\<lambda>(ch, subs). list_ex (\<lambda>sub. sub_id sub = cid) subs) (channels (ctx_broker (srv_ctx s)))"

text \<open>
  \<^verbatim>\<open>~Server\<close>: the destructor of \<^verbatim>\<open>io_ctx_\<close> destroys every pending handler without calling it, and with
  the handlers the connections that nothing else owns, each with its own destructor. A connection in
  the broker stays, although its socket and its timer belong to an \<^verbatim>\<open>io_context\<close> that no longer exists.
\<close>

definition server_destroyed :: "server \<Rightarrow> server" where
  "server_destroyed s =
     (let gone = filter (\<lambda>(cid, conn). \<not> owned_by_broker s cid) (srv_conns s);
          kept = filter (\<lambda>(cid, conn). owned_by_broker s cid) (srv_conns s)
      in s\<lparr>accept_pending := False, poll_armed := False, srv_conns := kept,
           srv_ctx := (fold (\<lambda>(cid, conn). connection_destroyed conn) gone (srv_ctx s))\<lparr>ctx_posted := []\<rparr>\<rparr>)"

text \<open>
  How the process ends, with the log it leaves: killed by an exception that nothing caught; by \<^verbatim>\<open>return 0\<close>;
  or in undefined behaviour, because the destructor of the broker destroys connections that are still
  subscribed: they call \<^verbatim>\<open>unsubscribe_all\<close> on the broker that is being destroyed and close a socket of an
  \<^verbatim>\<open>io_context\<close> that is gone.
\<close>

datatype main_end = Aborted "aof option" | Returned int "aof option" | Dangling "nat list" "aof option"

definition main_return :: "server \<Rightarrow> main_end" where
  "main_return s =
     (if crashed s then Aborted (srv_aof s)
      else
        let s' = server_destroyed s in
        if srv_conns s' = [] then Returned 0 (srv_aof s') else Dangling (map fst (srv_conns s')) (srv_aof s'))"

section \<open>Who is left\<close>

definition subscribers :: "server \<Rightarrow> nat list" where
  "subscribers s = map fst (filter (\<lambda>(cid, conn). subscribed_channels conn \<noteq> []) (srv_conns s))"

lemma owned_by_broker_subs:
  assumes "broker_ok (ctx_broker (srv_ctx s))"
  shows "owned_by_broker s cid \<longleftrightarrow> (\<exists>ch. (ch, cid) \<in> subscriptions (ctx_broker (srv_ctx s)))"
proof -
  let ?m = "channels (ctx_broker (srv_ctx s))"
  have "(ch, cid) \<in> subscriptions (ctx_broker (srv_ctx s)) \<longleftrightarrow>
      (\<exists>subs. um_find ?m ch = Some subs \<and> cid \<in> sub_id ` set subs)" for ch
    by (cases "um_find ?m ch") (simp_all add: subscriptions_def subs_of_def)
  moreover have "um_find ?m ch = Some subs \<longleftrightarrow> (ch, subs) \<in> set ?m" for ch subs
    using assms map_of_eq_Some_iff [of ?m ch subs] by (simp add: broker_ok_def um_ok_def)
  ultimately show ?thesis
    by (fastforce simp: owned_by_broker_def list_ex_iff)
qed

lemma owned_iff_subscribed:
  assumes "server_inv s" and "(cid, conn) \<in> set (srv_conns s)"
  shows "owned_by_broker s cid \<longleftrightarrow> subscribed_channels conn \<noteq> []"
proof -
  have "conn_entry_ok s cid conn"
    using assms by (auto simp: server_inv_def)
  then have "set (subscribed_channels conn) = {ch. (ch, cid) \<in> subscriptions (ctx_broker (srv_ctx s))}"
    and "broker_ok (ctx_broker (srv_ctx s))"
    by (auto simp: conn_entry_ok_def subs_agree_def)
  with owned_by_broker_subs [of s cid] show ?thesis
    by (auto simp flip: set_empty)
qed

lemma destroyed_counts:
  assumes "\<forall>(cid, conn)\<in>set cs. conn_has_stats conn \<and> subscribed_channels conn = []"
    and "connected_clients (ctx_stats x) = n" and "int (length cs) \<le> n" and "n \<le> int64_max"
  shows "fold (\<lambda>(cid, conn). connection_destroyed conn) cs x =
    x\<lparr>ctx_stats := (ctx_stats x)\<lparr>connected_clients := n - int (length cs)\<rparr>\<rparr>"
  using assms
proof (induction cs arbitrary: x n)
  case (Cons c cs)
  obtain cid conn where c: "c = (cid, conn)" by (cases c)
  have "wrap64 (n - 1) = n - 1"
    using Cons.prems(3,4) by (intro wrap64_fits) (simp add: int64_defs)
  then have "connection_destroyed conn x = x\<lparr>ctx_stats := (ctx_stats x)\<lparr>connected_clients := n - 1\<rparr>\<rparr>"
    using Cons.prems(1,2) by (simp add: connection_destroyed_def c)
  with Cons.IH [of "x\<lparr>ctx_stats := (ctx_stats x)\<lparr>connected_clients := n - 1\<rparr>\<rparr>" "n - 1"] Cons.prems show ?case
    by (simp add: c algebra_simps)
qed simp

lemma server_destroyed_inv:
  assumes "server_inv s"
  shows "map fst (srv_conns (server_destroyed s)) = subscribers s"
    and "srv_aof (server_destroyed s) = srv_aof s"
    and "ctx_store (srv_ctx (server_destroyed s)) = ctx_store (srv_ctx s)"
    and "connected_clients (ctx_stats (srv_ctx (server_destroyed s))) = int (length (subscribers s))"
proof -
  let ?cs = "srv_conns s" and ?own = "\<lambda>(cid, conn :: connection). owned_by_broker s cid"
  have own: "filter ?own ?cs = filter (\<lambda>(cid, conn). subscribed_channels conn \<noteq> []) ?cs"
    using owned_iff_subscribed [OF assms] by (intro filter_cong) auto
  then show "map fst (srv_conns (server_destroyed s)) = subscribers s"
    by (simp add: server_destroyed_def subscribers_def Let_def)
  have gone: "\<forall>(cid, conn)\<in>set (filter (\<lambda>(cid, conn). \<not> owned_by_broker s cid) ?cs).
      conn_has_stats conn \<and> subscribed_channels conn = []"
    using owned_iff_subscribed [OF assms] assms by (auto simp: server_inv_def conn_entry_ok_def)
  have "sint (srv_max_clients s) < 2 ^ 63"
    using sint_less [of "srv_max_clients s"] by simp
  then have bound: "int (length ?cs) \<le> int64_max"
    using assms by (auto simp: server_inv_def int64_max_def max_def split: if_splits)
  have count: "connected_clients (ctx_stats (srv_ctx s)) = int (length ?cs)"
    using assms by (simp add: server_inv_def ctx_inv_def)
  have "int (length (filter (\<lambda>(cid, conn). \<not> owned_by_broker s cid) ?cs)) \<le> int (length ?cs)"
    by simp
  note left = destroyed_counts [OF gone count this bound]
  have "length (filter ?own ?cs) + length (filter (\<lambda>(cid, conn). \<not> owned_by_broker s cid) ?cs) = length ?cs"
    using sum_length_filter_compl [of ?own ?cs] by (simp add: split_def)
  with left show "connected_clients (ctx_stats (srv_ctx (server_destroyed s))) = int (length (subscribers s))"
    by (simp add: server_destroyed_def subscribers_def Let_def own)
  show "srv_aof (server_destroyed s) = srv_aof s"
    by (simp add: server_destroyed_def Let_def)
  show "ctx_store (srv_ctx (server_destroyed s)) = ctx_store (srv_ctx s)"
    using left by (simp add: server_destroyed_def Let_def)
qed

lemma main_return_inv:
  assumes "server_inv s"
  shows "main_return s =
    (if crashed s then Aborted (srv_aof s)
     else if subscribers s = [] then Returned 0 (srv_aof s) else Dangling (subscribers s) (srv_aof s))"
  using server_destroyed_inv(1,2) [OF assms] by (auto simp: main_return_def Let_def)

section \<open>Properties\<close>

text \<open>
  C21: A termination request ends the process. In any run in which waits of the poll timer complete,
  once \<^verbatim>\<open>SIGINT\<close> or \<^verbatim>\<open>SIGTERM\<close> has been received there is a moment from which on no handler runs: an
  uncaught exception has killed the process, or the server is stopping and no longer ready. The
  connections and the log stay as they are until \<^verbatim>\<open>main\<close> destroys its objects. That destroys exactly the
  connections without a subscription, counts the clients down to the number of the others, and does not touch the
  log. If nobody is subscribed, \<^verbatim>\<open>main\<close> returns 0; otherwise connections outlive the \<^verbatim>\<open>io_context\<close> they use.
\<close>

theorem signal_ends_server:
  assumes "main_boot parse_file disk can_open can_read can_resize can_reopen can_bind (make_default double_div True) now clks args = Inr (f 0)"
    and trace: "server_trace (make_default double_div True) lib f" and waits: "waits_complete f"
    and signal: "last_signal (f i) \<noteq> 0"
  shows "\<exists>j. \<forall>k\<ge>j. (crashed (f k) \<or> stopping (f k) \<and> \<not> ready (ctx_stats (srv_ctx (f k))))
    \<and> srv_aof (f k) = srv_aof (f j) \<and> srv_conns (f k) = srv_conns (f j)
    \<and> map fst (srv_conns (server_destroyed (f k))) = subscribers (f j)
    \<and> connected_clients (ctx_stats (srv_ctx (server_destroyed (f k)))) = int (length (subscribers (f j)))
    \<and> main_return (f k) =
        (if crashed (f k) then Aborted (srv_aof (f j))
         else if subscribers (f j) = [] then Returned 0 (srv_aof (f j))
         else Dangling (subscribers (f j)) (srv_aof (f j)))" (is "\<exists>j. \<forall>k\<ge>j. ?P j k")
proof -
  note inv0 = main_boot_inv [OF assms(1)]
  have steps: "server_step (make_default double_div True) lib (f k) (f (Suc k))" for k
    using trace by (simp add: server_trace_def)
  then have inv: "server_inv (f k)" for k
    using srv.trace_keeps [of 0 k _ _ f] inv0 by blast
  obtain j where j: "j \<ge> i" "\<not> running (f j) \<or> f (Suc j) = on_poll_timer False False (f j)"
    using polled_again [OF trace inv0 waits main_boot_armed [OF assms(1)]] by blast
  then have "signalled (f j)"
    using sig.trace_keeps [of i j _ _ f] steps signal by (auto simp: signalled_def)
  with j obtain n where "\<not> running (f n)"
    using poll_outcome(2) [OF inv] by metis
  then have halted: "halted (srv_aof (f n)) (srv_conns (f n)) (f k)" if "n \<le> k" for k
    using halt.trace_keeps [of n k _ _ f, OF that steps] by (simp add: halted_def)
  have ended: "(crashed (f k) \<or> stopping (f k) \<and> \<not> ready (ctx_stats (srv_ctx (f k))))
    \<and> srv_aof (f k) = srv_aof (f n) \<and> srv_conns (f k) = srv_conns (f n) \<and> subscribers (f k) = subscribers (f n)"
    if "n \<le> k" for k
    using halted [OF that] inv [of k]
    by (simp add: halted_def running_def server_inv_def ctx_inv_def subscribers_def) blast
  show ?thesis
  proof (intro exI [of _ n] allI impI)
    fix k
    assume "n \<le> k"
    note e = ended [OF this]
    show "?P n k"
      using e server_destroyed_inv(1,4) [OF inv, of k] main_return_inv [OF inv, of k]
      by (elim conjE, intro conjI) (assumption | simp only:)+
  qed
qed

theorem signal_ends_server_witness:
  "let f = (\<lambda>i::nat. if i = 0 then example_boot
        else if i = 1 then vortek_signal_handler 15 example_boot
        else on_poll_timer False False (vortek_signal_handler 15 example_boot))
   in \<exists>j. \<forall>k\<ge>j. stopping (f k) \<and> \<not> ready (ctx_stats (srv_ctx (f k))) \<and> main_return (f k) = Returned 0 None"
proof -
  let ?s1 = "vortek_signal_handler 15 example_boot"
  let ?f = "\<lambda>i::nat. if i = 0 then example_boot else if i = 1 then ?s1 else on_poll_timer False False ?s1"
  have idle: "vortek_signal_handler 15 (on_poll_timer False False ?s1) = on_poll_timer False False ?s1"
    and "\<not> running (on_poll_timer False False ?s1)"
    by (simp_all add: server_update_defs example_boot_fields running_def)
  then have waits: "waits_complete ?f"
    by (auto simp: waits_complete_def intro: exI [of _ "Suc (Suc _)"])
  have signal: "server_step example_table (\<lambda>e. []) s (vortek_signal_handler 15 s)" for s
    by (rule signal_raised) (simp add: handled_signals_def)
  have "server_step example_table (\<lambda>e. []) ?s1 (on_poll_timer False False ?s1)"
    using example_boot_fields(1,3) by (intro poll_fired) (simp_all add: vortek_signal_handler_def running_def)
  then have trace: "server_trace example_table (\<lambda>e. []) ?f"
    using signal [of example_boot] signal [of "on_poll_timer False False ?s1"] idle by (auto simp: server_trace_def)
  have boot: "main_boot (\<lambda>p. Inl []) (\<lambda>p. None) True True True True True example_table 0 (\<lambda>n i. 0) [''--no-aof''] = Inr (?f 0)"
    using example_boot by simp
  have "last_signal (?f 1) \<noteq> 0"
    by (simp add: vortek_signal_handler_def)
  from signal_ends_server [where f = ?f, OF boot trace waits this] obtain j where
    j: "\<And>k. k \<ge> j \<Longrightarrow> (crashed (?f k) \<or> stopping (?f k) \<and> \<not> ready (ctx_stats (srv_ctx (?f k))))
      \<and> srv_aof (?f k) = srv_aof (?f j) \<and> srv_conns (?f k) = srv_conns (?f j)
      \<and> main_return (?f k) =
        (if crashed (?f k) then Aborted (srv_aof (?f j))
         else if subscribers (?f j) = [] then Returned 0 (srv_aof (?f j))
         else Dangling (subscribers (?f j)) (srv_aof (?f j)))"
    by blast
  have "\<not> crashed (?f k)" "srv_aof (?f k) = None" "subscribers (?f k) = []" for k
    using example_boot_fields
    by (auto simp: server_update_defs running_def subscribers_def)
  with j show ?thesis
    unfolding Let_def by (intro exI [of _ j] allI impI) (simp only: simp_thms if_True if_False list.simps)
qed

end
