(* ===== verification/Utilities.thy ===== *)
theory Utilities
  imports Config
begin

text \<open>
  The small parts: \<^verbatim>\<open>utils/logger.hpp\<close>, \<^verbatim>\<open>utils/error.hpp\<close>, \<^verbatim>\<open>utils/byte_view.hpp\<close> and the
  usage text of \<^verbatim>\<open>main.cpp\<close>. The logger only forwards to the spdlog library; its state here is what it has
  told spdlog: the threshold, the pattern and the messages, in order. Which messages spdlog shows
  and how it renders them is not part of the sources.
\<close>

section \<open>Definitions\<close>

datatype level = Debug | Info | Warn | Err

record spdlog =
  sp_level :: level
  sp_pattern :: string
  sp_messages :: "(level \<times> string) list"

definition log_at :: "level \<Rightarrow> string \<Rightarrow> spdlog \<Rightarrow> spdlog" where
  "log_at lvl msg l = l\<lparr>sp_messages := sp_messages l @ [(lvl, msg)]\<rparr>"

definition log_debug :: "string \<Rightarrow> spdlog \<Rightarrow> spdlog" where
  "log_debug msg l = log_at Debug msg l"

definition log_info :: "string \<Rightarrow> spdlog \<Rightarrow> spdlog" where
  "log_info msg l = log_at Info msg l"

definition log_warn :: "string \<Rightarrow> spdlog \<Rightarrow> spdlog" where
  "log_warn msg l = log_at Warn msg l"

definition log_error :: "string \<Rightarrow> spdlog \<Rightarrow> spdlog" where
  "log_error msg l = log_at Err msg l"

definition quote :: string where
  "quote = [CHR 0x22]"

definition json_pattern :: string where
  "json_pattern =
     ''{'' @ quote @ ''ts'' @ quote @ '':'' @ quote @ ''%Y-%m-%dT%H:%M:%S.%e'' @ quote @ '',''
     @ quote @ ''level'' @ quote @ '':'' @ quote @ ''%l'' @ quote @ '',''
     @ quote @ ''msg'' @ quote @ '':'' @ quote @ ''%v'' @ quote @ ''}''"

definition set_format :: "string \<Rightarrow> spdlog \<Rightarrow> spdlog" where
  "set_format format l =
     (if format = ''json'' then l\<lparr>sp_pattern := json_pattern\<rparr>
      else l\<lparr>sp_pattern := ''[%Y-%m-%d %H:%M:%S.%e] [%l] %v''\<rparr>)"

definition set_level :: "string \<Rightarrow> spdlog \<Rightarrow> spdlog" where
  "set_level lvl l =
     (if lvl = ''debug'' then l\<lparr>sp_level := Debug\<rparr>
      else if lvl = ''warn'' then l\<lparr>sp_level := Warn\<rparr>
      else if lvl = ''error'' then l\<lparr>sp_level := Err\<rparr>
      else l\<lparr>sp_level := Info\<rparr>)"

text \<open>What \<^verbatim>\<open>main\<close> does to the logger once it has the configuration.\<close>

definition main_logging :: "config \<Rightarrow> spdlog \<Rightarrow> spdlog" where
  "main_logging cfg l =
     log_info ''Vortek v0.1.0 starting'' (set_level (log_level cfg) (set_format (log_format cfg) l))"

datatype ErrorCode = Ok | WrongType | OutOfRangeCode | NotFound | SyntaxError | IoError

record Error =
  error_code :: ErrorCode
  error_message :: string

definition error_ok :: "Error \<Rightarrow> bool" where
  "error_ok e \<longleftrightarrow> error_code e = Ok"

definition ok_result :: Error where
  "ok_result = \<lparr>error_code = Ok, error_message = []\<rparr>"

text \<open>A view of the bytes of a string; a byte is a number below 256.\<close>

definition as_bytes :: "string \<Rightarrow> 8 word list" where
  "as_bytes sv = map (\<lambda>c. word_of_nat (of_char c)) sv"

text \<open>The text \<^verbatim>\<open>print_usage\<close> prints, line by line.\<close>

definition print_usage :: "string \<Rightarrow> string list" where
  "print_usage prog =
     [''Usage1: '' @ prog @ '' [options]'',
      [],
      ''Options:'',
      ''  --config <path>     Load settings from a TOML config file'',
      ''  --port <n>          TCP port to listen on        (default: 6379)'',
      ''  --aof <path>        Enable AOF and set file path (default: vortek.aof)'',
      ''  --no-aof            Disable AOF persistence'',
      ''  --requirepass <pw>  Require AUTH with this password'',
      ''  --log-level <lvl>   debug | info | warn | error  (default: info)'',
      ''  --log-format <fmt>  plain | json (default: plain)'',
      ''  --max-request-bytes <n>  Max buffered request bytes per connection'',
      ''  --idle-timeout-seconds <n>  Close idle connections after n seconds'',
      ''  --max-clients <n>   Maximum concurrent client connections'',
      ''  --max-pending-write-bytes <n>  Max buffered reply bytes per connection'',
      ''  --help              Show this help message'',
      [],
      ''CLI options override values from --config.'']"

section \<open>Lemmas\<close>

text \<open>The name of a level, as the configuration spells it.\<close>

fun level_name :: "level \<Rightarrow> string" where
  "level_name Debug = ''debug''"
| "level_name Info = ''info''"
| "level_name Warn = ''warn''"
| "level_name Err = ''error''"

lemma set_level_name: "sp_level (set_level (level_name lvl) l) = lvl"
  by (cases lvl) (simp_all add: set_level_def)

lemma set_level_unknown:
  assumes "n \<notin> range level_name"
  shows "sp_level (set_level n l) = Info"
proof -
  have "n \<noteq> level_name Debug" "n \<noteq> level_name Warn" "n \<noteq> level_name Err"
    using assms by blast+
  then show ?thesis
    by (simp add: set_level_def)
qed

lemma main_logging_messages:
  "sp_messages (main_logging cfg l) = sp_messages l @ [(Info, ''Vortek v0.1.0 starting'')]"
  by (simp add: main_logging_def log_info_def log_at_def set_level_def set_format_def)

lemma ok_result_ok: "error_ok ok_result"
  by (simp add: error_ok_def ok_result_def)

text \<open>No byte is lost: the view has the string back.\<close>

lemma as_bytes_inj: "map (\<lambda>b. char_of (unat b)) (as_bytes sv) = sv"
  by (simp add: as_bytes_def comp_def unat_of_nat map_idI)

text \<open>
  The option a line of the usage text is about, if any; the text and the parser of the command line
  agree on the options there are, \<^verbatim>\<open>-h\<close> apart, which the text does not mention.
\<close>

definition usage_option :: "string \<Rightarrow> string option" where
  "usage_option line =
     (if take 4 line = ''  --'' then Some (takeWhile (\<lambda>c. c \<noteq> CHR '' '') (drop 2 line)) else None)"

definition accepted_option :: "string \<Rightarrow> bool" where
  "accepted_option arg \<longleftrightarrow> arg = ''--config'' \<or> takes_value arg \<or> arg = ''--no-aof'' \<or> arg = ''--help'' \<or> arg = ''-h''"

lemma apply_args_unknown: "\<not> accepted_option arg \<Longrightarrow> apply_args (arg # rest) cfg = Threw (RuntimeError (''unknown option: '' @ arg))"
  by (simp add: accepted_option_def)

lemma usage_lists_options:
  "List.map_filter usage_option (tl (print_usage prog)) =
     [''--config'', ''--port'', ''--aof'', ''--no-aof'', ''--requirepass'', ''--log-level'', ''--log-format'',
      ''--max-request-bytes'', ''--idle-timeout-seconds'', ''--max-clients'', ''--max-pending-write-bytes'', ''--help'']"
  by (simp add: print_usage_def usage_option_def)

lemma usage_complete:
  "accepted_option arg \<longleftrightarrow> arg = ''-h'' \<or> arg \<in> set (List.map_filter usage_option (tl (print_usage prog)))"
  unfolding usage_lists_options accepted_option_def takes_value_def by auto

end
