(* ===== verification/Spec2Isabelle.thy ===== *)
theory Spec2Isabelle
  imports Durability Client_View Interleaving Log_Failure Observability Progress Parser_Limits Shutdown Utilities
begin

text \<open>
  Vortek, a Redis-compatible in-memory key-value server in C++. This development models the program
  under \<^verbatim>\<open>src/src\<close> and proves what makes it correct; each theory opens with what it holds.

  \<^bold>\<open>The program.\<close> \<^verbatim>\<open>main\<close> reads the configuration, creates the shared objects (store, statistics,
  broker, command table), replays the append-only file and runs the server. The server accepts clients on one
  event loop; each \<^verbatim>\<open>Connection\<close> reads bytes, feeds the incremental RESP parser, turns complete
  values into commands, logs write commands, dispatches them to a handler on the store, and queues the
  serialized replies for writing. \<^verbatim>\<open>PUBLISH\<close> posts messages to the connections the broker has for a
  channel. A thread of the store erases expired entries every 100 ms.

  \<^bold>\<open>Theories and sources.\<close>
  \<^item> \<open>Vortek_Prelude\<close>: 64-bit integers, exceptions, the rule collections, invariants and fair progress of
    step relations.
  \<^item> \<open>Std_Strings\<close>, \<open>Std_Containers\<close>: what the sources use of the standard library: \<^verbatim>\<open>from_chars\<close>,
    \<^verbatim>\<open>to_string\<close>, \<^verbatim>\<open>toupper\<close>, \<^verbatim>\<open>string::find\<close>, \<^verbatim>\<open>unordered_map\<close>, \<^verbatim>\<open>unordered_set\<close>.
  \<^item> \<open>Resp_Types\<close>, \<open>Resp_Parser\<close>, \<open>Parser_Limits\<close>: \<^verbatim>\<open>protocol/\<close>. Values, \<open>serialize\<close>, the parser on its
    buffer; its 64-bit sizes and the stack it needs.
  \<^item> \<open>Kv_Store\<close>: \<^verbatim>\<open>core/\<close>. Values, entries with deadlines, every operation, the sweep.
  \<^item> \<open>Commands\<close>, \<open>Generic_Cmds\<close>, \<open>String_Cmds\<close>, \<open>List_Cmds\<close>, \<open>Set_Cmds\<close>, \<open>Hash_Cmds\<close>, \<open>Pubsub_Cmds\<close>,
    \<open>Dispatcher\<close>: \<^verbatim>\<open>commands/\<close>. One definition per handler, named as in the source.
  \<^item> \<open>Interleaving\<close>: the handlers that make several store calls as sequences of calls, with the expiry thread
    in between; \<^verbatim>\<open>METRICS\<close>, the one that can tell, apart.
  \<^item> \<open>Abstract_Store\<close>, \<open>Command_Spec\<close>: the data as a client thinks of it (maps, lists, sets, deadlines), the
    specification of every data command over it, and the refinement of the specification by the handlers.
  \<^item> \<open>Reply_Lines\<close>: what replies look like on the wire.
  \<^item> \<open>Server_Stats\<close>, \<open>Pubsub_Broker\<close>: \<^verbatim>\<open>server/server_stats.hpp\<close>, \<^verbatim>\<open>server/pubsub_broker.cpp\<close>.
  \<^item> \<open>Aof\<close>, \<open>Replay_Times\<close>, \<open>Log_Failure\<close>: \<^verbatim>\<open>persistence/aof_persistence.cpp\<close>, its replay at other
    times, and the log on a disk that does not take an entry, with what the C++ library still does for it.
  \<^item> \<open>Connection\<close>, \<open>Connection_Reads\<close>: \<^verbatim>\<open>server/connection.cpp\<close>, one read at a time and over many reads.
  \<^item> \<open>Config\<close>: \<^verbatim>\<open>utils/config.hpp\<close>, \<^verbatim>\<open>utils/config_loader.cpp\<close> and the command line of \<^verbatim>\<open>main.cpp\<close>.
  \<^item> \<open>Server\<close>, \<open>Server_Runs\<close>: \<^verbatim>\<open>server/server.cpp\<close>, \<^verbatim>\<open>main\<close> and the event loop as a step relation.
  \<^item> \<open>Shutdown\<close>: from the signal to the end of \<^verbatim>\<open>main\<close>, with the destruction of the server and its connections.
  \<^item> \<open>Durability\<close>: the log of the running server and its restart.
  \<^item> \<open>Client_View\<close>: from the bytes a client sends to the bytes it receives, against the specification.
  \<^item> \<open>Output_Order\<close>, \<open>Message_Delivery\<close>: the output of the connections and the way of published messages
    over whole runs of the server.
  \<^item> \<open>Event_Loop\<close>, \<open>One_History\<close>: the event loop as a function of the choices of the outside world, proved
    equal to the step relation, with a report of what it answers to whom; and all clients together against
    the specification.
  \<^item> \<open>Observability\<close>: the numbers in \<^verbatim>\<open>METRICS\<close> against the run they are about.
  \<^item> \<open>Progress\<close>: infinite runs, what is written in the end and who is disconnected.
  \<^item> \<open>Utilities\<close>: \<^verbatim>\<open>utils/logger.hpp\<close>, \<^verbatim>\<open>utils/error.hpp\<close>, \<^verbatim>\<open>utils/byte_view.hpp\<close>, the usage text.

  \<^bold>\<open>Conventions.\<close> State is passed explicitly; a method of a class is a function from its state to its
  result and the new state. An \<^verbatim>\<open>int64_t\<close> is an \<^typ>\<open>int\<close>, with \<open>wrap64\<close> wherever an operation can
  leave the range; sizes of containers are \<^typ>\<open>nat\<close>, bounded where the code computes with them. An
  unordered container is a list whose order stands for the unspecified iteration order. Clock readings
  are arguments: \<open>clk i\<close> is the reading at the \<open>i\<close>-th place of a handler that may read the clock,
  \<open>clks n\<close> the clock of the \<open>n\<close>-th command. An exception is the left value of a sum, and
  \<open>None\<close> in place of a reply of the parser means that more bytes are needed. All loops are total
  functions; no definition needs fuel, and the only budget is the stack of \<open>parse_in\<close>, whose exhaustion is a result
  of its own. Infinite runs are functions from moments to states of the server, and
  what they need of the outside world (a client that reads, timers that complete) is a named hypothesis.

  \<^bold>\<open>Parameters.\<close> Code and facts outside the repository are arguments of the definitions: \<open>double_div\<close>, the
  text of a quotient of doubles in \<^verbatim>\<open>METRICS\<close>; \<open>lib\<close>, the texts of the standard library's exceptions;
  \<open>can_open\<close>, \<open>can_read\<close>, \<open>can_resize\<close>, \<open>can_reopen\<close>, \<open>rooms\<close> and \<open>disk\<close>, what the file system allows and holds;
  \<open>late\<close> and \<open>last_bytes\<close>, what the library still writes for a stream that has failed;
  \<open>can_bind\<close>, whether the port is free; \<open>parse_file\<close>, the TOML parser. What asio, the network and the clients decide is a free choice of
  the steps of the server.

  \<^bold>\<open>Interfaces.\<close> The contracts between components are locales, each interpreted on the definitions of
  the model: \<open>hash_map\<close> and \<open>hash_set\<close> (containers), \<open>incremental_parser\<close> (the parser, for the log and the
  connection), \<open>expiring_store\<close> (the store, for the handlers), \<open>sound_handler\<close>, \<open>reading_handler\<close>,
  \<open>timeless_handler\<close>, \<open>line_handler\<close> and \<open>called_handler\<close> (the handlers, for the table), \<open>refining_handler\<close> (a
  handler and its specification), \<open>ctx_handler\<close> and
  \<open>sweep_blind\<close> (table entries, for connection and replay), \<open>preserved\<close> (invariants of the server),
  \<open>fair_progress\<close> (a goal that a step of the outside world brings about, for the output of a connection).

  \<^bold>\<open>What is shown.\<close> The parser inverts the serializer, and how a stream is cut into chunks does not
  matter, for the parser and for the connection. The store refines a map with deadlines that is
  never swept; a sweep is invisible to clients, before a command and between the store calls of one,
  except in the counts of \<^verbatim>\<open>INFO\<close> and \<^verbatim>\<open>METRICS\<close>.
  Every command keeps the store well formed. The handlers of the data commands refine their
  specification on abstract strings, lists, sets and maps with deadlines, over any history of
  commands and sweeps; composed with parser, connection, log and serializer, this is what a client sees in the
  bytes it receives; and for any number of clients on the event loop there is one history that explains all
  their replies, while each connection is handed the replies to its own client, in order. The log restores the store, at any time
  if nothing expires, and survives a torn write; the log of a running server leads to its store at every moment,
  so that a restart recovers it; after an entry the disk did not take, a restart recovers what came
  before, and nothing else unless the library writes more for the failed stream. A connection executes pipelined commands in order,
  executes nothing before authentication, and agrees with the broker about subscriptions.
  The server keeps its invariant in every reachable state, respects its limits and ends after a
  signal, cleanly if nobody is subscribed; output leaves in the order it was handed over, no write disturbs another, and no published message
  is lost, duplicated or overtaken on its way to an open connection. What was handed over is written in the end if the
  client keeps reading, a silent client is disconnected, and the metrics agree with the run. Theorems about flaws state what the code does
  instead of what it means to do: expiry times that overflow or restart, log entries that are lost silently,
  subscribers that linger and outlive their event loop, replies that overtake or split, a parser that recurses as
  deep as its input says, ports that are truncated.

  \<^bold>\<open>Not modelled.\<close> The libraries (asio, spdlog, the TOML parser) beyond what the parameters and the free
  choices of the steps say of them; the log messages of the components, which go to spdlog and to
  nothing else; what the undefined behaviour at the end of a process with subscribers does; memory exhaustion; tests, benchmarks and build files. The event loop runs handlers to completion on
  one thread, as the program does, and the mutexes appear as the atomicity of the operations they guard.
\<close>

section \<open>Expiry from end to end\<close>

lemma ns_of_secs:
  assumes "0 < secs" and "0 \<le> now" and "fits64 (now + secs * 1000000000)"
  shows "seconds secs = secs * 1000" and "deadline now (secs * 1000) = now + secs * 1000000000"
proof -
  have "fits64 (secs * 1000)" and "fits64 (secs * 1000000000)"
    using assms by (auto simp: int64_defs)
  with assms(3) show "seconds secs = secs * 1000"
    and "deadline now (secs * 1000) = now + secs * 1000000000"
    by (simp_all add: seconds_def deadline_def mult.commute [of _ secs])
qed

lemma ttl_seconds:
  assumes "0 < rem" and "fits64 rem"
  shows "(let ms = max 0 (wrap64 rem sdiv 1000000) in wrap64 (ms + 999) sdiv 1000) = (rem div 1000000 + 999) div 1000"
  using ttl_rounds [of rem] assms by (simp add: Let_def)

text \<open>\<^verbatim>\<open>SET\<close> with \<^verbatim>\<open>EX\<close> and a deadline that fits the clock.\<close>

lemma cmd_set_ex:
  assumes "upper flag = ''EX''" and "parse_i64 arg = Some secs" and "0 < secs" and "0 \<le> clk 1"
    and "fits64 (clk 1 + secs * 1000000000)"
  shows "cmd_set \<lparr>cmd_name = n, cmd_args = [k, v, flag, arg]\<rparr> clk s =
      (Inr (RespSimpleString ''OK''), kv_set (clk 1) k (StringValue v) (secs * 1000) s)"
    and "kv_get now k (kv_set (clk 1) k (StringValue v) (secs * 1000) s) =
      (if now < clk 1 + secs * 1000000000 then Some (StringValue v) else None)"
proof -
  note ns = ns_of_secs [OF assms(3-5), unfolded One_nat_def]
  have "parse_set_flags [flag, arg] 0 False False = Inr (secs * 1000, False, False)"
    using assms(1-3) by (simp add: Let_def ns)
  then show "cmd_set \<lparr>cmd_name = n, cmd_args = [k, v, flag, arg]\<rparr> clk s =
      (Inr (RespSimpleString ''OK''), kv_set (clk 1) k (StringValue v) (secs * 1000) s)"
    by (simp add: cmd_set_def Let_def del: parse_set_flags.simps)
  show "kv_get now k (kv_set (clk 1) k (StringValue v) (secs * 1000) s) =
      (if now < clk 1 + secs * 1000000000 then Some (StringValue v) else None)"
    using assms(3) by (simp add: kv.get_set_until ns)
qed

lemma dispatch_set:
  "snd (dispatch (make_default double_div has_broker) \<lparr>cmd_name = ''SET'', cmd_args = as\<rparr> clk x) =
     x\<lparr>ctx_store := snd (cmd_set \<lparr>cmd_name = ''SET'', cmd_args = as\<rparr> clk (ctx_store x))\<rparr>"
  by (simp add: dispatch_def make_default_table on_store_def split_def)

section \<open>Properties\<close>

text \<open>
  C31: \<^verbatim>\<open>SET\<close> with \<^verbatim>\<open>EX\<close> does what it says. As long as the deadline fits the clock, \<^verbatim>\<open>GET\<close>
  answers the value strictly before the deadline and null from it on, and \<^verbatim>\<open>TTL\<close> answers
  the remaining milliseconds rounded up to seconds, or \<open>- 2\<close> once the key is gone.
\<close>

theorem set_ex_lifecycle:
  fixes now :: time_point
  assumes "upper flag = ''EX''" and "parse_i64 arg = Some secs" and "0 < secs" and "0 \<le> clk 1"
    and "fits64 (clk 1 + secs * 1000000000)" and "clk 1 \<le> now"
  shows "case cmd_set \<lparr>cmd_name = n, cmd_args = [k, v, flag, arg]\<rparr> clk s of (r, s') \<Rightarrow>
    r = Inr (RespSimpleString ''OK'')
    \<and> fst (cmd_get \<lparr>cmd_name = n', cmd_args = [k]\<rparr> (\<lambda>i. now) s') =
        Inr (if now < clk 1 + secs * 1000000000 then RespBulkString v else RespNull)
    \<and> fst (cmd_ttl \<lparr>cmd_name = n', cmd_args = [k]\<rparr> (\<lambda>i. now) s') =
        Inr (RespInteger
          (if now < clk 1 + secs * 1000000000
           then ((clk 1 + secs * 1000000000 - now) div 1000000 + 999) div 1000 else - 2))"
proof -
  note ns = ns_of_secs [OF assms(3-5), unfolded One_nat_def]
  let ?t = "clk 1 + secs * 1000000000"
  let ?s = "kv_set (clk 1) k (StringValue v) (secs * 1000) s"
  note set = cmd_set_ex(1) [where clk = clk, OF assms(1-5)] and get = cmd_set_ex(2) [where clk = clk, OF assms(1-5)]
  have ttl: "kv_ttl now now k ?s = (if now < ?t then max 0 (wrap64 (?t - now) sdiv 1000000) else - 2)"
    using assms(3) by (simp add: kv.ttl_law kv.set_law age_upd_Some is_expired_def ns)
  have "now < ?t \<Longrightarrow> fits64 (?t - now)"
    using assms(4-6) by (auto simp: int64_defs)
  then have "now < ?t \<Longrightarrow> wrap64 (max 0 (wrap64 (?t - now) sdiv 1000000) + 999) sdiv 1000 =
      ((?t - now) div 1000000 + 999) div 1000"
    using ttl_seconds [of "?t - now"] by (simp add: Let_def)
  with set get ttl show ?thesis
    by (simp add: cmd_get_def cmd_ttl_def Let_def)
qed

theorem set_ex_lifecycle_witness:
  "case cmd_set \<lparr>cmd_name = ''SET'', cmd_args = [''k'', ''v'', ''ex'', ''10'']\<rparr> (\<lambda>i. 5) kv_empty of (r, s') \<Rightarrow>
     r = Inr (RespSimpleString ''OK'')
     \<and> fst (cmd_get \<lparr>cmd_name = ''GET'', cmd_args = [''k'']\<rparr> (\<lambda>i. 1000000005) s') =
         Inr (if 1000000005 < 5 + 10 * (1000000000 :: int) then RespBulkString ''v'' else RespNull)
     \<and> fst (cmd_ttl \<lparr>cmd_name = ''GET'', cmd_args = [''k'']\<rparr> (\<lambda>i. 1000000005) s') =
         Inr (RespInteger (if 1000000005 < 5 + 10 * (1000000000 :: int)
           then ((5 + 10 * 1000000000 - 1000000005) div 1000000 + 999) div 1000 else - 2))"
  by (rule set_ex_lifecycle [where clk = "\<lambda>i. 5"]) (code_simp, code_simp, simp_all add: int64_defs)

text \<open>
  C35: The conversion of seconds to the clock's unit overflows for large arguments. \<^verbatim>\<open>EXPIRE\<close> with
  the largest 64-bit number of seconds answers 1, but the 64-bit product wraps to a second in
  the past and the key is gone at once, while \<^verbatim>\<open>SET\<close> with the same \<^verbatim>\<open>EX\<close> never expires.
\<close>

theorem expire_overflow:
  fixes clk :: clock
  assumes "kv_exists (clk 0) k s" and "fits64 (clk 1 - 1000000000)" and "clk 1 \<le> now"
  shows "fst (cmd_expire \<lparr>cmd_name = n, cmd_args = [k, to_string int64_max]\<rparr> clk s) = Inr (RespInteger 1)
    \<and> kv_get now k (snd (cmd_expire \<lparr>cmd_name = n, cmd_args = [k, to_string int64_max]\<rparr> clk s)) = None
    \<and> kv_ttl now now k (snd (cmd_set \<lparr>cmd_name = m, cmd_args = [k, v, ''EX'', to_string int64_max]\<rparr> clk s)) = - 1"
proof -
  have wrapped: "seconds int64_max = - 1000"
    by (simp add: seconds_def wrap64_def int64_max_def)
  have max: "fits64 int64_max" "0 < int64_max"
    by (simp_all add: int64_defs)
  have "deadline (clk 1) (- 1000) = clk 1 - 1000000000"
    using assms(2) by (simp add: deadline_def int64_defs)
  then have "cmd_expire \<lparr>cmd_name = n, cmd_args = [k, to_string int64_max]\<rparr> clk s =
      (Inr (RespInteger 1), snd (kv_expire (clk 0) (clk 1) k (- 1000) s))"
    and "kv_get now k (snd (kv_expire (clk 0) (clk 1) k (- 1000) s)) = None"
    using assms max
    by (auto simp: cmd_expire_def wrapped split_def kv.expire_law kv.exists_law kv.get_law kv.expire_view
        age_upd_Some is_expired_def)
  moreover have "upper ''EX'' = ''EX''"
    by code_simp
  then have "cmd_set \<lparr>cmd_name = m, cmd_args = [k, v, ''EX'', to_string int64_max]\<rparr> clk s =
      (Inr (RespSimpleString ''OK''), kv_set (clk 1) k (StringValue v) (- 1000) s)"
    using max by (simp add: cmd_set_def Let_def wrapped)
  ultimately show ?thesis
    by (simp add: kv.ttl_law kv.set_law age_upd_Some is_expired_def)
qed

theorem expire_overflow_witness:
  "kv_get 9 ''k'' (snd (cmd_expire \<lparr>cmd_name = ''EXPIRE'', cmd_args = [''k'', to_string int64_max]\<rparr> (\<lambda>i. 9)
     (kv_set 0 ''k'' (StringValue ''v'') 0 kv_empty))) = None"
  using expire_overflow [of "\<lambda>i. 9" "''k''" "kv_set 0 ''k'' (StringValue ''v'') 0 kv_empty" 9 "''EXPIRE''"]
  by (simp add: kv.exists_law kv.set_law age_upd_Some is_expired_def int64_defs)

text \<open>
  C32: A restart gives every time to live a new start. The log holds \<^verbatim>\<open>SET\<close> with its relative
  \<^verbatim>\<open>EX\<close>, so the replay counts the seconds from the time of the replay: a key that had expired and
  that no client could see any more is there again after a restart, for the full number of seconds.
\<close>

theorem replay_restarts_ttl:
  fixes double_div has_broker and clk :: clock
  defines "d \<equiv> make_default double_div has_broker"
  assumes "upper flag = ''EX''" and "parse_i64 arg = Some secs" and "0 < secs"
    and "c = \<lparr>cmd_name = ''SET'', cmd_args = [k, v, flag, arg]\<rparr>" and "command_ok c"
    and "0 \<le> clk 1" and "fits64 (clk 1 + secs * 1000000000)"
    and "0 \<le> clks 0 1" and "fits64 (clks 0 1 + secs * 1000000000)"
    and "aof_is_open a" and "aof_disk a = Some []"
    and "serve_all d [(c, clk)] (Some a, x) = (Some a', x')"
    and "clk 1 + secs * 1000000000 \<le> t" and "t \<le> clks 0 1"
    and "clks 0 1 \<le> now" and "now < clks 0 1 + secs * 1000000000"
  shows "kv_get t k (ctx_store x') = None
    \<and> kv_get now k (ctx_store (snd (snd (replay True True True d clks a' y)))) = Some (StringValue v)"
proof -
  have logged: "writes_of [(c, clk)] = [(c, clk)]"
    by (simp add: writes_of_def assms(5) is_write_command_def write_commands_def us_count_def)
  have "ctx_store x' = kv_set (clk 1) k (StringValue v) (secs * 1000) (ctx_store x)"
    using assms(13) cmd_set_ex(1) [where clk = clk, OF assms(2-4,7,8)]
    by (auto simp: d_def execute_logged_def split_def assms(5) dispatch_set)
  then have "kv_get t k (ctx_store x') = None"
    using cmd_set_ex(2) [where clk = clk, OF assms(2-4,7,8)] assms(14) by simp
  moreover have "aof_is_open a'" "aof_disk a' = Some (frames [c])"
    using fold_aof_log [OF assms(11,12), of "[c]"] serve_all_log [of d "[(c, clk)]" a x] assms(13) logged by auto
  then have "replay True True True d clks a' y = (1, a', snd (dispatch d c (clks 0) y))"
    using replay_clean [of "[c]" a' d clks y] assms(6) by simp
  then have "ctx_store (snd (snd (replay True True True d clks a' y))) =
      kv_set (clks 0 1) k (StringValue v) (secs * 1000) (ctx_store y)"
    using cmd_set_ex(1) [where clk = "clks 0", OF assms(2-4,9,10)] by (simp add: d_def assms(5) dispatch_set)
  ultimately show ?thesis
    using cmd_set_ex(2) [where clk = "clks 0", OF assms(2-4,9,10)] assms(17) by simp
qed

theorem replay_restarts_ttl_witness:
  "let d = make_default (\<lambda>a b. []) True; x = initial_ctx (initial_stats 0);
       c = \<lparr>cmd_name = ''SET'', cmd_args = [''k'', ''v'', ''EX'', ''1'']\<rparr>;
       (a', x') = serve_all d [(c, \<lambda>i. 5)] (Some (aof_new True None), x)
   in kv_get 3000000000 ''k'' (ctx_store x') = None
      \<and> kv_get 3000000000 ''k'' (ctx_store (snd (snd (replay True True True d (\<lambda>n i. 3000000000) (the a') x)))) = Some (StringValue ''v'')"
proof -
  let ?d = "make_default (\<lambda>a b. []) True" and ?x = "initial_ctx (initial_stats 0)"
  let ?c = "\<lparr>cmd_name = ''SET'', cmd_args = [''k'', ''v'', ''EX'', ''1'']\<rparr>"
  obtain f x' where run: "serve_all ?d [(?c, \<lambda>i. 5)] (Some (aof_new True None), ?x) = (Some f, x')"
    using serve_all_log [of ?d "[(?c, \<lambda>i. 5)]" "aof_new True None" ?x] by (metis prod.collapse)
  have ok: "command_ok ?c"
    by (simp add: command_ok_eval)
  have flag: "upper ''EX'' = ''EX''" "parse_i64 ''1'' = Some 1"
    by code_simp+
  from replay_restarts_ttl [where clks = "\<lambda>n i. 3000000000" and t = 3000000000 and now = 3000000000 and y = ?x,
      OF flag _ refl ok _ _ _ _ _ _ run] run
  show ?thesis
    by (simp add: int64_defs aof_new_def)
qed

text \<open>The name of a command in the table has no CR.\<close>

lemma table_names: "list_all (\<lambda>(n, f). CR \<notin> set n) (make_default double_div has_broker)"
  by (simp add: make_default_table)

lemma name_with_CR_unknown: "CR \<in> set n \<Longrightarrow> um_find (make_default double_div has_broker) n = None"
  using table_names [of double_div has_broker]
  by (cases "um_find (make_default double_div has_broker) n") (auto simp: list_all_iff dest!: map_of_SomeD)

lemma error_then_rest:
  "find_crlf_idx l = None \<Longrightarrow>
     drain (serialize (RespError (l @ crlf @ rest))) =
       (case drain (rest @ crlf) of (vs, ex, r) \<Rightarrow> (RespError l # vs, ex, r))"
  using drain_serialized [of "[RespError l]" "rest @ crlf"] by simp

lemma one_more_line: "find_crlf_idx s = None \<Longrightarrow> c \<noteq> LF \<Longrightarrow> find_crlf_idx (s @ [c]) = None"
  by (induction s rule: find_crlf_idx.induct) (auto split: if_splits)

text \<open>
  C37: A command whose name contains CR LF gets more than one line of answer. The name is echoed in
  an error line without escaping: the client reads an error cut off at the first CR LF, and
  whatever the rest of the name and the closing quote make as RESP after it. In particular a rest
  \<open>+\<close>\<open>forged\<close> in one line is read as a second, successful reply of the sender's choice.
\<close>

theorem unknown_command_splits_reply:
  assumes "find_crlf_idx pre = None"
  shows "\<exists>e. fst (dispatch (make_default double_div has_broker)
                    \<lparr>cmd_name = pre @ crlf @ rest, cmd_args = as\<rparr> clk x) = Inr e
    \<and> drain (serialize e) =
        (case drain (rest @ [CHR 0x27] @ crlf) of (vs, ex, r) \<Rightarrow>
           (RespError (''ERR unknown command '' @ [CHR 0x27] @ pre) # vs, ex, r))
    \<and> (rest = CHR ''+'' # forged \<and> find_crlf_idx forged = None \<longrightarrow>
         drain (serialize e) =
           ([RespError (''ERR unknown command '' @ [CHR 0x27] @ pre), RespSimpleString (forged @ [CHR 0x27])],
            None, []))"
proof -
  let ?n = "pre @ crlf @ rest" and ?l = "''ERR unknown command '' @ [CHR 0x27] @ pre"
  let ?e = "RespError (?l @ crlf @ rest @ [CHR 0x27])"
  have "um_find (make_default double_div has_broker) ?n = None"
    by (rule name_with_CR_unknown) (simp add: crlf_def)
  then have reply: "fst (dispatch (make_default double_div has_broker) \<lparr>cmd_name = ?n, cmd_args = as\<rparr> clk x) = Inr ?e"
    by (simp add: dispatch_def)
  have "find_crlf_idx ?l = None"
    using assms by (cases pre) simp_all
  then have cut: "drain (serialize ?e) =
      (case drain (rest @ [CHR 0x27] @ crlf) of (vs, ex, r) \<Rightarrow> (RespError ?l # vs, ex, r))"
    using error_then_rest [of ?l "rest @ [CHR 0x27]"] by simp
  have "drain (rest @ [CHR 0x27] @ crlf) = ([RespSimpleString (forged @ [CHR 0x27])], None, [])"
    if "rest = CHR ''+'' # forged" "find_crlf_idx forged = None"
    using drain_serialized [of "[RespSimpleString (forged @ [CHR 0x27])]" "[]"] that one_more_line [of forged]
      resp.drn_more [of "[]" 0]
    by (simp add: parse.simps)
  with reply cut show ?thesis
    by (intro exI [of _ ?e]) auto
qed

theorem unknown_command_splits_reply_witness:
  "\<exists>e. fst (dispatch (make_default (\<lambda>a b. []) True)
          \<lparr>cmd_name = ''X'' @ crlf @ ''+OK'', cmd_args = []\<rparr> (\<lambda>i. 0) (initial_ctx (initial_stats 0))) = Inr e
     \<and> drain (serialize e) =
         ([RespError (''ERR unknown command '' @ [CHR 0x27] @ ''X''), RespSimpleString (''OK'' @ [CHR 0x27])], None, [])"
  using unknown_command_splits_reply [of "''X''" "\<lambda>a b. []" True "''+OK''" "[]" "\<lambda>i. 0"
      "initial_ctx (initial_stats 0)" "''OK''"] by auto

end
